(* ===== verification/Prelude.thy ===== *)
theory Prelude
  imports Main "HOL-Library.Word" "HOL-Library.List_Lexorder" "HOL-Library.Sublist"
begin

text \<open>
  Shared vocabulary of the development: the machine-integer and byte-string types of the Rust
  sources, the outcome type of fallible code (a value, an error or a panic), the state-and-outcome
  monad in which the stateful operations are written together with its weakest-precondition
  calculus, big-endian byte encodings of words, Rust's decimal formatting, substring search and
  UTF-8 validation, and the generic facts on lists and sorted key ranges the components use.

  Collections: \<open>wp_rules\<close> holds introduction rules \<open>\<dots> \<Longrightarrow> wp m Q s\<close> for operations whose behaviour
  is known by a contract, \<open>wp_simps\<close> the equations of the monad's combinators,
  \<open>be_simps\<close> the facts on byte encodings.
\<close>

named_theorems wp_rules
named_theorems wp_simps
named_theorems be_simps

section \<open>Integers and bytes\<close>

type_synonym u8 = "8 word"
type_synonym u32 = "32 word"
type_synonym u64 = "64 word"
type_synonym bytes = "u8 list"

text \<open>
  \<open>uN::to_be_bytes\<close> and \<open>uN::from_be_bytes\<close>: base-256 digits, most significant first;
  \<open>n\<close> is the width in bytes.
\<close>

definition to_be :: "nat \<Rightarrow> 'a::len word \<Rightarrow> bytes" where
  "to_be n w = map (\<lambda>i. word_of_int (uint w div 256 ^ i)) (rev [0..<n])"

definition be_int :: "bytes \<Rightarrow> int" where
  "be_int bs = foldl (\<lambda>a b. a * 256 + uint b) 0 bs"

definition from_be :: "bytes \<Rightarrow> 'a::len word" where
  "from_be bs = word_of_int (be_int bs)"

text \<open>The bslice \<open>data[a..b]\<close>, used only where \<open>b\<close> is within bounds.\<close>

definition bslice :: "nat \<Rightarrow> nat \<Rightarrow> 'a list \<Rightarrow> 'a list" where
  "bslice a b xs = take (b - a) (drop a xs)"

section \<open>Text\<close>

text \<open>Decimal formatting of an unsigned integer (\<open>{}\<close> of \<open>format!\<close>).\<close>

fun show_digits :: "nat \<Rightarrow> nat \<Rightarrow> string" where
  "show_digits 0 n = ''''"
| "show_digits (Suc fuel) n =
     (if n < 10 then [char_of (48 + n)]
      else show_digits fuel (n div 10) @ [char_of (48 + n mod 10)])"

definition show_nat :: "nat \<Rightarrow> string" where
  "show_nat n = show_digits (Suc n) n"

text \<open>\<open>str::contains\<close>.\<close>

fun contains :: "string \<Rightarrow> string \<Rightarrow> bool" where
  "contains [] p = (p = [])"
| "contains (c # s) p = (prefix p (c # s) \<or> contains s p)"

text \<open>
  \<open>std::str::from_utf8\<close>: \<open>None\<close> for valid input, otherwise the index up to which the input is
  valid and the length of the offending sequence (\<open>None\<close>: the input ends inside a sequence).
\<close>

definition in_rng :: "u8 \<Rightarrow> u8 \<Rightarrow> u8 \<Rightarrow> bool" where
  "in_rng lo hi b \<longleftrightarrow> lo \<le> b \<and> b \<le> hi"

definition utf8_second_ok :: "u8 \<Rightarrow> u8 \<Rightarrow> bool" where
  "utf8_second_ok b0 b1 =
     (if b0 = 0xE0 then in_rng 0xA0 0xBF b1
      else if b0 = 0xED then in_rng 0x80 0x9F b1
      else if b0 = 0xF0 then in_rng 0x90 0xBF b1
      else if b0 = 0xF4 then in_rng 0x80 0x8F b1
      else in_rng 0x80 0xBF b1)"

fun utf8_tail :: "nat \<Rightarrow> nat \<Rightarrow> bytes \<Rightarrow> nat option option" where
  "utf8_tail 0 k bs = None"
| "utf8_tail (Suc n) k [] = Some None"
| "utf8_tail (Suc n) k (b # bs) =
     (if in_rng 0x80 0xBF b then utf8_tail n (Suc k) bs else Some (Some k))"

definition utf8_width :: "u8 \<Rightarrow> nat option" where
  "utf8_width b0 =
     (if b0 < 0x80 then Some 1
      else if in_rng 0xC2 0xDF b0 then Some 2
      else if in_rng 0xE0 0xEF b0 then Some 3
      else if in_rng 0xF0 0xF4 b0 then Some 4
      else None)"

text \<open>The error at the head of the input, if its first sequence is not well formed.\<close>

fun utf8_head_error :: "bytes \<Rightarrow> nat option option" where
  "utf8_head_error [] = None"
| "utf8_head_error (b0 # bs) =
     (case utf8_width b0 of
        None \<Rightarrow> Some (Some 1)
      | Some w \<Rightarrow>
          (if w = 1 then None
           else case bs of
                  [] \<Rightarrow> Some None
                | b1 # cs \<Rightarrow> (if utf8_second_ok b0 b1 then utf8_tail (w - 2) 2 cs
                              else Some (Some 1))))"

function utf8_check :: "nat \<Rightarrow> bytes \<Rightarrow> (nat \<times> nat option) option" where
  "utf8_check i [] = None"
| "utf8_check i (b0 # bs) =
     (case utf8_head_error (b0 # bs) of
        Some e \<Rightarrow> Some (i, e)
      | None \<Rightarrow> (case utf8_width b0 of
                   None \<Rightarrow> None
                 | Some w \<Rightarrow> utf8_check (i + w) (drop (w - 1) bs)))"
  by pat_completeness auto
termination
  by (relation "measure (\<lambda>(i, bs). length bs)") auto

definition utf8_valid :: "bytes \<Rightarrow> bool" where
  "utf8_valid bs \<longleftrightarrow> utf8_check 0 bs = None"

definition utf8_error_msg :: "nat \<times> nat option \<Rightarrow> string" where
  "utf8_error_msg e =
     (case e of
        (i, Some n) \<Rightarrow> ''invalid utf-8 sequence of '' @ show_nat n @ '' bytes from index '' @ show_nat i
      | (i, None) \<Rightarrow> ''incomplete utf-8 byte sequence from index '' @ show_nat i)"

section \<open>Outcomes and stateful operations\<close>

text \<open>
  The outcome of a Rust function: \<open>Ok v\<close>, \<open>Err e\<close>, or a panic with its message
  (\<open>expect\<close>, \<open>unwrap\<close>, overflow in a checked build).
\<close>

datatype (dead 'e, 'a) outcome = Ok 'a | Err 'e | Panic string

type_synonym ('s, 'e, 'a) op = "'s \<Rightarrow> ('e, 'a) outcome \<times> 's"

definition ret :: "'a \<Rightarrow> ('s, 'e, 'a) op" where
  "ret a s = (Ok a, s)"

definition throw :: "'e \<Rightarrow> ('s, 'e, 'a) op" where
  "throw e s = (Err e, s)"

definition panic :: "string \<Rightarrow> ('s, 'e, 'a) op" where
  "panic p s = (Panic p, s)"

text \<open>\<open>bind m f\<close> is \<open>let x = m?; f(x)\<close>: an error or a panic of \<open>m\<close> ends the operation.\<close>

definition bind :: "('s, 'e, 'a) op \<Rightarrow> ('a \<Rightarrow> ('s, 'e, 'b) op) \<Rightarrow> ('s, 'e, 'b) op" where
  "bind m f s =
     (case m s of
        (Ok a, s') \<Rightarrow> f a s'
      | (Err e, s') \<Rightarrow> (Err e, s')
      | (Panic p, s') \<Rightarrow> (Panic p, s'))"

text \<open>A pure fallible computation, a read of the state, an update of the state.\<close>

definition lift :: "('e, 'a) outcome \<Rightarrow> ('s, 'e, 'a) op" where
  "lift r s = (r, s)"

definition gets :: "('s \<Rightarrow> 'a) \<Rightarrow> ('s, 'e, 'a) op" where
  "gets f s = (Ok (f s), s)"

definition modify :: "('s \<Rightarrow> 's) \<Rightarrow> ('s, 'e, unit) op" where
  "modify f s = (Ok (), f s)"

definition when_op :: "bool \<Rightarrow> ('s, 'e, unit) op \<Rightarrow> ('s, 'e, unit) op" where
  "when_op b m = (if b then m else ret ())"

text \<open>\<open>ok_or(e)?\<close> and \<open>let _ = m;\<close> (an error is dropped; a panic is not).\<close>

definition ok_or :: "'e \<Rightarrow> 'a option \<Rightarrow> ('s, 'e, 'a) op" where
  "ok_or e v = (case v of None \<Rightarrow> throw e | Some a \<Rightarrow> ret a)"

definition ignore :: "('s, 'e, 'a) op \<Rightarrow> ('s, 'e, unit) op" where
  "ignore m s =
     (case m s of
        (Ok _, s') \<Rightarrow> (Ok (), s')
      | (Err _, s') \<Rightarrow> (Ok (), s')
      | (Panic p, s') \<Rightarrow> (Panic p, s'))"

text \<open>\<open>match m { \<dots> }\<close>: the continuation sees the outcome; a panic is not caught.\<close>

definition match_op :: "('s, 'e, 'a) op \<Rightarrow> (('e, 'a) outcome \<Rightarrow> ('s, 'e, 'b) op) \<Rightarrow> ('s, 'e, 'b) op" where
  "match_op m f s =
     (case m s of
        (Panic p, s') \<Rightarrow> (Panic p, s')
      | (r, s') \<Rightarrow> f r s')"

text \<open>A \<open>for\<close> loop whose body may leave the function with \<open>?\<close>.\<close>

fun for_each :: "'a list \<Rightarrow> ('a \<Rightarrow> ('s, 'e, unit) op) \<Rightarrow> ('s, 'e, unit) op" where
  "for_each [] f = ret ()"
| "for_each (x # xs) f = bind (f x) (\<lambda>_. for_each xs f)"

fun map_res :: "('a \<Rightarrow> 'b) \<Rightarrow> ('e, 'a) outcome \<Rightarrow> ('e, 'b) outcome" where
  "map_res f (Ok a) = Ok (f a)"
| "map_res f (Err e) = Err e"
| "map_res f (Panic p) = Panic p"

fun is_ok :: "('e, 'a) outcome \<Rightarrow> bool" where
  "is_ok (Ok a) = True"
| "is_ok (Err e) = False"
| "is_ok (Panic p) = False"

text \<open>\<open>r.ok()\<close>.\<close>

fun ok_value :: "('e, 'a) outcome \<Rightarrow> 'a option" where
  "ok_value (Ok a) = Some a"
| "ok_value (Err e) = None"
| "ok_value (Panic p) = None"

lemma bind_assoc: "bind (bind m f) g = bind m (\<lambda>x. bind (f x) g)"
  by (auto simp: bind_def fun_eq_iff split: prod.splits outcome.splits)

lemma bind_ret [simp]: "bind (ret a) f = f a"
  by (simp add: bind_def ret_def fun_eq_iff)

lemma bind_ret_right [simp]: "bind m ret = m"
  by (auto simp: bind_def ret_def fun_eq_iff split: prod.splits outcome.splits)

lemma for_each_append: "for_each (xs @ ys) f = bind (for_each xs f) (\<lambda>_. for_each ys f)"
  by (induction xs) (simp_all add: bind_assoc)

section \<open>Weakest preconditions\<close>

definition wp :: "('s, 'e, 'a) op \<Rightarrow> (('e, 'a) outcome \<Rightarrow> 's \<Rightarrow> bool) \<Rightarrow> 's \<Rightarrow> bool" where
  "wp m Q s = (case m s of (r, s') \<Rightarrow> Q r s')"

lemma wpI: "(\<And>r s'. m s = (r, s') \<Longrightarrow> Q r s') \<Longrightarrow> wp m Q s"
  by (cases "m s") (simp add: wp_def)

lemma wpD: "wp m Q s \<Longrightarrow> m s = (r, s') \<Longrightarrow> Q r s'"
  by (simp add: wp_def)

lemma wp_mono: "wp m P s \<Longrightarrow> (\<And>r s'. P r s' \<Longrightarrow> Q r s') \<Longrightarrow> wp m Q s"
  by (auto simp: wp_def split: prod.splits)

lemma wp_conj: "wp m P s \<Longrightarrow> wp m Q s \<Longrightarrow> wp m (\<lambda>r s'. P r s' \<and> Q r s') s"
  by (auto simp: wp_def split: prod.splits)

lemma wp_ret [wp_simps]: "wp (ret a) Q s = Q (Ok a) s"
  by (simp add: wp_def ret_def)

lemma wp_throw [wp_simps]: "wp (throw e) Q s = Q (Err e) s"
  by (simp add: wp_def throw_def)

lemma wp_panic [wp_simps]: "wp (panic p) Q s = Q (Panic p) s"
  by (simp add: wp_def panic_def)

lemma wp_lift [wp_simps]: "wp (lift r) Q s = Q r s"
  by (simp add: wp_def lift_def)

lemma wp_gets [wp_simps]: "wp (gets f) Q s = Q (Ok (f s)) s"
  by (simp add: wp_def gets_def)

lemma wp_modify [wp_simps]: "wp (modify f) Q s = Q (Ok ()) (f s)"
  by (simp add: wp_def modify_def)

lemma wp_when_op [wp_simps]: "wp (when_op b m) Q s = (if b then wp m Q s else Q (Ok ()) s)"
  by (simp add: when_op_def wp_ret)

text \<open>The continuation of \<open>bind\<close>: run the rest on a value, stop on an error or a panic.\<close>

fun andthen ::
  "('a \<Rightarrow> ('s, 'e, 'b) op) \<Rightarrow> (('e, 'b) outcome \<Rightarrow> 's \<Rightarrow> bool) \<Rightarrow> ('e, 'a) outcome \<Rightarrow> 's \<Rightarrow> bool" where
  "andthen f Q (Ok a) s = wp (f a) Q s"
| "andthen f Q (Err e) s = Q (Err e) s"
| "andthen f Q (Panic p) s = Q (Panic p) s"

lemma andthen_case:
  "andthen f Q r s =
     (case r of Ok a \<Rightarrow> wp (f a) Q s | Err e \<Rightarrow> Q (Err e) s | Panic p \<Rightarrow> Q (Panic p) s)"
  by (cases r) simp_all

lemma wp_bind [wp_simps]: "wp (bind m f) Q s = wp m (andthen f Q) s"
  by (auto simp: wp_def bind_def split: prod.splits outcome.splits)

lemma wp_ok_or [wp_simps]:
  "wp (ok_or e v) Q s = (case v of None \<Rightarrow> Q (Err e) s | Some a \<Rightarrow> Q (Ok a) s)"
  by (simp add: ok_or_def wp_ret wp_throw split: option.split)

lemma wp_ignore [wp_simps]:
  "wp (ignore m) Q s =
     wp m (\<lambda>r s'. case r of Panic p \<Rightarrow> Q (Panic p) s' | _ \<Rightarrow> Q (Ok ()) s') s"
  by (auto simp: wp_def ignore_def split: prod.splits outcome.splits)

lemma wp_match_op [wp_simps]:
  "wp (match_op m f) Q s =
     wp m (\<lambda>r s'. case r of Panic p \<Rightarrow> Q (Panic p) s' | _ \<Rightarrow> wp (f r) Q s') s"
  by (auto simp: wp_def match_op_def split: prod.splits outcome.splits)

lemma wp_for_each_Nil [wp_simps]: "wp (for_each [] f) Q s = Q (Ok ()) s"
  by (simp add: wp_ret)

lemma wp_for_each_Cons [wp_simps]:
  "wp (for_each (x # xs) f) Q s = wp (f x) (andthen (\<lambda>_. for_each xs f) Q) s"
  by (simp add: wp_bind)

section \<open>Byte encodings\<close>

lemma length_to_be [simp, be_simps]: "length (to_be n w) = n"
  by (simp add: to_be_def)

lemma to_be_0 [simp]: "to_be 0 w = []"
  by (simp add: to_be_def)

lemma to_be_Suc: "to_be (Suc n) w = word_of_int (uint w div 256 ^ n) # to_be n w"
  by (simp add: to_be_def)

lemma be_int_Nil [simp]: "be_int [] = 0"
  by (simp add: be_int_def)

lemma be_int_snoc: "be_int (bs @ [b]) = be_int bs * 256 + uint b"
  by (simp add: be_int_def)

lemma be_int_Cons: "be_int (b # bs) = uint b * 256 ^ length bs + be_int bs"
proof (induction bs rule: rev_induct)
  case Nil
  show ?case by (simp add: be_int_def)
next
  case (snoc c bs)
  then show ?case
    using be_int_snoc [of "b # bs" c] by (simp add: be_int_snoc algebra_simps)
qed

lemma be_int_nonneg [simp]: "0 \<le> be_int bs"
  by (induction bs) (simp_all add: be_int_Cons)

lemma uint_u8_less: "uint (b :: u8) < 256"
  using uint_lt2p [of b] by simp

lemma be_int_bound: "be_int bs < 256 ^ length bs"
proof (induction bs)
  case Nil
  show ?case by simp
next
  case (Cons b bs)
  have "uint b + 1 \<le> 256" using uint_u8_less [of b] by simp
  then have "(uint b + 1) * 256 ^ length bs \<le> 256 * 256 ^ length bs"
    by (rule mult_right_mono) simp
  then have "uint b * 256 ^ length bs + 256 ^ length bs \<le> 256 ^ length (b # bs)"
    by (simp add: distrib_right)
  with Cons show ?case by (simp only: be_int_Cons)
qed

lemma uint_byte: "uint (word_of_int x :: u8) = x mod 256"
  by (simp add: uint_word_of_int)

lemma be_int_to_be: "be_int (to_be n w) = uint w mod 256 ^ n"
proof (induction n)
  case 0
  show ?case by simp
next
  case (Suc n)
  have "uint w mod 256 ^ Suc n = (uint w div 256 ^ n mod 256) * 256 ^ n + uint w mod 256 ^ n"
    using zmod_zmult2_eq [of 256 "uint w" "256 ^ n"] by (simp add: mult.commute)
  with Suc show ?case by (simp add: to_be_Suc be_int_Cons uint_byte)
qed

lemma pow_256: "(256 :: int) ^ n = 2 ^ (8 * n)"
  by (simp add: power_mult)

lemma from_be_to_be [be_simps]:
  fixes w :: "'a::len word"
  assumes "LENGTH('a) \<le> 8 * n"
  shows "from_be (to_be n w) = w"
proof -
  have "(2::int) ^ LENGTH('a) \<le> 2 ^ (8 * n)"
    using assms by (intro power_increasing) auto
  with uint_lt2p [of w] have "uint w < 256 ^ n"
    unfolding pow_256 by (rule less_le_trans)
  then show ?thesis by (simp add: from_be_def be_int_to_be)
qed

text \<open>On strings of one length the byte order is the numeric order.\<close>

lemma be_int_less:
  "length xs = length ys \<Longrightarrow> be_int xs < be_int ys \<longleftrightarrow> xs < ys"
proof (induction xs ys rule: list_induct2)
  case Nil
  show ?case by simp
next
  case (Cons x xs y ys)
  let ?P = "256 ^ length ys :: int"
  have b: "be_int xs < ?P" "be_int ys < ?P" "0 \<le> be_int xs" "0 \<le> be_int ys"
    using be_int_bound [of xs] be_int_bound [of ys] Cons.hyps by simp_all
  consider (lt) "x < y" | (eq) "x = y" | (gt) "y < x" by (rule linorder_less_linear [THEN disjE]) auto
  then show ?case
  proof cases
    case lt
    then have "uint x + 1 \<le> uint y" by (simp add: word_less_def)
    then have "(uint x + 1) * ?P \<le> uint y * ?P" by (rule mult_right_mono) simp
    then have "uint x * ?P + ?P \<le> uint y * ?P" by (simp add: distrib_right)
    with b have "uint x * ?P + be_int xs < uint y * ?P + be_int ys" by linarith
    with lt Cons.hyps show ?thesis by (simp add: be_int_Cons)
  next
    case eq
    with Cons show ?thesis by (simp add: be_int_Cons)
  next
    case gt
    then have "uint y + 1 \<le> uint x" by (simp add: word_less_def)
    then have "(uint y + 1) * ?P \<le> uint x * ?P" by (rule mult_right_mono) simp
    then have "uint y * ?P + ?P \<le> uint x * ?P" by (simp add: distrib_right)
    with b have "uint y * ?P + be_int ys < uint x * ?P + be_int xs" by linarith
    with gt Cons.hyps show ?thesis by (auto simp: be_int_Cons)
  qed
qed

lemma be_int_inj: "length xs = length ys \<Longrightarrow> be_int xs = be_int ys \<longleftrightarrow> xs = ys"
  using be_int_less [of xs ys] be_int_less [of ys xs] by (auto simp: not_less_iff_gr_or_eq)

lemma uint_from_be:
  assumes "8 * length bs = LENGTH('a::len)"
  shows "uint (from_be bs :: 'a word) = be_int bs"
  using be_int_bound [of bs] assms by (simp add: from_be_def uint_word_of_int pow_256)

lemma to_be_from_be [be_simps]:
  assumes "8 * length bs = LENGTH('a::len)" and "n = length bs"
  shows "to_be n (from_be bs :: 'a word) = bs"
proof -
  have "be_int (to_be n (from_be bs :: 'a word)) = be_int bs"
    using be_int_bound [of bs] assms by (simp add: be_int_to_be uint_from_be)
  then show ?thesis using assms by (simp add: be_int_inj)
qed

lemma to_be_less [be_simps]:
  fixes v w :: "'a::len word"
  assumes "LENGTH('a) = 8 * n"
  shows "to_be n v < to_be n w \<longleftrightarrow> v < w"
proof -
  have "uint x < 256 ^ n" for x :: "'a word"
    using uint_lt2p [of x] assms by (simp add: pow_256)
  then show ?thesis
    using be_int_less [of "to_be n v" "to_be n w"]
    by (simp add: be_int_to_be word_less_def)
qed

lemma to_be_inject [be_simps]:
  fixes v w :: "'a::len word"
  assumes "LENGTH('a) = 8 * n"
  shows "to_be n v = to_be n w \<longleftrightarrow> v = w"
proof
  assume "to_be n v = to_be n w"
  then have "(from_be (to_be n v) :: 'a word) = from_be (to_be n w)" by simp
  then show "v = w" using assms by (simp add: from_be_to_be)
qed simp

section \<open>Lists\<close>

lemma append_less_append: "(xs @ ys < xs @ zs) = (ys < (zs :: 'a::order list))"
  by (induction xs) auto

lemma append_less_same_length:
  fixes xs :: "'a::linorder list"
  assumes "length xs = length ys"
  shows "xs @ us < ys @ vs \<longleftrightarrow> xs < ys \<or> xs = ys \<and> us < vs"
  using assms by (induction xs ys rule: list_induct2) auto

lemma length_slice [simp]: "b \<le> length xs \<Longrightarrow> length (bslice a b xs) = b - a"
  by (auto simp: bslice_def)

lemma slice_append_left: "b \<le> length xs \<Longrightarrow> bslice a b (xs @ ys) = bslice a b xs"
  by (simp add: bslice_def)

lemma slice_append_right:
  "length xs \<le> a \<Longrightarrow> bslice a b (xs @ ys) = bslice (a - length xs) (b - length xs) ys"
  by (simp add: bslice_def)

lemma slice_all: "a = 0 \<Longrightarrow> b = length xs \<Longrightarrow> bslice a b xs = xs"
  by (simp add: bslice_def)

lemma slice_split:
  assumes "a \<le> b" and "b \<le> c"
  shows "bslice a b xs @ bslice b c xs = bslice a c xs"
proof -
  have "drop b xs = drop (b - a) (drop a xs)" using assms by simp
  moreover have "c - a = (b - a) + (c - b)" using assms by simp
  ultimately show ?thesis by (simp only: bslice_def take_add)
qed

end
