(* ===== verification/Core_Types.thy ===== *)
theory Core_Types
  imports Prelude
begin

text \<open>
  The shared vocabulary of \<^verbatim>\<open>src/core/src/lib.rs\<close>: inode numbers, attributes, directory entries,
  the request and response structs of \<^verbatim>\<open>MetadataOps\<close>, and the error enumeration \<^verbatim>\<open>FsError\<close>.
  A Rust \<^verbatim>\<open>String\<close> or \<^verbatim>\<open>&str\<close> that is stored or compared is its UTF-8 byte sequence (\<open>str\<close>);
  error messages are \<open>string\<close>s.
\<close>

type_synonym inode = u64
type_synonym str = bytes

record FileAttr =
  fa_inode :: inode
  fa_size :: u64
  fa_mode :: u32
  fa_nlink :: u32
  fa_uid :: u32
  fa_gid :: u32
  fa_atime :: u64
  fa_mtime :: u64
  fa_ctime :: u64

record StatFs =
  sf_blocks :: u64
  sf_bfree :: u64
  sf_bavail :: u64
  sf_files :: u64
  sf_ffree :: u64
  sf_bsize :: u32
  sf_namelen :: u32

record DirEntry =
  de_name :: str
  de_inode :: inode
  de_kind :: u32

record SetAttrRequest =
  sa_mode :: "u32 option"
  sa_uid :: "u32 option"
  sa_gid :: "u32 option"
  sa_size :: "u64 option"
  sa_atime :: "u64 option"
  sa_mtime :: "u64 option"

record DataLocation =
  server_id :: str

record OpenResponse =
  or_handle :: u64
  or_data_location :: DataLocation

record SetAttrResponse =
  sr_attr :: FileAttr
  sr_needs_truncate :: "u64 option"

record UnlinkResponse =
  ur_purged_inodes :: "inode list"

record RenameResponse =
  rr_purged_inodes :: "inode list"

record CreateAndOpenResponse =
  co_attr :: FileAttr
  co_handle :: u64
  co_data_location :: DataLocation

record ReleaseResponse =
  lr_purged_inodes :: "inode list"

datatype FsError =
    NotImplemented
  | NotFound
  | AlreadyExists
  | NotADirectory
  | IsADirectory
  | DirectoryNotEmpty
  | NameTooLong
  | Io string
  | InvalidInput string
  | PermissionDenied
  | TransactionConflict
  | Other string

type_synonym 'a FsResult = "(FsError, 'a) outcome"
type_synonym ('s, 'a) fs_op = "('s, FsError, 'a) op"

end
