(* ===== verification/Encoding.thy ===== *)
theory Encoding
  imports Core_Types
begin

text \<open>
  \<^verbatim>\<open>src/storage/src/encoding.rs\<close>: the binary layout of an inode value and of the keys of the four
  column families. The lemmas give the round trips, the exact acceptance condition of the
  decoders, the agreement of byte order with numeric order, and the isolation of the key
  families and of the prefixes that directory and delta scans use.
\<close>

section \<open>Inode values\<close>

definition FORMAT_VERSION :: u8 where
  "FORMAT_VERSION = 1"

definition SERIALIZED_SIZE :: nat where
  "SERIALIZED_SIZE = 57"

record InodeValue =
  iv_version :: u8
  iv_inode :: inode
  iv_size :: u64
  iv_mode :: u32
  iv_nlink :: u32
  iv_uid :: u32
  iv_gid :: u32
  iv_atime :: u64
  iv_mtime :: u64
  iv_ctime :: u64

definition from_attr :: "FileAttr \<Rightarrow> InodeValue" where
  "from_attr a =
     \<lparr> iv_version = FORMAT_VERSION, iv_inode = fa_inode a, iv_size = fa_size a,
       iv_mode = fa_mode a, iv_nlink = fa_nlink a, iv_uid = fa_uid a, iv_gid = fa_gid a,
       iv_atime = fa_atime a, iv_mtime = fa_mtime a, iv_ctime = fa_ctime a \<rparr>"

definition to_attr :: "InodeValue \<Rightarrow> FileAttr" where
  "to_attr v =
     \<lparr> fa_inode = iv_inode v, fa_size = iv_size v, fa_mode = iv_mode v, fa_nlink = iv_nlink v,
       fa_uid = iv_uid v, fa_gid = iv_gid v, fa_atime = iv_atime v, fa_mtime = iv_mtime v,
       fa_ctime = iv_ctime v \<rparr>"

text \<open>The 57-byte buffer, field after field; every byte of the zeroed buffer is overwritten.\<close>

definition serialize :: "InodeValue \<Rightarrow> bytes" where
  "serialize v =
     [iv_version v] @ to_be 8 (iv_inode v) @ to_be 8 (iv_size v) @ to_be 4 (iv_mode v)
     @ to_be 4 (iv_nlink v) @ to_be 4 (iv_uid v) @ to_be 4 (iv_gid v)
     @ to_be 8 (iv_atime v) @ to_be 8 (iv_mtime v) @ to_be 8 (iv_ctime v)"

definition deserialize :: "bytes \<Rightarrow> InodeValue FsResult" where
  "deserialize data =
     (if length data < SERIALIZED_SIZE then
        Err (InvalidInput (''InodeValue: expected '' @ show_nat SERIALIZED_SIZE
                           @ '' bytes, got '' @ show_nat (length data)))
      else if data ! 0 \<noteq> FORMAT_VERSION then
        Err (InvalidInput (''InodeValue: unsupported version '' @ show_nat (unat (data ! 0))))
      else
        Ok \<lparr> iv_version = data ! 0,
             iv_inode = from_be (bslice 1 9 data),
             iv_size = from_be (bslice 9 17 data),
             iv_mode = from_be (bslice 17 21 data),
             iv_nlink = from_be (bslice 21 25 data),
             iv_uid = from_be (bslice 25 29 data),
             iv_gid = from_be (bslice 29 33 data),
             iv_atime = from_be (bslice 33 41 data),
             iv_mtime = from_be (bslice 41 49 data),
             iv_ctime = from_be (bslice 49 57 data) \<rparr>)"

section \<open>Keys\<close>

definition INODE_KEY_PREFIX :: u8 where
  "INODE_KEY_PREFIX = 73"

definition DIR_ENTRY_KEY_PREFIX :: u8 where
  "DIR_ENTRY_KEY_PREFIX = 68"

definition encode_inode_key :: "inode \<Rightarrow> bytes" where
  "encode_inode_key i = INODE_KEY_PREFIX # to_be 8 i"

definition encode_dir_entry_key :: "inode \<Rightarrow> str \<Rightarrow> bytes" where
  "encode_dir_entry_key parent name = DIR_ENTRY_KEY_PREFIX # to_be 8 parent @ name"

definition dir_entry_prefix :: "inode \<Rightarrow> bytes" where
  "dir_entry_prefix parent = DIR_ENTRY_KEY_PREFIX # to_be 8 parent"

definition extract_child_name :: "bytes \<Rightarrow> str FsResult" where
  "extract_child_name key =
     (if length key < 9 \<or> key ! 0 \<noteq> DIR_ENTRY_KEY_PREFIX then
        Err (InvalidInput ''invalid dir entry key'')
      else case utf8_check 0 (drop 9 key) of
             None \<Rightarrow> Ok (drop 9 key)
           | Some e \<Rightarrow> Err (InvalidInput (''invalid UTF-8 in dir key: '' @ utf8_error_msg e)))"

definition DELTA_KEY_PREFIX :: u8 where
  "DELTA_KEY_PREFIX = 88"

definition encode_delta_key :: "inode \<Rightarrow> u64 \<Rightarrow> bytes" where
  "encode_delta_key i q = DELTA_KEY_PREFIX # to_be 8 i @ to_be 8 q"

definition decode_delta_key :: "bytes \<Rightarrow> (inode \<times> u64) FsResult" where
  "decode_delta_key key =
     (if length key < 17 \<or> key ! 0 \<noteq> DELTA_KEY_PREFIX then
        Err (InvalidInput ''invalid delta key'')
      else Ok (from_be (bslice 1 9 key), from_be (bslice 9 17 key)))"

definition delta_prefix :: "inode \<Rightarrow> bytes" where
  "delta_prefix i = DELTA_KEY_PREFIX # to_be 8 i"

definition DATA_LOCATION_KEY_PREFIX :: u8 where
  "DATA_LOCATION_KEY_PREFIX = 76"

definition encode_data_location_key :: "inode \<Rightarrow> bytes" where
  "encode_data_location_key i = DATA_LOCATION_KEY_PREFIX # to_be 8 i"

definition SYMLINK_KEY_PREFIX :: u8 where
  "SYMLINK_KEY_PREFIX = 83"

definition encode_symlink_key :: "inode \<Rightarrow> bytes" where
  "encode_symlink_key i = SYMLINK_KEY_PREFIX # to_be 8 i"

lemmas key_defs =
  encode_inode_key_def encode_dir_entry_key_def dir_entry_prefix_def encode_delta_key_def
  delta_prefix_def encode_data_location_key_def encode_symlink_key_def

lemmas key_prefix_defs =
  INODE_KEY_PREFIX_def DIR_ENTRY_KEY_PREFIX_def DELTA_KEY_PREFIX_def
  DATA_LOCATION_KEY_PREFIX_def SYMLINK_KEY_PREFIX_def

section \<open>The inode value codec\<close>

lemma to_attr_from_attr [simp]: "to_attr (from_attr a) = a"
  by (simp add: to_attr_def from_attr_def)

lemma length_serialize [simp]: "length (serialize v) = SERIALIZED_SIZE"
  by (simp add: serialize_def SERIALIZED_SIZE_def)

lemmas slice_simps = slice_append_left slice_append_right slice_all

lemma slice_Cons: "0 < a \<Longrightarrow> a \<le> b \<Longrightarrow> bslice a b (x # xs) = bslice (a - 1) (b - 1) xs"
  by (cases a) (auto simp: bslice_def)

text \<open>The offsets of the decoder are those of the encoder.\<close>

lemma slices_of_serialize:
  "bslice 1 9 (serialize v) = to_be 8 (iv_inode v)"
  "bslice 9 17 (serialize v) = to_be 8 (iv_size v)"
  "bslice 17 21 (serialize v) = to_be 4 (iv_mode v)"
  "bslice 21 25 (serialize v) = to_be 4 (iv_nlink v)"
  "bslice 25 29 (serialize v) = to_be 4 (iv_uid v)"
  "bslice 29 33 (serialize v) = to_be 4 (iv_gid v)"
  "bslice 33 41 (serialize v) = to_be 8 (iv_atime v)"
  "bslice 41 49 (serialize v) = to_be 8 (iv_mtime v)"
  "bslice 49 57 (serialize v) = to_be 8 (iv_ctime v)"
  by (simp_all add: serialize_def slice_Cons slice_simps)

text \<open>Bytes after the 57th are ignored.\<close>

lemma deserialize_serialize_append [simp]:
  assumes "iv_version v = FORMAT_VERSION"
  shows "deserialize (serialize v @ rest) = Ok v"
proof -
  have "(serialize v @ rest) ! 0 = FORMAT_VERSION"
    using assms by (simp add: serialize_def)
  then show ?thesis
    using assms
    by (simp add: deserialize_def slice_append_left slices_of_serialize
        slices_of_serialize(1) [unfolded One_nat_def] from_be_to_be SERIALIZED_SIZE_def)
qed

lemma deserialize_serialize [simp]:
  "iv_version v = FORMAT_VERSION \<Longrightarrow> deserialize (serialize v) = Ok v"
  using deserialize_serialize_append [of v "[]"] by simp


lemma serialize_slices:
  assumes "length data \<ge> SERIALIZED_SIZE"
  shows "take 57 data =
    [data ! 0] @ bslice 1 9 data @ bslice 9 17 data @ bslice 17 21 data @ bslice 21 25 data
    @ bslice 25 29 data @ bslice 29 33 data @ bslice 33 41 data @ bslice 41 49 data @ bslice 49 57 data"
proof -
  have "[data ! 0] = bslice 0 1 data"
    using assms by (cases data) (simp_all add: bslice_def SERIALIZED_SIZE_def)
  then show ?thesis
    by (simp add: slice_split append_assoc [symmetric] del: append_assoc) (simp add: bslice_def)
qed

text \<open>
  The decoder accepts exactly the inputs that start with an encoding: \<open>deserialize\<close> yields
  \<open>v\<close> if and only if \<open>v\<close> has the current version and the first 57 bytes are \<open>serialize v\<close>;
  in particular no two inode values share an encoding and no other bytes are accepted.
\<close>

theorem deserialize_Ok_iff:
  "deserialize data = Ok v \<longleftrightarrow>
     iv_version v = FORMAT_VERSION \<and> take SERIALIZED_SIZE data = serialize v"
proof
  assume d: "deserialize data = Ok v"
  then have len: "SERIALIZED_SIZE \<le> length data" and ver: "data ! 0 = FORMAT_VERSION"
    by (auto simp: deserialize_def split: if_splits)
  from len have len': "57 \<le> length data" by (simp add: SERIALIZED_SIZE_def)
  have v: "v = \<lparr> iv_version = data ! 0, iv_inode = from_be (bslice 1 9 data),
       iv_size = from_be (bslice 9 17 data), iv_mode = from_be (bslice 17 21 data),
       iv_nlink = from_be (bslice 21 25 data), iv_uid = from_be (bslice 25 29 data),
       iv_gid = from_be (bslice 29 33 data), iv_atime = from_be (bslice 33 41 data),
       iv_mtime = from_be (bslice 41 49 data), iv_ctime = from_be (bslice 49 57 data) \<rparr>"
    using d len ver by (simp add: deserialize_def)
  have "serialize v = take 57 data"
    using len' by (simp add: v serialize_def to_be_from_be serialize_slices SERIALIZED_SIZE_def)
  with v ver show "iv_version v = FORMAT_VERSION \<and> take SERIALIZED_SIZE data = serialize v"
    by (simp add: SERIALIZED_SIZE_def)
next
  assume a: "iv_version v = FORMAT_VERSION \<and> take SERIALIZED_SIZE data = serialize v"
  then have "data = serialize v @ drop SERIALIZED_SIZE data"
    by (metis append_take_drop_id)
  with a show "deserialize data = Ok v"
    by (metis deserialize_serialize_append)
qed

section \<open>The key codecs\<close>

lemma length_keys [simp]:
  "length (encode_inode_key i) = 9"
  "length (encode_dir_entry_key p n) = 9 + length n"
  "length (dir_entry_prefix p) = 9"
  "length (encode_delta_key i q) = 17"
  "length (delta_prefix i) = 9"
  "length (encode_data_location_key i) = 9"
  "length (encode_symlink_key i) = 9"
  by (simp_all add: key_defs)

lemma to_be_append_inject:
  fixes v w :: u64
  shows "to_be 8 v @ xs = to_be 8 w @ ys \<longleftrightarrow> v = w \<and> xs = ys"
  by (simp add: to_be_inject)

lemma keys_inject [simp]:
  "encode_inode_key i = encode_inode_key j \<longleftrightarrow> i = j"
  "encode_dir_entry_key p n = encode_dir_entry_key q m \<longleftrightarrow> p = q \<and> n = m"
  "encode_delta_key i a = encode_delta_key j b \<longleftrightarrow> i = j \<and> a = b"
  "encode_data_location_key i = encode_data_location_key j \<longleftrightarrow> i = j"
  "encode_symlink_key i = encode_symlink_key j \<longleftrightarrow> i = j"
  by (simp_all add: key_defs to_be_append_inject to_be_inject)

text \<open>The key \<open>b"next_inode"\<close> of the allocator lives beside the inode keys.\<close>

definition NEXT_INODE_KEY :: bytes where
  "NEXT_INODE_KEY = [110, 101, 120, 116, 95, 105, 110, 111, 100, 101]"

lemma key_families_distinct [simp]:
  "encode_inode_key i \<noteq> encode_data_location_key j"
  "encode_data_location_key j \<noteq> encode_inode_key i"
  "encode_inode_key i \<noteq> encode_symlink_key j"
  "encode_symlink_key j \<noteq> encode_inode_key i"
  "encode_data_location_key i \<noteq> encode_symlink_key j"
  "encode_symlink_key j \<noteq> encode_data_location_key i"
  "encode_inode_key i \<noteq> NEXT_INODE_KEY"
  "NEXT_INODE_KEY \<noteq> encode_inode_key i"
  "encode_data_location_key i \<noteq> NEXT_INODE_KEY"
  "NEXT_INODE_KEY \<noteq> encode_data_location_key i"
  "encode_symlink_key i \<noteq> NEXT_INODE_KEY"
  "NEXT_INODE_KEY \<noteq> encode_symlink_key i"
  by (simp_all add: key_defs key_prefix_defs NEXT_INODE_KEY_def)

lemma prefix_dir_entry_key [simp]:
  "prefix (dir_entry_prefix p) (encode_dir_entry_key q n) \<longleftrightarrow> p = q"
  by (auto simp: key_defs prefix_def to_be_append_inject)

lemma prefix_delta_key [simp]:
  "prefix (delta_prefix i) (encode_delta_key j q) \<longleftrightarrow> i = j"
  by (auto simp: key_defs prefix_def to_be_append_inject)

lemma extract_child_name_encode [simp]:
  "utf8_valid n \<Longrightarrow> extract_child_name (encode_dir_entry_key p n) = Ok n"
  by (simp add: extract_child_name_def encode_dir_entry_key_def utf8_valid_def)

lemma decode_delta_key_encode [simp]: "decode_delta_key (encode_delta_key i q) = Ok (i, q)"
  by (simp add: decode_delta_key_def encode_delta_key_def slice_Cons slice_simps from_be_to_be)

lemma decode_delta_key_Ok:
  assumes "decode_delta_key k = Ok (i, q)"
  shows "take 17 k = encode_delta_key i q"
proof -
  from assms have len: "17 \<le> length k" and k0: "k ! 0 = DELTA_KEY_PREFIX"
    and i: "i = from_be (bslice 1 9 k)" and q: "q = from_be (bslice 9 17 k)"
    by (auto simp: decode_delta_key_def split: if_splits)
  have "take 17 k = bslice 0 1 k @ bslice 1 9 k @ bslice 9 17 k"
    by (simp add: slice_split append_assoc [symmetric] del: append_assoc) (simp add: bslice_def)
  also have "bslice 0 1 k = [DELTA_KEY_PREFIX]"
    using len k0 by (cases k) (simp_all add: bslice_def)
  finally show ?thesis
    using len by (simp add: encode_delta_key_def i q to_be_from_be)
qed

text \<open>
  Byte order of keys is the numeric order of what they encode, so that RocksDB iterates inodes
  in inode order, the deltas of an inode in sequence order, and the entries of one directory in
  name order, directory after directory.
\<close>

theorem key_order:
  "(encode_inode_key i < encode_inode_key j \<longleftrightarrow> i < j)
   \<and> (encode_delta_key i a < encode_delta_key j b \<longleftrightarrow> i < j \<or> i = j \<and> a < b)
   \<and> (encode_dir_entry_key p n < encode_dir_entry_key q m \<longleftrightarrow> p < q \<or> p = q \<and> n < m)"
  by (simp add: key_defs append_less_same_length to_be_less to_be_inject)

lemma u64_prefix_key:
  assumes "prefix (c # to_be 8 (p :: u64)) k"
  obtains r where "k = c # to_be 8 p @ r"
  using assms by (auto simp: prefix_def)

lemma prefix_dir_entry_iff:
  "prefix (dir_entry_prefix p) k \<longleftrightarrow> (\<exists>n. k = encode_dir_entry_key p n)"
  by (auto simp: key_defs prefix_def)

lemma prefix_delta_iff:
  "prefix (delta_prefix i) k \<and> length k = 17 \<longleftrightarrow> (\<exists>a. k = encode_delta_key i a)"
proof
  assume "prefix (delta_prefix i) k \<and> length k = 17"
  then obtain r where k: "k = DELTA_KEY_PREFIX # to_be 8 i @ r" and "length r = 8"
    by (auto simp: delta_prefix_def elim: u64_prefix_key)
  then have "k = encode_delta_key i (from_be r)"
    by (simp add: encode_delta_key_def to_be_from_be)
  then show "\<exists>a. k = encode_delta_key i a" ..
qed auto

text \<open>
  A scan of the prefix of a directory sees exactly the keys of that directory's entries:
  every key with the prefix of \<open>p\<close> is the key of an entry of \<open>p\<close>, and the key of an entry of
  another directory never has it, whatever the names are. Likewise the 17-byte keys under the
  delta prefix of an inode are exactly the delta keys of that inode.
\<close>

theorem scan_prefix_isolation:
  "(prefix (dir_entry_prefix p) k \<longleftrightarrow> (\<exists>n. k = encode_dir_entry_key p n))
   \<and> (prefix (dir_entry_prefix p) (encode_dir_entry_key q m) \<longleftrightarrow> p = q)
   \<and> (prefix (delta_prefix i) k \<and> length k = 17 \<longleftrightarrow> (\<exists>a. k = encode_delta_key i a))
   \<and> (prefix (delta_prefix i) (encode_delta_key j b) \<longleftrightarrow> i = j)"
  using prefix_dir_entry_iff [of p k] prefix_delta_iff [of i k] by simp

end
