(* ===== verification/RocksDB.thy ===== *)
theory RocksDB
  imports Encoding
begin

text \<open>
  The interface of the RocksDB crate as \<^verbatim>\<open>src/storage/src/rocks.rs\<close> uses it. RocksDB is not part of
  the repository, so its operations are a parameter: a record \<open>R\<close> of functions on an abstract
  database state \<open>'db\<close> and an abstract open transaction \<open>'txn\<close>, each of which may fail with an
  error message. What the code relies on is the locale \<open>rocksdb\<close>: the contents of the column
  families (\<open>view\<close>), the uncommitted writes of a transaction (\<open>pend\<close>), ordered iteration,
  read-your-own-writes, and atomic commit. A list-based reference instance interprets the locale,
  with a script of commit faults so that conflicts and retries can be exhibited.
\<close>

section \<open>Column families, contents, pending writes\<close>

datatype cf = CF_INODES | CF_DIR_ENTRIES | CF_SYSTEM | CF_DELTA_ENTRIES

type_synonym view = "cf \<Rightarrow> bytes \<Rightarrow> bytes option"
type_synonym writes = "cf \<Rightarrow> bytes \<Rightarrow> bytes option option"

definition upd :: "cf \<Rightarrow> bytes \<Rightarrow> bytes option \<Rightarrow> view \<Rightarrow> view" where
  "upd c k x v = v(c := (v c)(k := x))"

definition no_writes :: writes where
  "no_writes = (\<lambda>_ _. None)"

definition add_write :: "cf \<Rightarrow> bytes \<Rightarrow> bytes option \<Rightarrow> writes \<Rightarrow> writes" where
  "add_write c k x w = w(c := (w c)(k := Some x))"

definition overlay :: "writes \<Rightarrow> view \<Rightarrow> view" where
  "overlay w v c k = (case w c k of None \<Rightarrow> v c k | Some x \<Rightarrow> x)"

fun apply_writes :: "(cf \<times> bytes \<times> bytes option) list \<Rightarrow> view \<Rightarrow> view" where
  "apply_writes [] v = v"
| "apply_writes ((c, k, x) # ws) v = apply_writes ws (upd c k x v)"

text \<open>The records of one column family under a key prefix, in key order.\<close>

definition scan :: "(bytes \<Rightarrow> bytes option) \<Rightarrow> bytes \<Rightarrow> (bytes \<times> bytes) list" where
  "scan m p = map (\<lambda>k. (k, the (m k))) (sorted_list_of_set {k \<in> dom m. prefix p k})"

text \<open>
  What an iterator may deliver when the records it has to show are \<open>es\<close>: all of them, then
  nothing, an error, or a record outside the prefix; or only the first \<open>n\<close> and then an error.
\<close>

definition iter_ok ::
  "bytes \<Rightarrow> (bytes \<times> bytes) list \<Rightarrow> (string + bytes \<times> bytes) list \<Rightarrow> bool" where
  "iter_ok p es items \<longleftrightarrow>
     (\<exists>n rest. items = map Inr (take n es) @ rest \<and>
        ((\<exists>e r. rest = Inl e # r) \<or>
         length es \<le> n \<and> (rest = [] \<or> (\<exists>k v r. rest = Inr (k, v) # r \<and> \<not> prefix p k))))"

section \<open>The operations\<close>

record ('db, 'txn) rocks =
  rk_cf_handle :: "cf \<Rightarrow> 'db \<Rightarrow> bool"
  rk_get :: "cf \<Rightarrow> bytes \<Rightarrow> 'db \<Rightarrow> (string + bytes option) \<times> 'db"
  rk_put :: "cf \<Rightarrow> bytes \<Rightarrow> bytes \<Rightarrow> 'db \<Rightarrow> (string + unit) \<times> 'db"
  rk_delete :: "cf \<Rightarrow> bytes \<Rightarrow> 'db \<Rightarrow> (string + unit) \<times> 'db"
  rk_prefix_iter :: "cf \<Rightarrow> bytes \<Rightarrow> 'db \<Rightarrow> (string + bytes \<times> bytes) list \<times> 'db"
  rk_iter_end :: "cf \<Rightarrow> 'db \<Rightarrow> (string + bytes \<times> bytes) list \<times> 'db"
  rk_write :: "(cf \<times> bytes \<times> bytes option) list \<Rightarrow> 'db \<Rightarrow> (string + unit) \<times> 'db"
  rk_begin :: "'db \<Rightarrow> 'txn \<times> 'db"
  rk_txn_put :: "cf \<Rightarrow> bytes \<Rightarrow> bytes \<Rightarrow> 'txn \<Rightarrow> 'db \<Rightarrow> (string + unit) \<times> 'txn \<times> 'db"
  rk_txn_delete :: "cf \<Rightarrow> bytes \<Rightarrow> 'txn \<Rightarrow> 'db \<Rightarrow> (string + unit) \<times> 'txn \<times> 'db"
  rk_txn_get_for_update :: "cf \<Rightarrow> bytes \<Rightarrow> 'txn \<Rightarrow> 'db \<Rightarrow> (string + bytes option) \<times> 'txn \<times> 'db"
  rk_txn_prefix_iter ::
    "cf \<Rightarrow> bytes \<Rightarrow> 'txn \<Rightarrow> 'db \<Rightarrow> (string + bytes \<times> bytes) list \<times> 'txn \<times> 'db"
  rk_commit :: "'txn \<Rightarrow> 'db \<Rightarrow> (string + unit) \<times> 'db"

text \<open>
  Prefix iteration is ordered for any prefix in the column families without a prefix extractor,
  and for the extractor's nine bytes in \<open>dir_entries\<close> and \<open>delta_entries\<close>.
\<close>

definition prefix_usable :: "cf \<Rightarrow> bytes \<Rightarrow> bool" where
  "prefix_usable c p \<longleftrightarrow> c = CF_INODES \<or> c = CF_SYSTEM \<or> length p = 9"

locale rocksdb =
  fixes R :: "('db, 'txn) rocks"
    and view :: "'db \<Rightarrow> view"
    and pend :: "'txn \<Rightarrow> writes"
  assumes cf_handle: "rk_cf_handle R c d"
    and finite_view: "finite (dom (view d c))"
    and get_spec: "rk_get R c k d = (g, d') \<Longrightarrow>
      view d' = view d \<and> (\<forall>x. g = Inr x \<longrightarrow> x = view d c k)"
    and put_spec: "rk_put R c k v d = (r, d') \<Longrightarrow>
      view d' = (case r of Inl e \<Rightarrow> view d | Inr u \<Rightarrow> upd c k (Some v) (view d))"
    and delete_spec: "rk_delete R c k d = (r, d') \<Longrightarrow>
      view d' = (case r of Inl e \<Rightarrow> view d | Inr u \<Rightarrow> upd c k None (view d))"
    and prefix_iter_spec: "rk_prefix_iter R c p d = (items, d') \<Longrightarrow> prefix_usable c p \<Longrightarrow>
      view d' = view d \<and> iter_ok p (scan (view d c) p) items"
    and iter_end_spec: "rk_iter_end R c d = (items, d') \<Longrightarrow>
      view d' = view d \<and> iter_ok [] (rev (scan (view d c) [])) items"
    and write_spec: "rk_write R ws d = (r, d') \<Longrightarrow>
      view d' = (case r of Inl e \<Rightarrow> view d | Inr u \<Rightarrow> apply_writes ws (view d))"
    and begin_spec: "rk_begin R d = (t, d') \<Longrightarrow> view d' = view d \<and> pend t = no_writes"
    and txn_put_spec: "rk_txn_put R c k v t d = (r, t', d') \<Longrightarrow>
      view d' = view d \<and>
      pend t' = (case r of Inl e \<Rightarrow> pend t | Inr u \<Rightarrow> add_write c k (Some v) (pend t))"
    and txn_delete_spec: "rk_txn_delete R c k t d = (r, t', d') \<Longrightarrow>
      view d' = view d \<and>
      pend t' = (case r of Inl e \<Rightarrow> pend t | Inr u \<Rightarrow> add_write c k None (pend t))"
    and txn_get_spec: "rk_txn_get_for_update R c k t d = (g, t', d') \<Longrightarrow>
      view d' = view d \<and> pend t' = pend t \<and>
      (\<forall>x. g = Inr x \<longrightarrow> x = overlay (pend t) (view d) c k)"
    and txn_iter_spec: "rk_txn_prefix_iter R c p t d = (items, t', d') \<Longrightarrow> prefix_usable c p \<Longrightarrow>
      view d' = view d \<and> pend t' = pend t \<and>
      iter_ok p (scan (overlay (pend t) (view d) c) p) items"
    and commit_spec: "rk_commit R t d = (r, d') \<Longrightarrow>
      view d' = (case r of Inl e \<Rightarrow> view d | Inr u \<Rightarrow> overlay (pend t) (view d))"

section \<open>Facts on views and scans\<close>

lemma upd_apply [simp]: "upd c k x v c' k' = (if c' = c \<and> k' = k then x else v c' k')"
  by (simp add: upd_def)

lemma overlay_no_writes [simp]: "overlay no_writes v = v"
  by (simp add: overlay_def no_writes_def fun_eq_iff)

lemma overlay_add_write [simp]: "overlay (add_write c k x w) v = upd c k x (overlay w v)"
  by (simp add: overlay_def add_write_def upd_def fun_eq_iff)

lemma upd_other_cf [simp]: "c' \<noteq> c \<Longrightarrow> upd c k x v c' = v c'"
  by (simp add: upd_def)

lemma upd_same_cf [simp]: "upd c k x v c = (v c)(k := x)"
  by (simp add: upd_def)

lemma set_scan:
  assumes "finite (dom m)"
  shows "set (scan m p) = {(k, v). m k = Some v \<and> prefix p k}"
proof -
  have "finite {k \<in> dom m. prefix p k}" using assms by simp
  then have "set (scan m p) = (\<lambda>k. (k, the (m k))) ` {k \<in> dom m. prefix p k}"
    by (simp add: scan_def del: dom_def)
  then show ?thesis by force
qed

lemma scan_prefix: "finite (dom m) \<Longrightarrow> \<forall>(k, v) \<in> set (scan m p). prefix p k"
  by (auto simp: set_scan)

lemma scan_Nil_iff:
  assumes "finite (dom m)"
  shows "scan m p = [] \<longleftrightarrow> (\<forall>k. prefix p k \<longrightarrow> m k = None)"
proof -
  have "scan m p = [] \<longleftrightarrow> set (scan m p) = {}" by simp
  also have "\<dots> \<longleftrightarrow> (\<forall>k. prefix p k \<longrightarrow> m k = None)"
    unfolding set_scan [OF assms] by force
  finally show ?thesis .
qed

lemma map_fst_scan: "map fst (scan m p) = sorted_list_of_set {k \<in> dom m. prefix p k}"
  by (simp add: scan_def comp_def)

lemma sorted_scan: "sorted (map fst (scan m p))" and distinct_scan: "distinct (map fst (scan m p))"
  by (simp_all add: map_fst_scan)

text \<open>A scan depends only on the records under its prefix.\<close>

lemma scan_cong:
  assumes "\<And>k. prefix p k \<Longrightarrow> m k = m' k"
  shows "scan m p = scan m' p"
proof -
  have "{k \<in> dom m. prefix p k} = {k \<in> dom m'. prefix p k}"
    using assms by (auto simp: domIff)
  moreover have "the (m k) = the (m' k)" if "k \<in> set (sorted_list_of_set {k \<in> dom m'. prefix p k})" for k
    using that assms by (cases "finite {k \<in> dom m'. prefix p k}") auto
  ultimately show ?thesis by (simp add: scan_def)
qed

text \<open>
  The loop \<^verbatim>\<open>for item in iter { let (k, v) = item?; if !k.starts_with(prefix) { break; } push }\<close>.
\<close>

fun collect :: "bytes \<Rightarrow> (string + bytes \<times> bytes) list \<Rightarrow> (bytes \<times> bytes) list FsResult" where
  "collect p [] = Ok []"
| "collect p (Inl e # r) = Err (Io (''RocksDB iterator: '' @ e))"
| "collect p (Inr (k, v) # r) =
     (if \<not> prefix p k then Ok [] else map_res (Cons (k, v)) (collect p r))"

lemma collect_append:
  "(\<forall>(k, v) \<in> set es. prefix p k) \<Longrightarrow>
   collect p (map Inr es @ rest) = map_res ((@) es) (collect p rest)"
proof (induction es)
  case Nil
  show ?case by (cases "collect p rest") auto
next
  case (Cons e es)
  then show ?case by (cases e; cases "collect p rest") auto
qed

lemma collect_iter_ok:
  assumes "iter_ok p es items" and "\<forall>(k, v) \<in> set es. prefix p k"
  shows "collect p items = Ok es \<or> (\<exists>e. collect p items = Err (Io (''RocksDB iterator: '' @ e)))"
proof -
  obtain n rest where it: "items = map Inr (take n es) @ rest"
    and rest: "(\<exists>e r. rest = Inl e # r) \<or>
         length es \<le> n \<and> (rest = [] \<or> (\<exists>k v r. rest = Inr (k, v) # r \<and> \<not> prefix p k))"
    using assms(1) unfolding iter_ok_def by (elim exE conjE)
  have c: "collect p items = map_res ((@) (take n es)) (collect p rest)"
    unfolding it using assms(2) by (intro collect_append) (auto dest: in_set_takeD)
  from rest show ?thesis
    by (elim disjE exE conjE) (auto simp: c)
qed

section \<open>A reference instance\<close>

record mem_db =
  mem_kv :: "((cf \<times> bytes) \<times> bytes) list"
  mem_faults :: "string list"

type_synonym mem_txn = "((cf \<times> bytes) \<times> bytes option) list"

definition mem_set :: "cf \<Rightarrow> bytes \<Rightarrow> bytes option \<Rightarrow> mem_db \<Rightarrow> mem_db" where
  "mem_set c k x d = d\<lparr>mem_kv :=
     (case x of None \<Rightarrow> [] | Some v \<Rightarrow> [((c, k), v)]) @ filter (\<lambda>(ck, _). ck \<noteq> (c, k)) (mem_kv d)\<rparr>"

definition mem_view :: "mem_db \<Rightarrow> view" where
  "mem_view d c k = map_of (mem_kv d) (c, k)"

definition mem_pend :: "mem_txn \<Rightarrow> writes" where
  "mem_pend t c k = map_of t (c, k)"

definition mem_look :: "mem_txn \<Rightarrow> mem_db \<Rightarrow> view" where
  "mem_look t d c k =
     (case map_of t (c, k) of None \<Rightarrow> map_of (mem_kv d) (c, k) | Some x \<Rightarrow> x)"

definition mem_scan :: "mem_txn \<Rightarrow> mem_db \<Rightarrow> cf \<Rightarrow> bytes \<Rightarrow> (bytes \<times> bytes) list" where
  "mem_scan t d c p =
     map (\<lambda>k. (k, the (mem_look t d c k)))
       (sort (remdups (filter (\<lambda>k. mem_look t d c k \<noteq> None \<and> prefix p k)
          (map (snd \<circ> fst) t @ map (snd \<circ> fst) (mem_kv d)))))"

text \<open>The oldest write is applied first.\<close>

definition mem_apply :: "mem_txn \<Rightarrow> mem_db \<Rightarrow> mem_db" where
  "mem_apply t d = foldr (\<lambda>((c, k), x). mem_set c k x) t d"

definition mem_rocks :: "(mem_db, mem_txn) rocks" where
  "mem_rocks =
     \<lparr> rk_cf_handle = (\<lambda>c d. True),
       rk_get = (\<lambda>c k d. (Inr (mem_view d c k), d)),
       rk_put = (\<lambda>c k v d. (Inr (), mem_set c k (Some v) d)),
       rk_delete = (\<lambda>c k d. (Inr (), mem_set c k None d)),
       rk_prefix_iter = (\<lambda>c p d. (map Inr (mem_scan [] d c p), d)),
       rk_iter_end = (\<lambda>c d. (map Inr (rev (mem_scan [] d c [])), d)),
       rk_write = (\<lambda>ws d. (Inr (), mem_apply (rev (map (\<lambda>(c, k, x). ((c, k), x)) ws)) d)),
       rk_begin = (\<lambda>d. ([], d)),
       rk_txn_put = (\<lambda>c k v t d. (Inr (), ((c, k), Some v) # t, d)),
       rk_txn_delete = (\<lambda>c k t d. (Inr (), ((c, k), None) # t, d)),
       rk_txn_get_for_update = (\<lambda>c k t d. (Inr (mem_look t d c k), t, d)),
       rk_txn_prefix_iter = (\<lambda>c p t d. (map Inr (mem_scan t d c p), t, d)),
       rk_commit = (\<lambda>t d. case mem_faults d of
                            [] \<Rightarrow> (Inr (), mem_apply t d)
                          | e # es \<Rightarrow> (Inl e, d\<lparr>mem_faults := es\<rparr>)) \<rparr>"

lemma map_of_filter_key:
  "map_of (filter (\<lambda>(k, _). k \<noteq> a) xs) b = (if b = a then None else map_of xs b)"
  by (induction xs) auto

lemma mem_view_set [simp]: "mem_view (mem_set c k x d) = upd c k x (mem_view d)"
  by (auto simp: mem_view_def mem_set_def map_of_filter_key fun_eq_iff split: option.split)

lemma mem_look_overlay: "mem_look t d = overlay (mem_pend t) (mem_view d)"
  by (simp add: mem_look_def overlay_def mem_pend_def mem_view_def fun_eq_iff split: option.split)

lemma mem_pend_simps [simp]:
  "mem_pend [] = no_writes"
  "mem_pend (((c, k), x) # t) = add_write c k x (mem_pend t)"
  by (auto simp: mem_pend_def no_writes_def add_write_def fun_eq_iff)

lemma mem_view_apply [simp]: "mem_view (mem_apply t d) = overlay (mem_pend t) (mem_view d)"
  by (induction t) (auto simp: mem_apply_def)

lemma finite_mem_view: "finite (dom (mem_view d c))"
proof -
  have "dom (mem_view d c) \<subseteq> (snd \<circ> fst) ` set (mem_kv d)"
    by (force simp: mem_view_def dest: map_of_SomeD)
  then show ?thesis by (rule finite_subset) simp
qed

lemma mem_scan_eq: "mem_scan t d c p = scan (overlay (mem_pend t) (mem_view d) c) p"
proof -
  define X where "X = map (snd \<circ> fst) t @ map (snd \<circ> fst) (mem_kv d)"
  define f where "f = mem_look t d c"
  have "k \<in> set X" if "f k \<noteq> None" for k
    using that unfolding X_def f_def
    by (force simp: mem_look_def split: option.splits dest: map_of_SomeD)
  then have "set (filter (\<lambda>k. f k \<noteq> None \<and> prefix p k) X) = {k \<in> dom f. prefix p k}"
    by (auto simp only: set_filter dom_def mem_Collect_eq)
  then have "sort (remdups (filter (\<lambda>k. f k \<noteq> None \<and> prefix p k) X))
      = sorted_list_of_set {k \<in> dom f. prefix p k}"
    by (simp only: sorted_list_of_set_sort_remdups [symmetric])
  then have "mem_scan t d c p = scan f p"
    by (simp only: mem_scan_def scan_def f_def X_def)
  then show ?thesis by (simp only: f_def mem_look_overlay)
qed

lemma mem_scan_eq': "mem_scan [] d c p = scan (mem_view d c) p"
  by (simp add: mem_scan_eq)

lemma mem_pend_rev:
  "overlay (mem_pend (rev (map (\<lambda>(c, k, x). ((c, k), x)) ws) @ t)) v
   = apply_writes ws (overlay (mem_pend t) v)"
  by (induction ws arbitrary: t) auto

lemma iter_ok_all: "iter_ok p es (map Inr es)"
  unfolding iter_ok_def by (rule exI [of _ "length es"]) simp

interpretation mem: rocksdb mem_rocks mem_view mem_pend
proof unfold_locales
  show "finite (dom (mem_view d c))" for d c by (rule finite_mem_view)
  show "mem_view d' = (case r of Inl e \<Rightarrow> mem_view d | Inr u \<Rightarrow> apply_writes ws (mem_view d))"
    if "rk_write mem_rocks ws d = (r, d')" for ws d r d'
    using that mem_pend_rev [of ws "[]" "mem_view d"] by (auto simp: mem_rocks_def)
  show "mem_view d' = mem_view d \<and> iter_ok p (scan (mem_view d c) p) items"
    if "rk_prefix_iter mem_rocks c p d = (items, d')" for c p d items d'
    using that by (auto simp: mem_rocks_def mem_scan_eq' iter_ok_all)
  show "mem_view d' = mem_view d \<and> iter_ok [] (rev (scan (mem_view d c) [])) items"
    if "rk_iter_end mem_rocks c d = (items, d')" for c d items d'
    using that iter_ok_all [of "[]" "rev (scan (mem_view d c) [])"]
    by (auto simp: mem_rocks_def mem_scan_eq')
  show "mem_view d' = mem_view d \<and> mem_pend t' = mem_pend t \<and>
      iter_ok p (scan (overlay (mem_pend t) (mem_view d) c) p) items"
    if "rk_txn_prefix_iter mem_rocks c p t d = (items, t', d')" for c p t d items t' d'
    using that by (auto simp: mem_rocks_def mem_scan_eq iter_ok_all)
  show "mem_view d' = (case r of Inl e \<Rightarrow> mem_view d | Inr u \<Rightarrow> overlay (mem_pend t) (mem_view d))"
    if "rk_commit mem_rocks t d = (r, d')" for t d r d'
    using that by (auto simp: mem_rocks_def mem_view_def fun_eq_iff simp flip: mem_view_apply
        split: list.splits)
qed (auto simp: mem_rocks_def mem_look_overlay)

end
