(* ===== verification/Rocks_Stores.thy ===== *)
theory Rocks_Stores
  imports RocksDB
begin

text \<open>
  \<^verbatim>\<open>src/storage/src/rocks.rs\<close> over the traits of \<^verbatim>\<open>src/storage/src/lib.rs\<close>: the metadata store, the
  directory index, the delta store with its per-inode sequence counters, and the atomic write
  batch (a pessimistic RocksDB transaction). All stores share one database, so the state \<open>kv\<close>
  holds the database, the transaction opened last by \<^verbatim>\<open>begin_write\<close> (the local variable \<^verbatim>\<open>batch\<close>
  of the callers, of which at most one is live at a time) and the in-memory sequence counters.
  Every operation is a function of the RocksDB parameter \<open>R\<close>; \<^verbatim>\<open>+\<close> on counters wraps as in a
  release build. Messages of panics are shortened to their ASCII part.
\<close>

record ('db, 'txn) kv =
  kv_db :: 'db
  kv_txn :: 'txn
  kv_seqs :: "inode \<Rightarrow> u64 option"

text \<open>Updates of the fields in a canonical order.\<close>

lemma kv_update_order [simp]:
  "s\<lparr>kv_txn := t, kv_db := d\<rparr> = s\<lparr>kv_db := d, kv_txn := t\<rparr>"
  "s\<lparr>kv_seqs := q, kv_db := d\<rparr> = s\<lparr>kv_db := d, kv_seqs := q\<rparr>"
  "s\<lparr>kv_seqs := q, kv_txn := t\<rparr> = s\<lparr>kv_txn := t, kv_seqs := q\<rparr>"
  by simp_all

section \<open>Calling RocksDB\<close>

text \<open>\<^verbatim>\<open>self.db.f(..).map_err(err)?\<close> and its counterpart for the open transaction.\<close>

definition call_db ::
  "(string \<Rightarrow> FsError) \<Rightarrow> ('db \<Rightarrow> (string + 'a) \<times> 'db) \<Rightarrow> (('db, 'txn, 'z) kv_scheme, 'a) fs_op" where
  "call_db err f s =
     (case f (kv_db s) of
        (Inl e, d) \<Rightarrow> (Err (err e), s\<lparr>kv_db := d\<rparr>)
      | (Inr a, d) \<Rightarrow> (Ok a, s\<lparr>kv_db := d\<rparr>))"

definition call_txn ::
  "(string \<Rightarrow> FsError) \<Rightarrow> ('txn \<Rightarrow> 'db \<Rightarrow> (string + 'a) \<times> 'txn \<times> 'db)
   \<Rightarrow> (('db, 'txn, 'z) kv_scheme, 'a) fs_op" where
  "call_txn err f s =
     (case f (kv_txn s) (kv_db s) of
        (Inl e, t, d) \<Rightarrow> (Err (err e), s\<lparr>kv_db := d, kv_txn := t\<rparr>)
      | (Inr a, t, d) \<Rightarrow> (Ok a, s\<lparr>kv_db := d, kv_txn := t\<rparr>))"

text \<open>The iterators are total: errors are items.\<close>

definition iter_db ::
  "('db \<Rightarrow> 'a \<times> 'db) \<Rightarrow> (('db, 'txn, 'z) kv_scheme, 'a) fs_op" where
  "iter_db f s = (case f (kv_db s) of (a, d) \<Rightarrow> (Ok a, s\<lparr>kv_db := d\<rparr>))"

fun cf_name :: "cf \<Rightarrow> string" where
  "cf_name CF_INODES = ''inodes''"
| "cf_name CF_DIR_ENTRIES = ''dir_entries''"
| "cf_name CF_SYSTEM = ''system''"
| "cf_name CF_DELTA_ENTRIES = ''delta_entries''"

text \<open>\<^verbatim>\<open>self.db.cf_handle(c).ok_or_else(..)?\<close>, and the variant with \<^verbatim>\<open>expect\<close>.\<close>

definition need_cf :: "('db, 'txn) rocks \<Rightarrow> cf \<Rightarrow> (('db, 'txn, 'z) kv_scheme, unit) fs_op" where
  "need_cf R c s =
     (if rk_cf_handle R c (kv_db s) then (Ok (), s)
      else (Err (Io (''CF '' @ [CHR 0x27] @ cf_name c @ [CHR 0x27] @ '' not found'')), s))"

definition expect_cf :: "('db, 'txn) rocks \<Rightarrow> cf \<Rightarrow> (('db, 'txn, 'z) kv_scheme, unit) fs_op" where
  "expect_cf R c s =
     (if rk_cf_handle R c (kv_db s) then (Ok (), s)
      else (Panic (''CF '' @ [CHR 0x27] @ cf_name c @ [CHR 0x27] @ '' must exist''), s))"

section \<open>RocksMetadataStore\<close>

definition meta_get ::
  "('db, 'txn) rocks \<Rightarrow> bytes \<Rightarrow> (('db, 'txn, 'z) kv_scheme, bytes option) fs_op" where
  "meta_get R key =
     bind (need_cf R CF_INODES) (\<lambda>_.
     call_db (\<lambda>e. Io (''RocksDB get: '' @ e)) (rk_get R CF_INODES key))"

definition meta_put ::
  "('db, 'txn) rocks \<Rightarrow> bytes \<Rightarrow> bytes \<Rightarrow> (('db, 'txn, 'z) kv_scheme, unit) fs_op" where
  "meta_put R key value =
     bind (need_cf R CF_INODES) (\<lambda>_.
     call_db (\<lambda>e. Io (''RocksDB put: '' @ e)) (rk_put R CF_INODES key value))"

definition meta_delete ::
  "('db, 'txn) rocks \<Rightarrow> bytes \<Rightarrow> (('db, 'txn, 'z) kv_scheme, unit) fs_op" where
  "meta_delete R key =
     bind (need_cf R CF_INODES) (\<lambda>_.
     call_db (\<lambda>e. Io (''RocksDB delete: '' @ e)) (rk_delete R CF_INODES key))"

definition meta_scan_prefix ::
  "('db, 'txn) rocks \<Rightarrow> bytes \<Rightarrow> (('db, 'txn, 'z) kv_scheme, (bytes \<times> bytes) list) fs_op" where
  "meta_scan_prefix R pfx =
     bind (need_cf R CF_INODES) (\<lambda>_.
     bind (iter_db (rk_prefix_iter R CF_INODES pfx)) (\<lambda>iter.
     lift (collect pfx iter)))"

section \<open>RocksDirectoryIndex\<close>

definition DIR_VALUE_SIZE :: nat where
  "DIR_VALUE_SIZE = 12"

definition encode_dir_value :: "inode \<Rightarrow> u32 \<Rightarrow> bytes" where
  "encode_dir_value inode mode = to_be 8 inode @ to_be 4 mode"

definition decode_dir_value :: "bytes \<Rightarrow> (inode \<times> u32) FsResult" where
  "decode_dir_value data =
     (if length data < DIR_VALUE_SIZE then
        Err (InvalidInput (''dir entry value too short: '' @ show_nat (length data) @ '' bytes''))
      else Ok (from_be (bslice 0 8 data), from_be (bslice 8 12 data)))"

definition resolve_path ::
  "('db, 'txn) rocks \<Rightarrow> inode \<Rightarrow> str \<Rightarrow> (('db, 'txn, 'z) kv_scheme, inode option) fs_op" where
  "resolve_path R parent name =
     bind (need_cf R CF_DIR_ENTRIES) (\<lambda>_.
     bind (call_db (\<lambda>e. Io (''RocksDB get: '' @ e))
             (rk_get R CF_DIR_ENTRIES (encode_dir_entry_key parent name))) (\<lambda>v.
     case v of
       Some val \<Rightarrow> bind (lift (decode_dir_value val)) (\<lambda>(inode, _). ret (Some inode))
     | None \<Rightarrow> ret None))"

text \<open>The loop of \<^verbatim>\<open>list_dir\<close>: it stops at the first record outside the prefix.\<close>

fun list_dir_loop :: "bytes \<Rightarrow> (string + bytes \<times> bytes) list \<Rightarrow> DirEntry list FsResult" where
  "list_dir_loop p [] = Ok []"
| "list_dir_loop p (Inl e # r) = Err (Io (''RocksDB iterator: '' @ e))"
| "list_dir_loop p (Inr (k, v) # r) =
     (if \<not> prefix p k then Ok []
      else case extract_child_name k of
             Err e \<Rightarrow> Err e
           | Panic q \<Rightarrow> Panic q
           | Ok name \<Rightarrow>
               (case decode_dir_value v of
                  Err e \<Rightarrow> Err e
                | Panic q \<Rightarrow> Panic q
                | Ok (child, kind) \<Rightarrow>
                    map_res (Cons \<lparr>de_name = name, de_inode = child, de_kind = kind\<rparr>)
                      (list_dir_loop p r)))"

definition list_dir ::
  "('db, 'txn) rocks \<Rightarrow> inode \<Rightarrow> (('db, 'txn, 'z) kv_scheme, DirEntry list) fs_op" where
  "list_dir R inode =
     bind (need_cf R CF_DIR_ENTRIES) (\<lambda>_.
     bind (iter_db (rk_prefix_iter R CF_DIR_ENTRIES (dir_entry_prefix inode))) (\<lambda>iter.
     lift (list_dir_loop (dir_entry_prefix inode) iter)))"

definition insert_child ::
  "('db, 'txn) rocks \<Rightarrow> inode \<Rightarrow> str \<Rightarrow> inode \<Rightarrow> FileAttr
   \<Rightarrow> (('db, 'txn, 'z) kv_scheme, unit) fs_op" where
  "insert_child R parent name inode attr =
     bind (need_cf R CF_DIR_ENTRIES) (\<lambda>_.
     call_db (\<lambda>e. Io (''RocksDB put: '' @ e))
       (rk_put R CF_DIR_ENTRIES (encode_dir_entry_key parent name)
          (encode_dir_value inode (fa_mode attr))))"

definition remove_child ::
  "('db, 'txn) rocks \<Rightarrow> inode \<Rightarrow> str \<Rightarrow> (('db, 'txn, 'z) kv_scheme, unit) fs_op" where
  "remove_child R parent name =
     bind (need_cf R CF_DIR_ENTRIES) (\<lambda>_.
     call_db (\<lambda>e. Io (''RocksDB delete: '' @ e))
       (rk_delete R CF_DIR_ENTRIES (encode_dir_entry_key parent name)))"

definition shares_batch_storage :: bool where
  "shares_batch_storage = True"

section \<open>RocksDeltaStore\<close>

text \<open>\<^verbatim>\<open>next_seq_inner\<close>: \<^verbatim>\<open>fetch_add(1)\<close> on the inode's counter, created at 0 when absent.\<close>

definition next_seq :: "inode \<Rightarrow> (('db, 'txn, 'z) kv_scheme, u64) fs_op" where
  "next_seq inode s =
     (case kv_seqs s inode of
        Some c \<Rightarrow> (Ok c, s\<lparr>kv_seqs := (kv_seqs s)(inode \<mapsto> c + 1)\<rparr>)
      | None \<Rightarrow> (Ok 0, s\<lparr>kv_seqs := (kv_seqs s)(inode \<mapsto> 1)\<rparr>))"

fun append_loop ::
  "inode \<Rightarrow> bytes list \<Rightarrow> (('db, 'txn, 'z) kv_scheme, (cf \<times> bytes \<times> bytes option) list \<times> u64 list) fs_op" where
  "append_loop inode [] = ret ([], [])"
| "append_loop inode (v # vs) =
     bind (next_seq inode) (\<lambda>seq.
     bind (append_loop inode vs) (\<lambda>(batch, assigned).
     ret ((CF_DELTA_ENTRIES, encode_delta_key inode seq, Some v) # batch, seq # assigned)))"

definition append_deltas ::
  "('db, 'txn) rocks \<Rightarrow> inode \<Rightarrow> bytes list \<Rightarrow> (('db, 'txn, 'z) kv_scheme, u64 list) fs_op" where
  "append_deltas R inode values =
     bind (need_cf R CF_DELTA_ENTRIES) (\<lambda>_.
     bind (append_loop inode values) (\<lambda>(batch, assigned).
     bind (call_db (\<lambda>e. Io (''RocksDB write batch: '' @ e)) (rk_write R batch)) (\<lambda>_.
     ret assigned)))"

definition scan_deltas_with_keys ::
  "('db, 'txn) rocks \<Rightarrow> inode \<Rightarrow> (('db, 'txn, 'z) kv_scheme, (bytes \<times> bytes) list) fs_op" where
  "scan_deltas_with_keys R inode =
     bind (need_cf R CF_DELTA_ENTRIES) (\<lambda>_.
     bind (iter_db (rk_prefix_iter R CF_DELTA_ENTRIES (delta_prefix inode))) (\<lambda>iter.
     lift (collect (delta_prefix inode) iter)))"

definition scan_deltas ::
  "('db, 'txn) rocks \<Rightarrow> inode \<Rightarrow> (('db, 'txn, 'z) kv_scheme, bytes list) fs_op" where
  "scan_deltas R inode =
     bind (need_cf R CF_DELTA_ENTRIES) (\<lambda>_.
     bind (iter_db (rk_prefix_iter R CF_DELTA_ENTRIES (delta_prefix inode))) (\<lambda>iter.
     lift (map_res (map snd) (collect (delta_prefix inode) iter))))"

definition scan_delta_keys ::
  "('db, 'txn) rocks \<Rightarrow> inode \<Rightarrow> (('db, 'txn, 'z) kv_scheme, bytes list) fs_op" where
  "scan_delta_keys R inode =
     bind (need_cf R CF_DELTA_ENTRIES) (\<lambda>_.
     bind (iter_db (rk_prefix_iter R CF_DELTA_ENTRIES (delta_prefix inode))) (\<lambda>iter.
     lift (map_res (map fst) (collect (delta_prefix inode) iter))))"

definition clear_deltas ::
  "('db, 'txn) rocks \<Rightarrow> inode \<Rightarrow> (('db, 'txn, 'z) kv_scheme, unit) fs_op" where
  "clear_deltas R inode =
     bind (need_cf R CF_DELTA_ENTRIES) (\<lambda>_.
     bind (iter_db (rk_prefix_iter R CF_DELTA_ENTRIES (delta_prefix inode))) (\<lambda>iter.
     bind (lift (collect (delta_prefix inode) iter)) (\<lambda>kvs.
     bind (call_db (\<lambda>e. Io (''RocksDB write batch: '' @ e))
             (rk_write R (map (\<lambda>(k, _). (CF_DELTA_ENTRIES, k, None)) kvs))) (\<lambda>_.
     modify (\<lambda>s. if kv_seqs s inode = None then s
                 else s\<lparr>kv_seqs := (kv_seqs s)(inode \<mapsto> 0)\<rparr>)))))"

text \<open>The scan of \<^verbatim>\<open>recover_seqs\<close>: the largest sequence number per inode.\<close>

fun max_seqs_loop ::
  "(string + bytes \<times> bytes) list \<Rightarrow> (inode \<Rightarrow> u64 option) \<Rightarrow> (inode \<Rightarrow> u64 option) FsResult" where
  "max_seqs_loop [] m = Ok m"
| "max_seqs_loop (Inl e # r) m = Err (Io (''RocksDB iterator: '' @ e))"
| "max_seqs_loop (Inr (k, v) # r) m =
     (if length k < 17 then max_seqs_loop r m
      else case decode_delta_key k of
             Ok (inode, seq) \<Rightarrow>
               max_seqs_loop r
                 (case m inode of
                    Some q \<Rightarrow> m(inode \<mapsto> (if seq > q then seq else q))
                  | None \<Rightarrow> m(inode \<mapsto> seq))
           | _ \<Rightarrow> max_seqs_loop r m)"

definition recover_seqs ::
  "('db, 'txn) rocks \<Rightarrow> (('db, 'txn, 'z) kv_scheme, unit) fs_op" where
  "recover_seqs R =
     bind (need_cf R CF_DELTA_ENTRIES) (\<lambda>_.
     bind (iter_db (rk_iter_end R CF_DELTA_ENTRIES)) (\<lambda>iter.
     bind (lift (max_seqs_loop iter Map.empty)) (\<lambda>max_seqs.
     modify (\<lambda>s. s\<lparr>kv_seqs := (\<lambda>i. case max_seqs i of
                                     Some q \<Rightarrow> Some (q + 1)
                                   | None \<Rightarrow> kv_seqs s i)\<rparr>))))"

text \<open>\<^verbatim>\<open>RocksDeltaStore::new\<close>: counters start empty; a failed recovery is only reported.\<close>

definition delta_store_new ::
  "('db, 'txn) rocks \<Rightarrow> (('db, 'txn, 'z) kv_scheme, unit) fs_op" where
  "delta_store_new R =
     bind (modify (\<lambda>s. s\<lparr>kv_seqs := Map.empty\<rparr>)) (\<lambda>_. ignore (recover_seqs R))"

section \<open>RocksStorageBundle and RocksWriteBatch\<close>

datatype BatchOp =
    PutInode bytes bytes
  | DeleteInode bytes
  | PutDirEntry bytes bytes
  | DeleteDirEntry bytes
  | PutDelta bytes bytes
  | DeleteDelta bytes
  | PutSystem bytes bytes
  | PutDataLocation bytes bytes
  | DeleteDataLocation bytes
  | PutSymlink bytes bytes
  | DeleteSymlink bytes

definition map_txn_err :: "string \<Rightarrow> FsError" where
  "map_txn_err msg =
     (if contains msg ''Busy'' \<or> contains msg ''TimedOut'' \<or> contains msg ''deadlock''
      then TransactionConflict
      else Io (''RocksDB transaction: '' @ msg))"

definition begin_write :: "('db, 'txn) rocks \<Rightarrow> (('db, 'txn, 'z) kv_scheme, unit) fs_op" where
  "begin_write R s = (case rk_begin R (kv_db s) of (t, d) \<Rightarrow> (Ok (), s\<lparr>kv_db := d, kv_txn := t\<rparr>))"

text \<open>\<^verbatim>\<open>self.txn.put_cf(..).expect(..)\<close>: a failure of the transaction's buffer is a panic.\<close>

definition expect_txn ::
  "string \<Rightarrow> ('txn \<Rightarrow> 'db \<Rightarrow> (string + 'a) \<times> 'txn \<times> 'db) \<Rightarrow> (('db, 'txn, 'z) kv_scheme, 'a) fs_op" where
  "expect_txn msg f s =
     (case f (kv_txn s) (kv_db s) of
        (Inl e, t, d) \<Rightarrow> (Panic msg, s\<lparr>kv_db := d, kv_txn := t\<rparr>)
      | (Inr a, t, d) \<Rightarrow> (Ok a, s\<lparr>kv_db := d, kv_txn := t\<rparr>))"

definition txn_put_op ::
  "('db, 'txn) rocks \<Rightarrow> cf \<Rightarrow> string \<Rightarrow> bytes \<Rightarrow> bytes \<Rightarrow> (('db, 'txn, 'z) kv_scheme, unit) fs_op" where
  "txn_put_op R c what key value =
     bind (expect_cf R c) (\<lambda>_.
     expect_txn (''transaction put_cf('' @ what @ '') failed unexpectedly'')
       (rk_txn_put R c key value))"

definition txn_delete_op ::
  "('db, 'txn) rocks \<Rightarrow> cf \<Rightarrow> string \<Rightarrow> bytes \<Rightarrow> (('db, 'txn, 'z) kv_scheme, unit) fs_op" where
  "txn_delete_op R c what key =
     bind (expect_cf R c) (\<lambda>_.
     expect_txn (''transaction delete_cf('' @ what @ '') failed unexpectedly'')
       (rk_txn_delete R c key))"

fun push :: "('db, 'txn) rocks \<Rightarrow> BatchOp \<Rightarrow> (('db, 'txn, 'z) kv_scheme, unit) fs_op" where
  "push R (PutInode key value) = txn_put_op R CF_INODES ''inodes'' key value"
| "push R (DeleteInode key) = txn_delete_op R CF_INODES ''inodes'' key"
| "push R (PutDirEntry key value) = txn_put_op R CF_DIR_ENTRIES ''dir_entries'' key value"
| "push R (DeleteDirEntry key) = txn_delete_op R CF_DIR_ENTRIES ''dir_entries'' key"
| "push R (PutDelta key value) = txn_put_op R CF_DELTA_ENTRIES ''delta_entries'' key value"
| "push R (DeleteDelta key) = txn_delete_op R CF_DELTA_ENTRIES ''delta_entries'' key"
| "push R (PutSystem key value) = txn_put_op R CF_SYSTEM ''system'' key value"
| "push R (PutDataLocation key value) = txn_put_op R CF_INODES ''inodes/data_location'' key value"
| "push R (DeleteDataLocation key) = txn_delete_op R CF_INODES ''inodes/data_location'' key"
| "push R (PutSymlink key value) = txn_put_op R CF_INODES ''inodes/symlink'' key value"
| "push R (DeleteSymlink key) = txn_delete_op R CF_INODES ''inodes/symlink'' key"

definition commit :: "('db, 'txn) rocks \<Rightarrow> (('db, 'txn, 'z) kv_scheme, unit) fs_op" where
  "commit R s = call_db map_txn_err (rk_commit R (kv_txn s)) s"

definition get_for_update_inode ::
  "('db, 'txn) rocks \<Rightarrow> bytes \<Rightarrow> (('db, 'txn, 'z) kv_scheme, bytes option) fs_op" where
  "get_for_update_inode R key =
     bind (need_cf R CF_INODES) (\<lambda>_.
     call_txn map_txn_err (rk_txn_get_for_update R CF_INODES key))"

definition get_for_update_dir_entry ::
  "('db, 'txn) rocks \<Rightarrow> bytes \<Rightarrow> (('db, 'txn, 'z) kv_scheme, bytes option) fs_op" where
  "get_for_update_dir_entry R key =
     bind (need_cf R CF_DIR_ENTRIES) (\<lambda>_.
     call_txn map_txn_err (rk_txn_get_for_update R CF_DIR_ENTRIES key))"

text \<open>\<^verbatim>\<open>is_dir_empty\<close> looks at the first item only.\<close>

definition first_item_empty :: "bytes \<Rightarrow> (string + bytes \<times> bytes) list \<Rightarrow> bool FsResult" where
  "first_item_empty p items =
     (case items of
        [] \<Rightarrow> Ok True
      | Inl e # _ \<Rightarrow> Err (Io (''RocksDB txn iterator: '' @ e))
      | Inr (k, _) # _ \<Rightarrow> Ok (\<not> prefix p k))"

definition is_dir_empty ::
  "('db, 'txn) rocks \<Rightarrow> inode \<Rightarrow> (('db, 'txn, 'z) kv_scheme, bool) fs_op" where
  "is_dir_empty R parent =
     bind (need_cf R CF_DIR_ENTRIES) (\<lambda>_. \<lambda>s.
     case rk_txn_prefix_iter R CF_DIR_ENTRIES (dir_entry_prefix parent) (kv_txn s) (kv_db s) of
       (items, t, d) \<Rightarrow>
         (first_item_empty (dir_entry_prefix parent) items, s\<lparr>kv_db := d, kv_txn := t\<rparr>))"

section \<open>Directory entry values\<close>

lemma decode_encode_dir_value [simp]: "decode_dir_value (encode_dir_value i m) = Ok (i, m)"
  by (simp add: decode_dir_value_def encode_dir_value_def DIR_VALUE_SIZE_def slice_simps
      from_be_to_be)

lemma length_encode_dir_value [simp]: "length (encode_dir_value i m) = 12"
  by (simp add: encode_dir_value_def)

lemma decoders_no_panic [simp]:
  "decode_dir_value b \<noteq> Panic q" "extract_child_name k \<noteq> Panic q"
  "deserialize b \<noteq> Panic q" "decode_delta_key k \<noteq> Panic q" "collect p items \<noteq> Panic q"
proof -
  show "collect p items \<noteq> Panic q"
  proof (induction p items rule: collect.induct)
    case (3 p k v r)
    then show ?case by (cases "collect p r") auto
  qed auto
qed (auto simp: decode_dir_value_def extract_child_name_def deserialize_def decode_delta_key_def
      split: option.splits)

section \<open>The loop of \<open>list_dir\<close>\<close>

lemma list_dir_loop_no_panic [simp]: "list_dir_loop p items \<noteq> Panic q"
proof (induction items)
  case (Cons x r)
  then show ?case
    by (cases x; cases "list_dir_loop p r") (auto split: outcome.splits prod.splits if_splits)
qed simp

lemma list_dir_loop_prefix:
  assumes "\<forall>(k, v) \<in> set es. prefix p k"
    and "rest = [] \<or> (\<exists>k v r. rest = Inr (k, v) # r \<and> \<not> prefix p k)"
  shows "list_dir_loop p (map Inr es @ rest) = list_dir_loop p (map Inr es)"
  using assms by (induction es) (auto split: outcome.splits)

lemma list_dir_loop_error:
  assumes "\<forall>(k, v) \<in> set es. prefix p k"
  shows "\<exists>e. list_dir_loop p (map Inr es @ Inl m # r) = Err e"
  using assms
proof (induction es)
  case (Cons x es)
  then obtain e where "list_dir_loop p (map Inr es @ Inl m # r) = Err e" by auto
  with Cons.prems show ?case
    by (cases x) (auto split: outcome.splits)
qed simp

lemma list_dir_loop_iter:
  assumes "iter_ok p es items" and "\<forall>(k, v) \<in> set es. prefix p k"
  shows "list_dir_loop p items = list_dir_loop p (map Inr es) \<or> (\<exists>e. list_dir_loop p items = Err e)"
proof -
  obtain n rest where it: "items = map Inr (take n es) @ rest"
    and rest: "(\<exists>e r. rest = Inl e # r) \<or>
         length es \<le> n \<and> (rest = [] \<or> (\<exists>k v r. rest = Inr (k, v) # r \<and> \<not> prefix p k))"
    using assms(1) unfolding iter_ok_def by (elim exE conjE)
  have pre: "\<forall>(k, v) \<in> set (take n es). prefix p k"
    using assms(2) by (auto dest: in_set_takeD)
  from rest show ?thesis
    using list_dir_loop_error [OF pre] list_dir_loop_prefix [OF pre] by (auto simp: it)
qed

text \<open>What a successful run read: record by record, the name from the key and the child from the value.\<close>

lemma list_dir_loop_Ok:
  assumes "list_dir_loop p (map Inr xs) = Ok es" and "\<forall>(k, v) \<in> set xs. prefix p k"
  shows "list_all2 (\<lambda>(k, v) e. extract_child_name k = Ok (de_name e) \<and>
           decode_dir_value v = Ok (de_inode e, de_kind e)) xs es"
  using assms
proof (induction xs arbitrary: es)
  case (Cons x xs)
  obtain k v where x: "x = (k, v)" by (cases x)
  from Cons.prems x obtain n c m where n: "extract_child_name k = Ok n"
    and cm: "decode_dir_value v = Ok (c, m)"
    by (auto split: outcome.splits)
  with Cons.prems x obtain es' where es': "list_dir_loop p (map Inr xs) = Ok es'"
    and es: "es = \<lparr>de_name = n, de_inode = c, de_kind = m\<rparr> # es'"
    by (cases "list_dir_loop p (map Inr xs)") auto
  from Cons.IH [OF es'] Cons.prems(2) show ?case
    by (simp add: es x n cm)
qed simp

section \<open>Directory contents\<close>

text \<open>The entry of \<open>parent\<close> under \<open>name\<close> in the stored contents.\<close>

definition dirent :: "view \<Rightarrow> inode \<Rightarrow> str \<Rightarrow> (inode \<times> u32) option" where
  "dirent V parent name =
     (case V CF_DIR_ENTRIES (encode_dir_entry_key parent name) of
        None \<Rightarrow> None
      | Some b \<Rightarrow> ok_value (decode_dir_value b))"

lemma extract_child_name_Ok:
  "extract_child_name k = Ok n \<Longrightarrow> prefix (dir_entry_prefix p) k \<Longrightarrow> k = encode_dir_entry_key p n"
  by (auto simp: prefix_dir_entry_iff extract_child_name_def encode_dir_entry_key_def
      split: if_splits option.splits)

lemma dir_key_le: "encode_dir_entry_key p n \<le> encode_dir_entry_key p m \<longleftrightarrow> n \<le> m"
  by (simp add: encode_dir_entry_key_def) (metis append_less_append linorder_not_le)

lemma list_dir_loop_scan:
  assumes fin: "finite (dom (V CF_DIR_ENTRIES))"
    and ok: "list_dir_loop (dir_entry_prefix p) (map Inr (scan (V CF_DIR_ENTRIES) (dir_entry_prefix p))) = Ok es"
  shows "sorted (map de_name es) \<and> distinct (map de_name es) \<and>
    (\<forall>n i m. \<lparr>de_name = n, de_inode = i, de_kind = m\<rparr> \<in> set es \<longleftrightarrow> dirent V p n = Some (i, m))"
proof -
  let ?xs = "scan (V CF_DIR_ENTRIES) (dir_entry_prefix p)"
  have pre: "\<forall>(k, v) \<in> set ?xs. prefix (dir_entry_prefix p) k"
    by (rule scan_prefix [OF fin])
  have rel: "list_all2 (\<lambda>(k, v) e. k = encode_dir_entry_key p (de_name e) \<and>
      decode_dir_value v = Ok (de_inode e, de_kind e)) ?xs es"
    by (rule list.rel_mono_strong [OF list_dir_loop_Ok [OF ok pre]])
      (use pre in \<open>auto dest: extract_child_name_Ok\<close>)
  then have keys: "map fst ?xs = map (encode_dir_entry_key p) (map de_name es)"
    by (induction rule: list.rel_induct) auto
  have "sorted (map (encode_dir_entry_key p) (map de_name es))"
    and "distinct (map (encode_dir_entry_key p) (map de_name es))"
    using sorted_scan distinct_scan unfolding keys [symmetric] by auto
  then have "sorted (map de_name es)" and "distinct (map de_name es)"
    by (auto simp: sorted_map sorted_wrt_map dir_key_le simp del: map_map dest: distinct_map [THEN iffD1])
  moreover have "\<lparr>de_name = n, de_inode = i, de_kind = m\<rparr> \<in> set es \<longleftrightarrow> dirent V p n = Some (i, m)" for n i m
  proof
    assume "\<lparr>de_name = n, de_inode = i, de_kind = m\<rparr> \<in> set es"
    with rel obtain v where "(encode_dir_entry_key p n, v) \<in> set ?xs" and "decode_dir_value v = Ok (i, m)"
      by (fastforce simp: list_all2_conv_all_nth in_set_conv_nth)
    then show "dirent V p n = Some (i, m)"
      by (simp add: set_scan [OF fin] dirent_def)
  next
    assume d: "dirent V p n = Some (i, m)"
    then obtain v where "V CF_DIR_ENTRIES (encode_dir_entry_key p n) = Some v"
      and v: "decode_dir_value v = Ok (i, m)"
      by (auto simp: dirent_def split: option.splits elim: ok_value.elims)
    then have "(encode_dir_entry_key p n, v) \<in> set ?xs"
      by (simp add: set_scan [OF fin])
    with rel v show "\<lparr>de_name = n, de_inode = i, de_kind = m\<rparr> \<in> set es"
      by (fastforce simp: list_all2_conv_all_nth in_set_conv_nth)
  qed
  ultimately show ?thesis by blast
qed

section \<open>Batches\<close>

text \<open>The write a batch operation buffers.\<close>

fun batch_write :: "BatchOp \<Rightarrow> cf \<times> bytes \<times> bytes option" where
  "batch_write (PutInode k v) = (CF_INODES, k, Some v)"
| "batch_write (DeleteInode k) = (CF_INODES, k, None)"
| "batch_write (PutDirEntry k v) = (CF_DIR_ENTRIES, k, Some v)"
| "batch_write (DeleteDirEntry k) = (CF_DIR_ENTRIES, k, None)"
| "batch_write (PutDelta k v) = (CF_DELTA_ENTRIES, k, Some v)"
| "batch_write (DeleteDelta k) = (CF_DELTA_ENTRIES, k, None)"
| "batch_write (PutSystem k v) = (CF_SYSTEM, k, Some v)"
| "batch_write (PutDataLocation k v) = (CF_INODES, k, Some v)"
| "batch_write (DeleteDataLocation k) = (CF_INODES, k, None)"
| "batch_write (PutSymlink k v) = (CF_INODES, k, Some v)"
| "batch_write (DeleteSymlink k) = (CF_INODES, k, None)"

lemma push_cases:
  "\<exists>c k x w. batch_write b = (c, k, x) \<and>
     push R b s = (case x of Some v \<Rightarrow> txn_put_op R c w k v | None \<Rightarrow> txn_delete_op R c w k) s"
  by (cases b) (force simp: push.simps)+

declare push.simps [simp del]

definition add_writes :: "(cf \<times> bytes \<times> bytes option) list \<Rightarrow> writes \<Rightarrow> writes" where
  "add_writes ws w = foldl (\<lambda>w (c, k, x). add_write c k x w) w ws"

lemma add_writes_simps [simp]:
  "add_writes [] w = w"
  "add_writes ((c, k, x) # ws) w = add_writes ws (add_write c k x w)"
  "add_writes (ws @ ws') w = add_writes ws' (add_writes ws w)"
  by (simp_all add: add_writes_def)

lemma overlay_add_writes [simp]: "overlay (add_writes ws w) v = apply_writes ws (overlay w v)"
  by (induction ws arbitrary: w) auto

text \<open>The errors a transaction reports.\<close>

definition txn_error :: "FsError \<Rightarrow> bool" where
  "txn_error e \<longleftrightarrow> e = TransactionConflict \<or> (\<exists>m. e = Io m)"

lemma txn_error_map_txn_err [simp]: "txn_error (map_txn_err m)"
  by (simp add: map_txn_err_def txn_error_def)

lemma txn_error_Io [simp]: "txn_error (Io m)"
  by (simp add: txn_error_def)

lemma first_item_empty_iter:
  assumes it: "iter_ok p es items" and pre: "\<forall>(k, v) \<in> set es. prefix p k"
  shows "first_item_empty p items = Ok (es = []) \<or> (\<exists>e. first_item_empty p items = Err (Io e))"
proof -
  obtain n rest where items: "items = map Inr (take n es) @ rest"
    and rest: "(\<exists>e r. rest = Inl e # r) \<or>
         length es \<le> n \<and> (rest = [] \<or> (\<exists>k v r. rest = Inr (k, v) # r \<and> \<not> prefix p k))"
    using it unfolding iter_ok_def by (elim exE conjE)
  show ?thesis
  proof (cases "take n es")
    case Nil
    with rest items show ?thesis
      by (auto simp: first_item_empty_def)
  next
    case (Cons x xs)
    then have "x \<in> set es" by (metis in_set_takeD list.set_intros(1))
    with Cons pre items show ?thesis
      by (cases x) (auto simp: first_item_empty_def)
  qed
qed

section \<open>Sequence numbers\<close>

text \<open>The next sequence number of an inode.\<close>

definition seq_at :: "(inode \<Rightarrow> u64 option) \<Rightarrow> inode \<Rightarrow> u64" where
  "seq_at seqs i = (case seqs i of None \<Rightarrow> 0 | Some q \<Rightarrow> q)"

abbreviation seq_of :: "('db, 'txn, 'z) kv_scheme \<Rightarrow> inode \<Rightarrow> u64" where
  "seq_of s \<equiv> seq_at (kv_seqs s)"

lemma seq_at_upd [simp]: "seq_at (m(i \<mapsto> q)) = (seq_at m)(i := q)"
  by (auto simp: seq_at_def)

lemma wp_next_seq [wp_simps]:
  "wp (next_seq i) Q s = Q (Ok (seq_of s i)) (s\<lparr>kv_seqs := (kv_seqs s)(i \<mapsto> seq_of s i + 1)\<rparr>)"
  by (auto simp: wp_def next_seq_def seq_at_def split: option.split)

lemma delta_key_less: "encode_delta_key i a < encode_delta_key i b \<longleftrightarrow> a < b"
  by (simp add: encode_delta_key_def append_less_same_length to_be_less)

text \<open>
  The pending deltas of an inode, oldest first, and the invariant of the delta column family: every
  key is well formed and its sequence number is below the inode's counter.
\<close>

definition pending :: "view \<Rightarrow> inode \<Rightarrow> bytes list" where
  "pending V i = map snd (scan (V CF_DELTA_ENTRIES) (delta_prefix i))"

definition delta_inv :: "view \<Rightarrow> (inode \<Rightarrow> u64) \<Rightarrow> bool" where
  "delta_inv V sq \<longleftrightarrow>
     (\<forall>k b. V CF_DELTA_ENTRIES k = Some b \<longrightarrow> (\<exists>i q. k = encode_delta_key i q \<and> q < sq i))"

text \<open>A record under a new largest key is the last one of the scan.\<close>

lemma sorted_list_of_set_insert_max:
  assumes "finite A" and "\<And>x. x \<in> A \<Longrightarrow> x < a"
  shows "sorted_list_of_set (insert a A) = sorted_list_of_set A @ [a]"
proof (rule sorted_distinct_set_unique)
  show "sorted (sorted_list_of_set A @ [a])"
    using assms by (auto simp: sorted_append intro: less_imp_le)
  show "distinct (sorted_list_of_set A @ [a])" using assms by auto
qed (use assms in \<open>auto simp del: sorted_list_of_set_insert_remove\<close>)

lemma scan_put_max:
  assumes fin: "finite (dom m)" and "prefix p k"
    and max: "\<And>k' b. m k' = Some b \<Longrightarrow> prefix p k' \<Longrightarrow> k' < k"
  shows "scan (m(k \<mapsto> v)) p = scan m p @ [(k, v)]"
proof -
  let ?A = "{k \<in> dom m. prefix p k}"
  have A: "finite ?A" "\<And>x. x \<in> ?A \<Longrightarrow> x < k" using fin max by auto
  have "{k' \<in> dom (m(k \<mapsto> v)). prefix p k'} = insert k ?A" using \<open>prefix p k\<close> by auto
  then have "scan (m(k \<mapsto> v)) p = map (\<lambda>k'. (k', the ((m(k \<mapsto> v)) k'))) (sorted_list_of_set ?A @ [k])"
    by (simp only: scan_def sorted_list_of_set_insert_max [OF A])
  also have "\<dots> = scan m p @ [(k, v)]"
    using A by (auto simp: scan_def)
  finally show ?thesis .
qed

lemma delta_inv_key_less:
  assumes "delta_inv V sq" and "V CF_DELTA_ENTRIES k = Some b" and "prefix (delta_prefix i) k"
  shows "k < encode_delta_key i (sq i)"
  using assms by (fastforce simp: delta_inv_def delta_key_less)

lemma pending_put_delta:
  assumes "finite (dom (V CF_DELTA_ENTRIES))" and "delta_inv V sq"
  shows "pending (upd CF_DELTA_ENTRIES (encode_delta_key i (sq i)) (Some v) V) j =
    (if j = i then pending V i @ [v] else pending V j)"
proof (cases "j = i")
  case True
  have "scan ((V CF_DELTA_ENTRIES)(encode_delta_key i (sq i) \<mapsto> v)) (delta_prefix i) =
      scan (V CF_DELTA_ENTRIES) (delta_prefix i) @ [(encode_delta_key i (sq i), v)]"
    using assms by (intro scan_put_max) (auto dest: delta_inv_key_less)
  with True show ?thesis by (simp add: pending_def)
next
  case False
  then show ?thesis
    by (auto simp: pending_def intro!: arg_cong [where f = "map snd"] scan_cong)
qed

text \<open>The writes that append values under consecutive sequence numbers.\<close>

fun delta_writes :: "inode \<Rightarrow> u64 \<Rightarrow> bytes list \<Rightarrow> (cf \<times> bytes \<times> bytes option) list" where
  "delta_writes i q [] = []"
| "delta_writes i q (v # vs) = (CF_DELTA_ENTRIES, encode_delta_key i q, Some v) # delta_writes i (q + 1) vs"

lemma delta_writes_other_cf [simp]:
  "c \<noteq> CF_DELTA_ENTRIES \<Longrightarrow> apply_writes (delta_writes i q vs) V c = V c"
  by (induction vs arbitrary: q V) auto

lemma finite_delta_writes [simp]:
  "finite (dom (apply_writes (delta_writes i q vs) V c)) = finite (dom (V c))"
proof (induction vs arbitrary: q V)
  case (Cons v vs)
  then show ?case by (cases "c = CF_DELTA_ENTRIES") (simp_all del: fun_upd_apply)
qed simp

lemma less_plus1: "(q :: u64) \<noteq> - 1 \<Longrightarrow> q < q + 1"
proof -
  assume "q \<noteq> - 1"
  then have "1 + q \<noteq> 0" by (simp add: add_eq_0_iff)
  then show ?thesis by (simp add: word_less_nat_alt unatSuc add.commute)
qed

lemma delta_inv_put:
  assumes "delta_inv V sq" and "sq i \<noteq> - 1"
  shows "delta_inv (upd CF_DELTA_ENTRIES (encode_delta_key i (sq i)) x V) (sq(i := sq i + 1))"
  unfolding delta_inv_def
proof (intro allI impI)
  fix k b
  assume "upd CF_DELTA_ENTRIES (encode_delta_key i (sq i)) x V CF_DELTA_ENTRIES k = Some b"
  then consider "k = encode_delta_key i (sq i)" | "V CF_DELTA_ENTRIES k = Some b"
    by (auto split: if_splits)
  then show "\<exists>j q. k = encode_delta_key j q \<and> q < (sq(i := sq i + 1)) j"
  proof cases
    case 1
    with less_plus1 [OF assms(2)] show ?thesis by auto
  next
    case 2
    with assms(1) obtain j q where "k = encode_delta_key j q" "q < sq j" by (auto simp: delta_inv_def)
    with less_plus1 [OF assms(2)] show ?thesis by (auto intro: less_trans)
  qed
qed

lemma pending_delta_writes:
  assumes "finite (dom (V CF_DELTA_ENTRIES))" and "delta_inv V sq"
    and "unat (sq i) + length vs < 2 ^ 64"
  shows "pending (apply_writes (delta_writes i (sq i) vs) V) j =
      (if j = i then pending V i @ vs else pending V j) \<and>
    delta_inv (apply_writes (delta_writes i (sq i) vs) V) (sq(i := sq i + of_nat (length vs)))"
  using assms
proof (induction vs arbitrary: V sq)
  case (Cons v vs)
  let ?V = "upd CF_DELTA_ENTRIES (encode_delta_key i (sq i)) (Some v) V"
    and ?sq = "sq(i := sq i + 1)"
  have suc: "unat (sq i + 1) = Suc (unat (sq i))"
    using Cons.prems(3) by (simp add: unat_word_ariths)
  then have ne: "sq i \<noteq> - 1" by auto
  from suc have "unat (?sq i) + length vs < 2 ^ 64" using Cons.prems(3) by simp
  moreover have "finite (dom (?V CF_DELTA_ENTRIES))" using Cons.prems(1) by simp
  ultimately have ih: "pending (apply_writes (delta_writes i (?sq i) vs) ?V) j =
      (if j = i then pending ?V i @ vs else pending ?V j)"
    "delta_inv (apply_writes (delta_writes i (?sq i) vs) ?V) (?sq(i := ?sq i + of_nat (length vs)))"
    using Cons.IH [of ?V ?sq] delta_inv_put [OF Cons.prems(2) ne] by blast+
  then show ?case
    using pending_put_delta [OF Cons.prems(1,2)]
    by (simp add: add.assoc fun_upd_same del: fun_upd_apply)
qed auto

lemma wp_append_loop:
  assumes "\<And>seqs. seq_at seqs = (seq_of s)(i := seq_of s i + of_nat (length vs)) \<Longrightarrow>
      Q (Ok (delta_writes i (seq_of s i) vs, map (\<lambda>n. seq_of s i + of_nat n) [0..<length vs]))
        (s\<lparr>kv_seqs := seqs\<rparr>)"
  shows "wp (append_loop i vs) Q s"
  using assms
proof (induction vs arbitrary: s Q)
  case Nil
  have "Q (Ok ([], [])) (s\<lparr>kv_seqs := kv_seqs s\<rparr>)" using Nil [of "kv_seqs s"] by simp
  then show ?case by (simp add: wp_simps)
next
  case (Cons v vs)
  have upt: "map (\<lambda>n. seq_of s i + of_nat n) [0..<length (v # vs)] =
      seq_of s i # map (\<lambda>n. seq_of s i + (1 + of_nat n)) [0..<length vs]"
    by (simp add: map_upt_Suc del: upt_Suc)
  show ?case
    by (simp add: wp_simps, rule Cons.IH)
      (use Cons.prems [unfolded upt] in \<open>simp add: wp_simps add.assoc del: fun_upd_apply add: fun_upd_same\<close>)
qed

text \<open>The effect of \<^verbatim>\<open>clear_deltas\<close> on the contents.\<close>

definition drop_deltas :: "inode \<Rightarrow> view \<Rightarrow> view" where
  "drop_deltas i V c k = (if c = CF_DELTA_ENTRIES \<and> prefix (delta_prefix i) k then None else V c k)"

lemma apply_writes_deletes:
  "apply_writes (map (\<lambda>(k, _). (c, k, None)) kvs) V c' k' =
     (if c' = c \<and> k' \<in> fst ` set kvs then None else V c' k')"
  by (induction kvs arbitrary: V) (force split: prod.splits)+

lemma clear_writes:
  assumes "finite (dom (V CF_DELTA_ENTRIES))"
  shows "apply_writes (map (\<lambda>(k, _). (CF_DELTA_ENTRIES, k, None))
      (scan (V CF_DELTA_ENTRIES) (delta_prefix i))) V = drop_deltas i V"
proof (intro ext)
  fix c k
  have "k \<in> fst ` set (scan (V CF_DELTA_ENTRIES) (delta_prefix i)) \<longleftrightarrow>
      V CF_DELTA_ENTRIES k \<noteq> None \<and> prefix (delta_prefix i) k"
    by (force simp: set_scan [OF assms])
  then show "apply_writes (map (\<lambda>(k, _). (CF_DELTA_ENTRIES, k, None))
      (scan (V CF_DELTA_ENTRIES) (delta_prefix i))) V c k = drop_deltas i V c k"
    by (simp add: apply_writes_deletes drop_deltas_def)
qed

lemma pending_drop_deltas:
  assumes "finite (dom (V CF_DELTA_ENTRIES))"
  shows "pending (drop_deltas i V) j = (if j = i then [] else pending V j)"
proof (cases "j = i")
  case True
  have "dom (drop_deltas i V CF_DELTA_ENTRIES) \<subseteq> dom (V CF_DELTA_ENTRIES)"
    by (auto simp: drop_deltas_def split: if_splits)
  with assms have "finite (dom (drop_deltas i V CF_DELTA_ENTRIES))" by (rule rev_finite_subset)
  with True show ?thesis by (simp add: pending_def scan_Nil_iff) (simp add: drop_deltas_def)
next
  case False
  have "\<not> prefix (delta_prefix i) k" if "prefix (delta_prefix j) k" for k
    using that False by (auto simp: prefix_def delta_prefix_def to_be_append_inject to_be_inject)
  with False show ?thesis
    by (auto simp: pending_def drop_deltas_def intro!: arg_cong [where f = "map snd"] scan_cong)
qed

text \<open>Every counter recovered from an iteration is above each sequence number it read.\<close>

lemma max_seqs_loop_no_panic [simp]: "max_seqs_loop items m \<noteq> Panic q"
  by (induction items m rule: max_seqs_loop.induct) (auto split: outcome.split)

lemma max_seqs_loop_ge:
  assumes "max_seqs_loop items m = Ok m'"
  shows "(\<forall>i q. m i = Some q \<longrightarrow> (\<exists>q'. m' i = Some q' \<and> q \<le> q')) \<and>
    (\<forall>i q b. Inr (encode_delta_key i q, b) \<in> set items \<longrightarrow> (\<exists>q'. m' i = Some q' \<and> q \<le> q'))"
  using assms
proof (induction items arbitrary: m)
  case (Cons x r)
  from Cons.prems obtain k v where x: "x = Inr (k, v)" by (cases x) auto
  show ?case
  proof (cases "decode_delta_key k")
    case (Ok iq)
    then obtain j p where d: "decode_delta_key k = Ok (j, p)" by (cases iq) auto
    then have l: "\<not> length k < 17" by (auto simp: decode_delta_key_def)
    let ?m = "case m j of Some q \<Rightarrow> m(j \<mapsto> (if p > q then p else q)) | None \<Rightarrow> m(j \<mapsto> p)"
    from Cons.prems x l d have run: "max_seqs_loop r ?m = Ok m'" by simp
    note ih = Cons.IH [OF run]
    have up: "\<exists>q'. m' i = Some q' \<and> q \<le> q'" if "m i = Some q \<or> i = j \<and> q = p" for i q
    proof -
      have "\<exists>q1. ?m i = Some q1 \<and> q \<le> q1"
        using that by (cases "m j"; cases "i = j") auto
      with ih show ?thesis by (meson order_trans)
    qed
    have "\<exists>q'. m' i = Some q' \<and> q \<le> q'"
      if "Inr (encode_delta_key i q, b) \<in> set (x # r)" for i q b
      using that ih [THEN conjunct2] d by (auto simp: x intro: up)
    with up show ?thesis by blast
  next
    case (Err e)
    with Cons.prems have "max_seqs_loop r m = Ok m'" by (simp add: x split: if_splits)
    moreover have "k \<noteq> encode_delta_key i q" for i q using Err by auto
    then have "Inr (encode_delta_key i q, b) \<in> set (x # r) \<longleftrightarrow> Inr (encode_delta_key i q, b) \<in> set r"
      for i q b by (metis Inr_inject prod.inject set_ConsD list.set_intros(2) x)
    ultimately show ?thesis using Cons.IH by presburger
  qed simp
qed simp

lemma max_seqs_loop_read:
  assumes "max_seqs_loop items m = Ok m'" and "m' i = Some q"
  shows "m i = Some q \<or> (\<exists>k b. Inr (k, b) \<in> set items \<and> decode_delta_key k = Ok (i, q))"
  using assms
proof (induction items arbitrary: m)
  case (Cons x r)
  from Cons.prems(1) obtain k v where x: "x = Inr (k, v)" by (cases x) auto
  show ?case
  proof (cases "\<exists>j p. decode_delta_key k = Ok (j, p)")
    case True
    then obtain j p where d: "decode_delta_key k = Ok (j, p)" by blast
    then have l: "\<not> length k < 17" by (auto simp: decode_delta_key_def)
    let ?m = "case m j of Some q \<Rightarrow> m(j \<mapsto> (if p > q then p else q)) | None \<Rightarrow> m(j \<mapsto> p)"
    from Cons.prems(1) x l d have "max_seqs_loop r ?m = Ok m'" by simp
    with Cons.IH Cons.prems(2) have "?m i = Some q \<or> (\<exists>k b. Inr (k, b) \<in> set r \<and> decode_delta_key k = Ok (i, q))"
      by blast
    moreover have "?m i = Some q \<Longrightarrow> m i = Some q \<or> i = j \<and> q = p"
      by (auto split: option.splits if_splits)
    ultimately show ?thesis using x d by auto
  next
    case False
    then have "max_seqs_loop r m = Ok m'"
      using Cons.prems(1) by (auto simp: x split: if_splits outcome.splits)
    with Cons.IH Cons.prems(2) show ?thesis by fastforce
  qed
qed simp

lemma max_seqs_loop_no_error: "max_seqs_loop items m = Ok m' \<Longrightarrow> Inl e \<notin> set items"
proof (induction items arbitrary: m)
  case (Cons x r)
  then show ?case by (cases x) (auto split: if_splits outcome.splits)
qed simp

lemma iter_ok_complete:
  "iter_ok [] es items \<Longrightarrow> (\<And>e. Inl e \<notin> set items) \<Longrightarrow> items = map Inr es"
  unfolding iter_ok_def by (elim exE conjE disjE) auto

section \<open>Contracts of the stores\<close>

text \<open>
  In the context of the RocksDB laws every store operation has a rule that says what it returns
  and how the contents \<open>view (kv_db s)\<close> change; the database state itself is only known through
  its contents.
\<close>

context rocksdb
begin

lemma wp_need_cf [wp_simps]: "wp (need_cf R c) Q s = Q (Ok ()) s"
  by (simp add: wp_def need_cf_def cf_handle)

lemma wp_expect_cf [wp_simps]: "wp (expect_cf R c) Q s = Q (Ok ()) s"
  by (simp add: wp_def expect_cf_def cf_handle)

lemma wp_meta_get [wp_rules]:
  assumes "\<And>d. view d = view (kv_db s) \<Longrightarrow>
      Q (Ok (view (kv_db s) CF_INODES key)) (s\<lparr>kv_db := d\<rparr>)"
    and "\<And>e d. view d = view (kv_db s) \<Longrightarrow> Q (Err (Io e)) (s\<lparr>kv_db := d\<rparr>)"
  shows "wp (meta_get R key) Q s"
  unfolding meta_get_def
  using assms by (auto simp: wp_simps) (auto simp: wp_def call_db_def dest!: get_spec split: prod.splits sum.splits)

lemma wp_meta_put [wp_rules]:
  assumes "\<And>d. view d = upd CF_INODES key (Some v) (view (kv_db s)) \<Longrightarrow> Q (Ok ()) (s\<lparr>kv_db := d\<rparr>)"
    and "\<And>e d. view d = view (kv_db s) \<Longrightarrow> Q (Err (Io e)) (s\<lparr>kv_db := d\<rparr>)"
  shows "wp (meta_put R key v) Q s"
  unfolding meta_put_def
  using assms by (auto simp: wp_simps) (auto simp: wp_def call_db_def dest!: put_spec split: prod.splits sum.splits)

lemma wp_meta_delete [wp_rules]:
  assumes "\<And>d. view d = upd CF_INODES key None (view (kv_db s)) \<Longrightarrow> Q (Ok ()) (s\<lparr>kv_db := d\<rparr>)"
    and "\<And>e d. view d = view (kv_db s) \<Longrightarrow> Q (Err (Io e)) (s\<lparr>kv_db := d\<rparr>)"
  shows "wp (meta_delete R key) Q s"
  unfolding meta_delete_def
  using assms by (auto simp: wp_simps) (auto simp: wp_def call_db_def dest!: delete_spec split: prod.splits sum.splits)

text \<open>A prefix iteration, seen through the loop that consumes it.\<close>

lemma wp_prefix_iter:
  assumes "prefix_usable c p"
    and "\<And>items d. view d = view (kv_db s) \<Longrightarrow> iter_ok p (scan (view (kv_db s) c) p) items \<Longrightarrow>
      collect p items = Ok (scan (view (kv_db s) c) p) \<or> (\<exists>e. collect p items = Err (Io e)) \<Longrightarrow>
      Q (Ok items) (s\<lparr>kv_db := d\<rparr>)"
  shows "wp (iter_db (rk_prefix_iter R c p)) Q s"
proof -
  obtain items d where it: "rk_prefix_iter R c p (kv_db s) = (items, d)" by fastforce
  have v: "view d = view (kv_db s)" and ok: "iter_ok p (scan (view (kv_db s) c) p) items"
    using prefix_iter_spec [OF it assms(1)] by auto
  have "collect p items = Ok (scan (view (kv_db s) c) p) \<or> (\<exists>e. collect p items = Err (Io e))"
    using collect_iter_ok [OF ok scan_prefix [OF finite_view]] by blast
  with v ok assms(2) show ?thesis by (simp add: wp_def iter_db_def it)
qed

lemma usable [simp]:
  "prefix_usable CF_INODES p" "prefix_usable CF_DIR_ENTRIES (dir_entry_prefix i)"
  "prefix_usable CF_DELTA_ENTRIES (delta_prefix i)"
  by (simp_all add: prefix_usable_def dir_entry_prefix_def delta_prefix_def)

lemma wp_meta_scan_prefix [wp_rules]:
  assumes "\<And>d. view d = view (kv_db s) \<Longrightarrow> Q (Ok (scan (view (kv_db s) CF_INODES) p)) (s\<lparr>kv_db := d\<rparr>)"
    and "\<And>e d. view d = view (kv_db s) \<Longrightarrow> Q (Err (Io e)) (s\<lparr>kv_db := d\<rparr>)"
  shows "wp (meta_scan_prefix R p) Q s"
  unfolding meta_scan_prefix_def using assms by (auto simp: wp_simps intro!: wp_prefix_iter)

lemma wp_scan_deltas_with_keys [wp_rules]:
  assumes "\<And>d. view d = view (kv_db s) \<Longrightarrow>
      Q (Ok (scan (view (kv_db s) CF_DELTA_ENTRIES) (delta_prefix i))) (s\<lparr>kv_db := d\<rparr>)"
    and "\<And>e d. view d = view (kv_db s) \<Longrightarrow> Q (Err (Io e)) (s\<lparr>kv_db := d\<rparr>)"
  shows "wp (scan_deltas_with_keys R i) Q s"
  unfolding scan_deltas_with_keys_def using assms by (auto simp: wp_simps intro!: wp_prefix_iter)

lemma wp_scan_deltas [wp_rules]:
  assumes "\<And>d. view d = view (kv_db s) \<Longrightarrow>
      Q (Ok (map snd (scan (view (kv_db s) CF_DELTA_ENTRIES) (delta_prefix i)))) (s\<lparr>kv_db := d\<rparr>)"
    and "\<And>e d. view d = view (kv_db s) \<Longrightarrow> Q (Err (Io e)) (s\<lparr>kv_db := d\<rparr>)"
  shows "wp (scan_deltas R i) Q s"
  unfolding scan_deltas_def using assms by (auto simp: wp_simps intro!: wp_prefix_iter)

lemma wp_scan_delta_keys [wp_rules]:
  assumes "\<And>d. view d = view (kv_db s) \<Longrightarrow>
      Q (Ok (map fst (scan (view (kv_db s) CF_DELTA_ENTRIES) (delta_prefix i)))) (s\<lparr>kv_db := d\<rparr>)"
    and "\<And>e d. view d = view (kv_db s) \<Longrightarrow> Q (Err (Io e)) (s\<lparr>kv_db := d\<rparr>)"
  shows "wp (scan_delta_keys R i) Q s"
  unfolding scan_delta_keys_def using assms by (auto simp: wp_simps intro!: wp_prefix_iter)

lemma wp_list_dir [wp_rules]:
  assumes "\<And>es d. view d = view (kv_db s) \<Longrightarrow>
      sorted (map de_name es) \<Longrightarrow> distinct (map de_name es) \<Longrightarrow>
      (\<forall>n i m. \<lparr>de_name = n, de_inode = i, de_kind = m\<rparr> \<in> set es \<longleftrightarrow>
         dirent (view (kv_db s)) p n = Some (i, m)) \<Longrightarrow> Q (Ok es) (s\<lparr>kv_db := d\<rparr>)"
    and "\<And>e d. view d = view (kv_db s) \<Longrightarrow> Q (Err e) (s\<lparr>kv_db := d\<rparr>)"
  shows "wp (list_dir R p) Q s"
proof -
  let ?p = "dir_entry_prefix p" and ?V = "view (kv_db s)"
  have "Q (list_dir_loop ?p items) (s\<lparr>kv_db := d\<rparr>)"
    if d: "view d = ?V" and it: "iter_ok ?p (scan (?V CF_DIR_ENTRIES) ?p) items" for items d
  proof (cases "list_dir_loop ?p items")
    case (Ok es)
    with list_dir_loop_iter [OF it scan_prefix [OF finite_view]]
    have "list_dir_loop ?p (map Inr (scan (?V CF_DIR_ENTRIES) ?p)) = Ok es" by auto
    from list_dir_loop_scan [where V = ?V, OF finite_view this] d assms(1) Ok show ?thesis by auto
  qed (use assms(2) d in auto)
  then show ?thesis
    unfolding list_dir_def by (auto simp: wp_simps intro!: wp_prefix_iter)
qed

lemma wp_resolve_path [wp_rules]:
  assumes "\<And>d. view d = view (kv_db s) \<Longrightarrow>
      (view (kv_db s) CF_DIR_ENTRIES (encode_dir_entry_key p n) \<noteq> None \<longrightarrow> dirent (view (kv_db s)) p n \<noteq> None) \<Longrightarrow>
      Q (Ok (map_option fst (dirent (view (kv_db s)) p n))) (s\<lparr>kv_db := d\<rparr>)"
    and "\<And>e d. view d = view (kv_db s) \<Longrightarrow> (\<exists>m. e = Io m) \<or> e \<noteq> NotFound \<and>
        view (kv_db s) CF_DIR_ENTRIES (encode_dir_entry_key p n) \<noteq> None \<and> dirent (view (kv_db s)) p n = None \<Longrightarrow>
      Q (Err e) (s\<lparr>kv_db := d\<rparr>)"
  shows "wp (resolve_path R p n) Q s"
proof -
  let ?k = "encode_dir_entry_key p n"
  obtain g d where g: "rk_get R CF_DIR_ENTRIES ?k (kv_db s) = (g, d)" by fastforce
  from get_spec [OF g] have d: "view d = view (kv_db s)"
    and v: "\<And>x. g = Inr x \<Longrightarrow> x = view (kv_db s) CF_DIR_ENTRIES ?k" by auto
  have ne: "decode_dir_value b = Err e \<Longrightarrow> e \<noteq> NotFound" for b e
    by (auto simp: decode_dir_value_def split: if_splits)
  show ?thesis
  proof (cases g)
    case (Inl e)
    with assms(2) d show ?thesis
      unfolding resolve_path_def by (auto simp: wp_simps) (simp add: wp_def call_db_def g)
  next
    case (Inr x)
    with v have "view (kv_db s) CF_DIR_ENTRIES ?k = x" by simp
    with Inr assms d show ?thesis
      unfolding resolve_path_def
      by (cases x; cases "decode_dir_value (the x)")
        (auto simp: wp_simps wp_def [of "call_db _ _"] call_db_def g dirent_def dest: ne)
  qed
qed

lemma wp_insert_child [wp_rules]:
  assumes "\<And>d. view d = upd CF_DIR_ENTRIES (encode_dir_entry_key p n)
        (Some (encode_dir_value i (fa_mode a))) (view (kv_db s)) \<Longrightarrow> Q (Ok ()) (s\<lparr>kv_db := d\<rparr>)"
    and "\<And>e d. view d = view (kv_db s) \<Longrightarrow> Q (Err (Io e)) (s\<lparr>kv_db := d\<rparr>)"
  shows "wp (insert_child R p n i a) Q s"
  unfolding insert_child_def
  using assms by (auto simp: wp_simps) (auto simp: wp_def call_db_def dest!: put_spec split: prod.splits sum.splits)

lemma wp_remove_child [wp_rules]:
  assumes "\<And>d. view d = upd CF_DIR_ENTRIES (encode_dir_entry_key p n) None (view (kv_db s)) \<Longrightarrow>
      Q (Ok ()) (s\<lparr>kv_db := d\<rparr>)"
    and "\<And>e d. view d = view (kv_db s) \<Longrightarrow> Q (Err (Io e)) (s\<lparr>kv_db := d\<rparr>)"
  shows "wp (remove_child R p n) Q s"
  unfolding remove_child_def
  using assms by (auto simp: wp_simps) (auto simp: wp_def call_db_def dest!: delete_spec split: prod.splits sum.splits)

lemma wp_begin_write [wp_rules]:
  assumes "\<And>t d. view d = view (kv_db s) \<Longrightarrow> pend t = no_writes \<Longrightarrow>
      Q (Ok ()) (s\<lparr>kv_db := d, kv_txn := t\<rparr>)"
  shows "wp (begin_write R) Q s"
  using assms by (auto simp: wp_def begin_write_def dest!: begin_spec split: prod.splits)

lemma wp_push [wp_rules]:
  assumes ok: "\<And>t d. view d = view (kv_db s) \<Longrightarrow> pend t = add_writes [batch_write b] (pend (kv_txn s)) \<Longrightarrow>
      Q (Ok ()) (s\<lparr>kv_db := d, kv_txn := t\<rparr>)"
    and panic: "\<And>q t d. view d = view (kv_db s) \<Longrightarrow> pend t = pend (kv_txn s) \<Longrightarrow>
      Q (Panic q) (s\<lparr>kv_db := d, kv_txn := t\<rparr>)"
  shows "wp (push R b) Q s"
proof -
  obtain c k x w where b: "batch_write b = (c, k, x)"
    and p: "push R b s = (case x of Some v \<Rightarrow> txn_put_op R c w k v | None \<Rightarrow> txn_delete_op R c w k) s"
    using push_cases [of b R s] by blast
  have "wp (case x of Some v \<Rightarrow> txn_put_op R c w k v | None \<Rightarrow> txn_delete_op R c w k) Q s"
  proof (cases x)
    case None
    with b ok panic show ?thesis
      by (auto simp: txn_delete_op_def wp_simps)
        (auto simp: wp_def expect_txn_def dest!: txn_delete_spec split: prod.splits sum.splits)
  next
    case (Some v)
    with b ok panic show ?thesis
      by (auto simp: txn_put_op_def wp_simps)
        (auto simp: wp_def expect_txn_def dest!: txn_put_spec split: prod.splits sum.splits)
  qed
  then show ?thesis by (simp add: wp_def p)
qed

lemma wp_commit [wp_rules]:
  assumes "\<And>d. view d = overlay (pend (kv_txn s)) (view (kv_db s)) \<Longrightarrow> Q (Ok ()) (s\<lparr>kv_db := d\<rparr>)"
    and "\<And>e d. txn_error e \<Longrightarrow> view d = view (kv_db s) \<Longrightarrow> Q (Err e) (s\<lparr>kv_db := d\<rparr>)"
  shows "wp (commit R) Q s"
  using assms
  by (auto simp: wp_def commit_def call_db_def dest!: commit_spec split: prod.splits sum.splits)

lemma wp_get_for_update:
  assumes "\<And>t d. view d = view (kv_db s) \<Longrightarrow> pend t = pend (kv_txn s) \<Longrightarrow>
      Q (Ok (overlay (pend (kv_txn s)) (view (kv_db s)) c key)) (s\<lparr>kv_db := d, kv_txn := t\<rparr>)"
    and "\<And>e t d. txn_error e \<Longrightarrow> view d = view (kv_db s) \<Longrightarrow> pend t = pend (kv_txn s) \<Longrightarrow>
      Q (Err e) (s\<lparr>kv_db := d, kv_txn := t\<rparr>)"
  shows "wp (call_txn map_txn_err (rk_txn_get_for_update R c key)) Q s"
  using assms by (auto simp: wp_def call_txn_def dest!: txn_get_spec split: prod.splits sum.splits)

lemma wp_get_for_update_inode [wp_rules]:
  assumes "\<And>t d. view d = view (kv_db s) \<Longrightarrow> pend t = pend (kv_txn s) \<Longrightarrow>
      Q (Ok (overlay (pend (kv_txn s)) (view (kv_db s)) CF_INODES key)) (s\<lparr>kv_db := d, kv_txn := t\<rparr>)"
    and "\<And>e t d. txn_error e \<Longrightarrow> view d = view (kv_db s) \<Longrightarrow> pend t = pend (kv_txn s) \<Longrightarrow>
      Q (Err e) (s\<lparr>kv_db := d, kv_txn := t\<rparr>)"
  shows "wp (get_for_update_inode R key) Q s"
  unfolding get_for_update_inode_def using assms by (simp add: wp_simps wp_get_for_update)

lemma wp_get_for_update_dir_entry [wp_rules]:
  assumes "\<And>t d. view d = view (kv_db s) \<Longrightarrow> pend t = pend (kv_txn s) \<Longrightarrow>
      Q (Ok (overlay (pend (kv_txn s)) (view (kv_db s)) CF_DIR_ENTRIES key)) (s\<lparr>kv_db := d, kv_txn := t\<rparr>)"
    and "\<And>e t d. txn_error e \<Longrightarrow> view d = view (kv_db s) \<Longrightarrow> pend t = pend (kv_txn s) \<Longrightarrow>
      Q (Err e) (s\<lparr>kv_db := d, kv_txn := t\<rparr>)"
  shows "wp (get_for_update_dir_entry R key) Q s"
  unfolding get_for_update_dir_entry_def using assms by (simp add: wp_simps wp_get_for_update)

lemma finite_dom_upd: "finite (dom (f c)) \<Longrightarrow> finite (dom (upd c' k x f c))"
  by (cases "c = c'") auto

text \<open>
  \<^verbatim>\<open>is_dir_empty\<close> is used before the transaction has written to the directory index, so its
  scan is the scan of the committed contents.
\<close>

lemma wp_is_dir_empty [wp_rules]:
  assumes pend: "pend (kv_txn s) = no_writes"
    and "\<And>t d. view d = view (kv_db s) \<Longrightarrow> pend t = pend (kv_txn s) \<Longrightarrow>
      Q (Ok (\<forall>k. prefix (dir_entry_prefix i) k \<longrightarrow> view (kv_db s) CF_DIR_ENTRIES k = None))
        (s\<lparr>kv_db := d, kv_txn := t\<rparr>)"
    and "\<And>e t d. view d = view (kv_db s) \<Longrightarrow> pend t = pend (kv_txn s) \<Longrightarrow>
      Q (Err (Io e)) (s\<lparr>kv_db := d, kv_txn := t\<rparr>)"
  shows "wp (is_dir_empty R i) Q s"
proof -
  let ?p = "dir_entry_prefix i"
  obtain items t d where it:
    "rk_txn_prefix_iter R CF_DIR_ENTRIES ?p (kv_txn s) (kv_db s) = (items, t, d)"
    by (metis prod_cases3)
  from txn_iter_spec [OF it usable(2)] pend
  have v: "view d = view (kv_db s)" "pend t = pend (kv_txn s)"
    and ok: "iter_ok ?p (scan (view (kv_db s) CF_DIR_ENTRIES) ?p) items" by auto
  from first_item_empty_iter [OF ok scan_prefix [OF finite_view]] v assms(2,3) show ?thesis
    unfolding is_dir_empty_def
    by (auto simp: wp_simps) (auto simp: wp_def it scan_Nil_iff [OF finite_view])
qed

lemma wp_clear_deltas [wp_rules]:
  assumes "\<And>d seqs. view d = drop_deltas i (view (kv_db s)) \<Longrightarrow> seq_at seqs = (seq_of s)(i := 0) \<Longrightarrow>
      Q (Ok ()) (s\<lparr>kv_db := d, kv_seqs := seqs\<rparr>)"
    and "\<And>e d. view d = view (kv_db s) \<Longrightarrow> Q (Err (Io e)) (s\<lparr>kv_db := d\<rparr>)"
  shows "wp (clear_deltas R i) Q s"
proof -
  let ?V = "view (kv_db s)" and ?p = "delta_prefix i"
  have "wp (call_db (\<lambda>e. Io (''RocksDB write batch: '' @ e))
        (rk_write R (map (\<lambda>(k, _). (CF_DELTA_ENTRIES, k, None)) (scan (?V CF_DELTA_ENTRIES) ?p))))
      (andthen (\<lambda>_. modify (\<lambda>s. if kv_seqs s i = None then s
                 else s\<lparr>kv_seqs := (kv_seqs s)(i \<mapsto> 0)\<rparr>)) Q) (s\<lparr>kv_db := d\<rparr>)"
    if d: "view d = ?V" for d
  proof -
    obtain r d' where w: "rk_write R (map (\<lambda>(k, _). (CF_DELTA_ENTRIES, k, None))
        (scan (?V CF_DELTA_ENTRIES) ?p)) d = (r, d')" by fastforce
    have same: "seq_of s = (seq_of s)(i := 0)" if "kv_seqs s i = None"
      using that by (auto simp: seq_at_def)
    have "Q (Ok ()) (s\<lparr>kv_db := d'\<rparr>)" if "view d' = drop_deltas i ?V" "kv_seqs s i = None"
      using assms(1) [OF that(1) same [OF that(2)]] by simp
    moreover have "Q (Ok ()) (s\<lparr>kv_db := d', kv_seqs := (kv_seqs s)(i \<mapsto> 0)\<rparr>)" if "view d' = drop_deltas i ?V"
      by (rule assms(1) [OF that]) simp
    ultimately show ?thesis
      using write_spec [OF w] assms(2) d
      by (cases r) (auto simp: wp_def call_db_def w modify_def clear_writes [where V = ?V, OF finite_view])
  qed
  with assms(2) show ?thesis
    unfolding clear_deltas_def by (auto simp: wp_simps intro!: wp_prefix_iter)
qed

lemma wp_write_call:
  assumes "\<And>d. view d = apply_writes ws (view (kv_db s)) \<Longrightarrow> Q (Ok ()) (s\<lparr>kv_db := d\<rparr>)"
    and "\<And>e d. view d = view (kv_db s) \<Longrightarrow> Q (Err (err e)) (s\<lparr>kv_db := d\<rparr>)"
  shows "wp (call_db err (rk_write R ws)) Q s"
  using assms by (auto simp: wp_def call_db_def dest!: write_spec split: prod.splits sum.splits)

lemma wp_recover_seqs [wp_rules]:
  assumes "\<And>m d. view d = view (kv_db s) \<Longrightarrow>
      (\<forall>i q b. view (kv_db s) CF_DELTA_ENTRIES (encode_delta_key i q) = Some b \<longrightarrow>
         (\<exists>q'. m i = Some q' \<and> q \<le> q')) \<Longrightarrow>
      (\<forall>i q. m i = Some q \<longrightarrow>
         (\<exists>k b. view (kv_db s) CF_DELTA_ENTRIES k = Some b \<and> decode_delta_key k = Ok (i, q))) \<Longrightarrow>
      Q (Ok ()) (s\<lparr>kv_db := d,
        kv_seqs := (\<lambda>i. case m i of Some q \<Rightarrow> Some (q + 1) | None \<Rightarrow> kv_seqs s i)\<rparr>)"
    and "\<And>e d. view d = view (kv_db s) \<Longrightarrow> Q (Err e) (s\<lparr>kv_db := d\<rparr>)"
  shows "wp (recover_seqs R) Q s"
proof -
  let ?V = "view (kv_db s)"
  obtain items d where it: "rk_iter_end R CF_DELTA_ENTRIES (kv_db s) = (items, d)" by fastforce
  have d: "view d = ?V" and ok: "iter_ok [] (rev (scan (?V CF_DELTA_ENTRIES) [])) items"
    using iter_end_spec [OF it] by auto
  have items: "set items = Inr ` set (scan (?V CF_DELTA_ENTRIES) [])"
    if m: "max_seqs_loop items Map.empty = Ok m" for m
    using iter_ok_complete [OF ok max_seqs_loop_no_error [OF m]] by simp
  have all: "\<exists>q'. m i = Some q' \<and> q \<le> q'"
    if m: "max_seqs_loop items Map.empty = Ok m"
      and b: "?V CF_DELTA_ENTRIES (encode_delta_key i q) = Some b" for m i q b
    using max_seqs_loop_ge [OF m] b unfolding items [OF m] set_scan [OF finite_view] by force
  have read: "\<exists>k b. ?V CF_DELTA_ENTRIES k = Some b \<and> decode_delta_key k = Ok (i, q)"
    if m: "max_seqs_loop items Map.empty = Ok m" and "m i = Some q" for m i q
    using max_seqs_loop_read [OF m] that(2) unfolding items [OF m] set_scan [OF finite_view] by force
  have run: "wp (recover_seqs R) Q s =
      andthen (\<lambda>m. modify (\<lambda>s. s\<lparr>kv_seqs := (\<lambda>i. case m i of Some q \<Rightarrow> Some (q + 1) | None \<Rightarrow> kv_seqs s i)\<rparr>))
        Q (max_seqs_loop items Map.empty) (s\<lparr>kv_db := d\<rparr>)"
    unfolding recover_seqs_def by (simp add: wp_simps) (simp add: wp_def [of "iter_db _"] iter_db_def it wp_simps)
  show ?thesis
  proof (cases "max_seqs_loop items Map.empty")
    case (Ok m)
    have "Q (Ok ()) (s\<lparr>kv_db := d,
        kv_seqs := (\<lambda>i. case m i of Some q \<Rightarrow> Some (q + 1) | None \<Rightarrow> kv_seqs s i)\<rparr>)"
      by (rule assms(1) [OF d]) (use all [OF Ok] read [OF Ok] in blast)+
    with Ok show ?thesis by (simp add: run wp_simps cong: option.case_cong)
  qed (use assms d run max_seqs_loop_no_panic in auto)
qed

lemma wp_append_deltas [wp_rules]:
  assumes "\<And>d seqs. view d = apply_writes (delta_writes i (seq_of s i) vs) (view (kv_db s)) \<Longrightarrow>
      seq_at seqs = (seq_of s)(i := seq_of s i + of_nat (length vs)) \<Longrightarrow>
      Q (Ok (map (\<lambda>n. seq_of s i + of_nat n) [0..<length vs])) (s\<lparr>kv_db := d, kv_seqs := seqs\<rparr>)"
    and "\<And>e d seqs. view d = view (kv_db s) \<Longrightarrow>
      seq_at seqs = (seq_of s)(i := seq_of s i + of_nat (length vs)) \<Longrightarrow>
      Q (Err (Io e)) (s\<lparr>kv_db := d, kv_seqs := seqs\<rparr>)"
  shows "wp (append_deltas R i vs) Q s"
  unfolding append_deltas_def
  using assms by (auto simp: wp_simps intro!: wp_append_loop wp_write_call)

lemma wp_pushes:
  assumes "\<And>t d. view d = view (kv_db s) \<Longrightarrow> pend t = add_writes (map batch_write ops) (pend (kv_txn s)) \<Longrightarrow>
      Q (Ok ()) (s\<lparr>kv_db := d, kv_txn := t\<rparr>)"
    and "\<And>q t d. view d = view (kv_db s) \<Longrightarrow> Q (Panic q) (s\<lparr>kv_db := d, kv_txn := t\<rparr>)"
  shows "wp (for_each ops (push R)) Q s"
  using assms
proof (induction ops arbitrary: s)
  case Nil
  have "Q (Ok ()) (s\<lparr>kv_db := kv_db s, kv_txn := kv_txn s\<rparr>)" by (rule Nil.prems(1)) simp_all
  then show ?case by (simp add: wp_simps)
next
  case (Cons b ops)
  obtain c k x where b: "batch_write b = (c, k, x)" by (cases "batch_write b")
  show ?case
    by (simp only: wp_for_each_Cons, rule wp_push)
      (use Cons.prems in \<open>auto simp: b intro!: Cons.IH\<close>)
qed

end

section \<open>Properties\<close>

text \<open>A database with two directories and some deltas, for the concrete runs below.\<close>

definition sample_kv :: "(mem_db, mem_txn) kv" where
  "sample_kv = \<lparr>kv_db = \<lparr>mem_kv =
       [((CF_DIR_ENTRIES, encode_dir_entry_key 1 [0x62]), encode_dir_value 7 0x81A4),
        ((CF_DIR_ENTRIES, encode_dir_entry_key 1 [0x61]), encode_dir_value 6 0x41ED),
        ((CF_DIR_ENTRIES, encode_dir_entry_key 6 [0x61]), encode_dir_value 8 0x81A4),
        ((CF_DELTA_ENTRIES, encode_delta_key 1 0), [2, 0, 0, 0, 0, 0, 0, 0, 9])],
      mem_faults = []\<rparr>, kv_txn = [], kv_seqs = (\<lambda>i. if i = 1 then Some 1 else None)\<rparr>"

lemma run_result: "fst p = r \<Longrightarrow> p = (r, snd p)"
  by (cases p) simp

text \<open>
  C28. Reading a directory returns exactly its entries: each child name once, in byte order, with the
  inode number and mode stored for it, nothing of any other directory, and nothing is changed.
\<close>

theorem list_dir_exact:
  assumes "rocksdb R view pend" and "list_dir R p s = (Ok es, s')"
  shows "view (kv_db s') = view (kv_db s) \<and> sorted (map de_name es) \<and> distinct (map de_name es) \<and>
    (\<forall>n i m. \<lparr>de_name = n, de_inode = i, de_kind = m\<rparr> \<in> set es \<longleftrightarrow>
       dirent (view (kv_db s)) p n = Some (i, m))"
proof -
  have "wp (list_dir R p) (\<lambda>r s'. \<forall>es. r = Ok es \<longrightarrow>
      view (kv_db s') = view (kv_db s) \<and> sorted (map de_name es) \<and> distinct (map de_name es) \<and>
      (\<forall>n i m. \<lparr>de_name = n, de_inode = i, de_kind = m\<rparr> \<in> set es \<longleftrightarrow>
         dirent (view (kv_db s)) p n = Some (i, m))) s"
    by (rule rocksdb.wp_list_dir [OF assms(1)]) auto
  from wpD [OF this assms(2)] show ?thesis by simp
qed

theorem list_dir_exact_witness:
  "\<exists>s'. list_dir mem_rocks 1 sample_kv =
      (Ok [\<lparr>de_name = [0x61], de_inode = 6, de_kind = 0x41ED\<rparr>,
           \<lparr>de_name = [0x62], de_inode = 7, de_kind = 0x81A4\<rparr>], s') \<and>
    mem_view (kv_db s') = mem_view (kv_db sample_kv)"
proof -
  have "fst (list_dir mem_rocks 1 sample_kv) =
      Ok [\<lparr>de_name = [0x61], de_inode = 6, de_kind = 0x41ED\<rparr>,
          \<lparr>de_name = [0x62], de_inode = 7, de_kind = 0x81A4\<rparr>]" by code_simp
  from run_result [OF this] list_dir_exact [OF mem.rocksdb_axioms run_result [OF this]]
  show ?thesis by blast
qed

text \<open>
  C29. A write batch is atomic: if the commit reports success, the contents are the old ones with all
  buffered writes applied in order; whenever it reports anything else, including a lock conflict
  in the middle of the batch, the contents are untouched. The only errors are a transaction conflict, which callers retry, and
  an I/O error.
\<close>

definition write_batch :: "('db, 'txn) rocks \<Rightarrow> BatchOp list \<Rightarrow> (('db, 'txn, 'z) kv_scheme, unit) fs_op" where
  "write_batch R ops =
     bind (begin_write R) (\<lambda>_. bind (for_each ops (push R)) (\<lambda>_. commit R))"

theorem write_batch_atomic:
  assumes "rocksdb R view pend" and "write_batch R ops s = (r, s')"
  shows "view (kv_db s') =
      (if r = Ok () then apply_writes (map batch_write ops) (view (kv_db s)) else view (kv_db s)) \<and>
    (\<forall>e. r = Err e \<longrightarrow> e = TransactionConflict \<or> (\<exists>m. e = Io m))"
proof -
  have "wp (write_batch R ops) (\<lambda>r s'. view (kv_db s') =
      (if r = Ok () then apply_writes (map batch_write ops) (view (kv_db s)) else view (kv_db s)) \<and>
      (\<forall>e. r = Err e \<longrightarrow> e = TransactionConflict \<or> (\<exists>m. e = Io m))) s"
    unfolding write_batch_def
    by (auto simp: wp_simps txn_error_def intro!: rocksdb.wp_begin_write [OF assms(1)]
        rocksdb.wp_pushes [OF assms(1)] rocksdb.wp_commit [OF assms(1)])
  from wpD [OF this assms(2)] show ?thesis .
qed

theorem write_batch_atomic_witness:
  "\<exists>s'. write_batch mem_rocks [PutInode [0x49] [1], DeleteDelta (encode_delta_key 1 0)] sample_kv = (Ok (), s') \<and>
    mem_view (kv_db s') CF_INODES [0x49] = Some [1] \<and>
    mem_view (kv_db s') CF_DELTA_ENTRIES (encode_delta_key 1 0) = None"
proof -
  let ?ops = "[PutInode [0x49] [1], DeleteDelta (encode_delta_key 1 0)]"
  have "fst (write_batch mem_rocks ?ops sample_kv) = Ok ()" by code_simp
  from run_result [OF this] write_batch_atomic [OF mem.rocksdb_axioms run_result [OF this]]
  show ?thesis by (auto intro!: exI)
qed

text \<open>
  C30. Appended deltas are never lost or reordered: while the sequence counter does not wrap, the
  deltas pending for the inode afterwards are the old ones followed by the new ones, those of
  other inodes are the same, and the counters stay ahead of every stored key.
\<close>

theorem append_deltas_in_order:
  assumes "rocksdb R view pend" and "append_deltas R i vs s = (Ok seqs, s')"
    and "delta_inv (view (kv_db s)) (seq_of s)" and "unat (seq_of s i) + length vs < 2 ^ 64"
  shows "pending (view (kv_db s')) = (pending (view (kv_db s)))(i := pending (view (kv_db s)) i @ vs) \<and>
    delta_inv (view (kv_db s')) (seq_of s') \<and>
    seqs = map (\<lambda>n. seq_of s i + of_nat n) [0..<length vs]"
proof -
  note p = pending_delta_writes [OF rocksdb.finite_view [OF assms(1)] assms(3,4)]
  have "wp (append_deltas R i vs) (\<lambda>r s'. \<forall>seqs. r = Ok seqs \<longrightarrow>
      view (kv_db s') = apply_writes (delta_writes i (seq_of s i) vs) (view (kv_db s)) \<and>
      seq_of s' = (seq_of s)(i := seq_of s i + of_nat (length vs)) \<and>
      seqs = map (\<lambda>n. seq_of s i + of_nat n) [0..<length vs]) s"
    by (rule rocksdb.wp_append_deltas [OF assms(1)]) (auto simp del: fun_upd_apply)
  from wpD [OF this assms(2)]
  have s': "view (kv_db s') = apply_writes (delta_writes i (seq_of s i) vs) (view (kv_db s))"
    "seq_of s' = (seq_of s)(i := seq_of s i + of_nat (length vs))"
    "seqs = map (\<lambda>n. seq_of s i + of_nat n) [0..<length vs]" by blast+
  show ?thesis unfolding s' using p by (intro conjI ext) auto
qed

lemma mem_delta_inv:
  assumes "list_all (\<lambda>((c, k), b). c = CF_DELTA_ENTRIES \<longrightarrow>
      (case decode_delta_key k of Ok (i, q) \<Rightarrow> length k = 17 \<and> q < sq i | _ \<Rightarrow> False)) (mem_kv d)"
  shows "delta_inv (mem_view d) sq"
  unfolding delta_inv_def
proof (intro allI impI)
  fix k b
  assume "mem_view d CF_DELTA_ENTRIES k = Some b"
  then have "((CF_DELTA_ENTRIES, k), b) \<in> set (mem_kv d)"
    by (auto simp: mem_view_def dest: map_of_SomeD)
  with assms have "case decode_delta_key k of Ok (i, q) \<Rightarrow> length k = 17 \<and> q < sq i | _ \<Rightarrow> False"
    by (auto simp: list_all_iff)
  then obtain i q where "decode_delta_key k = Ok (i, q)" "length k = 17" "q < sq i"
    by (auto split: outcome.splits)
  with decode_delta_key_Ok [of k i q] show "\<exists>i q. k = encode_delta_key i q \<and> q < sq i"
    by auto
qed

theorem append_deltas_in_order_witness:
  "\<exists>s'. append_deltas mem_rocks 1 [[3], [4]] sample_kv = (Ok [1, 2], s') \<and>
    pending (mem_view (kv_db s')) 1 = pending (mem_view (kv_db sample_kv)) 1 @ [[3], [4]] \<and>
    delta_inv (mem_view (kv_db s')) (seq_of s')"
proof -
  have "fst (append_deltas mem_rocks 1 [[3], [4]] sample_kv) = Ok [1, 2]" by code_simp
  note run = run_result [OF this]
  have inv: "delta_inv (mem_view (kv_db sample_kv)) (seq_of sample_kv)"
    by (rule mem_delta_inv) code_simp
  have "unat (seq_of sample_kv 1) + length [[3 :: u8], [4]] < 2 ^ 64"
    by (simp add: sample_kv_def seq_at_def)
  from run append_deltas_in_order [OF mem.rocksdb_axioms run inv this] show ?thesis
    by (intro exI [of _ "snd (append_deltas mem_rocks 1 [[3], [4]] sample_kv)"]) simp
qed

text \<open>
  C31. After a restart the counters are rebuilt from the stored deltas: when the recovery scan succeeds,
  every counter is above every stored sequence number of its inode (none of which is the largest
  64-bit number), so that new deltas never overwrite old ones.
\<close>

theorem recover_seqs_fresh:
  assumes "rocksdb R view pend" and "recover_seqs R s = (Ok (), s')"
    and keys: "\<forall>k b. view (kv_db s) CF_DELTA_ENTRIES k = Some b \<longrightarrow>
      (\<exists>i q. k = encode_delta_key i q \<and> q \<noteq> - 1)"
  shows "view (kv_db s') = view (kv_db s) \<and> delta_inv (view (kv_db s')) (seq_of s')"
proof -
  have "wp (recover_seqs R) (\<lambda>r s'. r = Ok () \<longrightarrow> view (kv_db s') = view (kv_db s) \<and>
      (\<forall>i q b. view (kv_db s) CF_DELTA_ENTRIES (encode_delta_key i q) = Some b \<longrightarrow>
         (\<exists>q' k b. seq_of s' i = q' + 1 \<and> q \<le> q' \<and>
            view (kv_db s) CF_DELTA_ENTRIES k = Some b \<and> decode_delta_key k = Ok (i, q')))) s"
    by (rule rocksdb.wp_recover_seqs [OF assms(1)]) (fastforce simp: seq_at_def)+
  from wpD [OF this assms(2)] have v: "view (kv_db s') = view (kv_db s)"
    and q: "\<And>i q b. view (kv_db s) CF_DELTA_ENTRIES (encode_delta_key i q) = Some b \<Longrightarrow>
      (\<exists>q' k b. seq_of s' i = q' + 1 \<and> q \<le> q' \<and>
         view (kv_db s) CF_DELTA_ENTRIES k = Some b \<and> decode_delta_key k = Ok (i, q'))" by auto
  have "q < seq_of s' i" if stored: "view (kv_db s) CF_DELTA_ENTRIES (encode_delta_key i q) = Some b" for i q b
  proof -
    obtain q' k c where q': "seq_of s' i = q' + 1" "q \<le> q'"
      and k: "view (kv_db s) CF_DELTA_ENTRIES k = Some c" "decode_delta_key k = Ok (i, q')"
      using q [OF stored] by blast
    with keys k(1) have "q' \<noteq> - 1" by auto
    with q' show ?thesis using less_plus1 [of q'] by simp
  qed
  with v keys show ?thesis unfolding delta_inv_def by metis
qed

theorem recover_seqs_fresh_witness:
  "\<exists>s'. recover_seqs mem_rocks sample_kv = (Ok (), s') \<and>
    delta_inv (mem_view (kv_db s')) (seq_of s')"
proof -
  have "fst (recover_seqs mem_rocks sample_kv) = Ok ()" by code_simp
  note run = run_result [OF this]
  have "\<forall>k b. mem_view (kv_db sample_kv) CF_DELTA_ENTRIES k = Some b \<longrightarrow>
      (\<exists>i q. k = encode_delta_key i q \<and> q \<noteq> - 1)"
    by (auto simp: sample_kv_def mem_view_def split: if_splits)
  from run recover_seqs_fresh [OF mem.rocksdb_axioms run this] show ?thesis by blast
qed

end
