(* ===== verification/Allocator.thy ===== *)
theory Allocator
  imports Rocks_Stores
begin

text \<open>
  \<^verbatim>\<open>src/storage/src/allocator.rs\<close>: the inode number allocator. Its state is the atomic counter; it
  talks to a \<^verbatim>\<open>dyn MetadataStore\<close>, so its operations take the store's operations as arguments.
  The contract of such a store is the locale \<open>metadata_store\<close>, which the RocksDB metadata store
  satisfies; the facts on persistence are proved once from the contract.
\<close>

section \<open>The metadata store interface\<close>

locale metadata_store =
  fixes get :: "bytes \<Rightarrow> ('s, bytes option) fs_op"
    and put :: "bytes \<Rightarrow> bytes \<Rightarrow> ('s, unit) fs_op"
    and del :: "bytes \<Rightarrow> ('s, unit) fs_op"
    and scan_pfx :: "bytes \<Rightarrow> ('s, (bytes \<times> bytes) list) fs_op"
    and contents :: "'s \<Rightarrow> bytes \<Rightarrow> bytes option"
  assumes get_law: "get k s = (g, s') \<Longrightarrow>
      contents s' = contents s \<and> g \<noteq> Panic q \<and> (\<forall>x. g = Ok x \<longrightarrow> x = contents s k)"
    and put_law: "put k v s = (u, s') \<Longrightarrow> u \<noteq> Panic q \<and>
      contents s' = (if u = Ok () then (contents s)(k \<mapsto> v) else contents s)"
    and del_law: "del k s = (u, s') \<Longrightarrow> u \<noteq> Panic q \<and>
      contents s' = (if u = Ok () then (contents s)(k := None) else contents s)"
    and scan_law: "scan_pfx k s = (kvs, s') \<Longrightarrow> contents s' = contents s \<and> kvs \<noteq> Panic q \<and>
      (\<forall>xs. kvs = Ok xs \<longrightarrow> xs = scan (contents s) k)"
    and finite_contents: "finite (dom (contents s))"

section \<open>InodeAllocator\<close>

definition ROOT_INODE :: inode where
  "ROOT_INODE = 1"

definition FIRST_ALLOC_INODE :: u64 where
  "FIRST_ALLOC_INODE = 2"

definition PERSIST_INTERVAL :: u64 where
  "PERSIST_INTERVAL = 64"

record InodeAllocator =
  ia_next :: u64

definition alloc_new :: InodeAllocator where
  "alloc_new = \<lparr>ia_next = FIRST_ALLOC_INODE\<rparr>"

definition alloc :: "InodeAllocator \<Rightarrow> inode \<times> InodeAllocator" where
  "alloc a = (ia_next a, a\<lparr>ia_next := ia_next a + 1\<rparr>)"

definition alloc_current :: "InodeAllocator \<Rightarrow> u64" where
  "alloc_current a = ia_next a"

definition alloc_persist :: "(bytes \<Rightarrow> bytes \<Rightarrow> ('s, unit) fs_op) \<Rightarrow> InodeAllocator \<Rightarrow> ('s, unit) fs_op" where
  "alloc_persist put a = put NEXT_INODE_KEY (to_be 8 (ia_next a))"

definition maybe_persist :: "(bytes \<Rightarrow> bytes \<Rightarrow> ('s, unit) fs_op) \<Rightarrow> InodeAllocator \<Rightarrow> ('s, unit) fs_op" where
  "maybe_persist put a =
     (let val = ia_next a in
      bind (when_op (val mod PERSIST_INTERVAL = 0) (put NEXT_INODE_KEY (to_be 8 val))) (\<lambda>_.
      ret ()))"

definition alloc_load :: "(bytes \<Rightarrow> ('s, bytes option) fs_op) \<Rightarrow> ('s, InodeAllocator) fs_op" where
  "alloc_load get =
     bind (get NEXT_INODE_KEY) (\<lambda>v.
     case v of
       Some bytes \<Rightarrow>
         (if length bytes \<noteq> 8 then
            throw (InvalidInput (''InodeAllocator: expected 8 bytes, got '' @ show_nat (length bytes)))
          else ret \<lparr>ia_next = from_be bytes\<rparr>)
     | None \<Rightarrow> ret alloc_new)"

text \<open>A run of allocations: the numbers handed out, in order.\<close>

fun alloc_run :: "nat \<Rightarrow> InodeAllocator \<Rightarrow> inode list \<times> InodeAllocator" where
  "alloc_run 0 a = ([], a)"
| "alloc_run (Suc n) a = (case alloc a of (i, a') \<Rightarrow> case alloc_run n a' of (is, a'') \<Rightarrow> (i # is, a''))"

lemma alloc_run_eq:
  "alloc_run n a = (map (\<lambda>k. ia_next a + of_nat k) [0..<n], a\<lparr>ia_next := ia_next a + of_nat n\<rparr>)"
proof (induction n arbitrary: a)
  case (Suc n)
  then show ?case
    by (simp add: alloc_def map_upt_Suc add.assoc del: upt_Suc)
qed simp

section \<open>Persistence, from the store's contract\<close>

context metadata_store
begin

lemma wp_get [wp_rules]:
  assumes "\<And>s'. contents s' = contents s \<Longrightarrow> Q (Ok (contents s k)) s'"
    and "\<And>e s'. contents s' = contents s \<Longrightarrow> Q (Err e) s'"
  shows "wp (get k) Q s"
proof (rule wpI)
  fix r s' assume "get k s = (r, s')"
  with get_law [OF this] assms show "Q r s'" by (cases r) auto
qed

lemma wp_put [wp_rules]:
  assumes "\<And>s'. contents s' = (contents s)(k \<mapsto> v) \<Longrightarrow> Q (Ok ()) s'"
    and "\<And>e s'. contents s' = contents s \<Longrightarrow> Q (Err e) s'"
  shows "wp (put k v) Q s"
proof (rule wpI)
  fix r s' assume "put k v s = (r, s')"
  with put_law [OF this] assms show "Q r s'" by (cases r) auto
qed

text \<open>What \<^verbatim>\<open>load\<close> returns is determined by the stored counter.\<close>

lemma load_result:
  assumes "alloc_load get s = (r, s')"
  shows "contents s' = contents s \<and> (\<forall>a. r = Ok a \<longrightarrow>
      a = (case contents s NEXT_INODE_KEY of None \<Rightarrow> alloc_new | Some b \<Rightarrow> \<lparr>ia_next = from_be b\<rparr>)) \<and>
    (\<forall>b. contents s NEXT_INODE_KEY = Some b \<longrightarrow> length b \<noteq> 8 \<longrightarrow> \<not> is_ok r)"
proof -
  have "wp (alloc_load get) (\<lambda>r s'. contents s' = contents s \<and> (\<forall>a. r = Ok a \<longrightarrow>
      a = (case contents s NEXT_INODE_KEY of None \<Rightarrow> alloc_new | Some b \<Rightarrow> \<lparr>ia_next = from_be b\<rparr>)) \<and>
    (\<forall>b. contents s NEXT_INODE_KEY = Some b \<longrightarrow> length b \<noteq> 8 \<longrightarrow> \<not> is_ok r)) s"
    unfolding alloc_load_def
    by (auto simp: wp_simps intro!: wp_get split: option.split)
  from wpD [OF this assms] show ?thesis .
qed

lemma persist_then_load:
  assumes "alloc_persist put a s = (Ok (), s1)" and "alloc_load get s1 = (r, s2)"
  shows "\<forall>a'. r = Ok a' \<longrightarrow> a' = a"
proof -
  have "contents s1 = (contents s)(NEXT_INODE_KEY \<mapsto> to_be 8 (ia_next a))"
    using put_law [OF assms(1) [unfolded alloc_persist_def]] by simp
  with load_result [OF assms(2)] show ?thesis by (auto simp: from_be_to_be)
qed

lemma maybe_persist_contents:
  assumes "maybe_persist put a s = (r, s')"
  shows "contents s' =
    (if ia_next a mod PERSIST_INTERVAL = 0 \<and> r = Ok ()
     then (contents s)(NEXT_INODE_KEY \<mapsto> to_be 8 (ia_next a)) else contents s)"
proof -
  have "wp (maybe_persist put a) (\<lambda>r s'. contents s' =
    (if ia_next a mod PERSIST_INTERVAL = 0 \<and> r = Ok ()
     then (contents s)(NEXT_INODE_KEY \<mapsto> to_be 8 (ia_next a)) else contents s)) s"
    unfolding maybe_persist_def Let_def by (auto simp: wp_simps intro!: wp_put)
  from wpD [OF this assms] show ?thesis .
qed

end

section \<open>The RocksDB metadata store meets the contract\<close>

context rocksdb
begin

lemma rocks_metadata_store:
  "metadata_store (meta_get R) (meta_put R) (meta_delete R) (meta_scan_prefix R)
     (\<lambda>s :: ('db, 'txn, 'z) kv_scheme. view (kv_db s) CF_INODES)"
proof
  fix k v q and s s' :: "('db, 'txn, 'z) kv_scheme" and r :: "bytes option FsResult"
    and u :: "unit FsResult" and x :: "(bytes \<times> bytes) list FsResult"
  show "finite (dom (view (kv_db s) CF_INODES))" by (rule finite_view)
  show "view (kv_db s') CF_INODES = view (kv_db s) CF_INODES \<and> r \<noteq> Panic q \<and>
      (\<forall>x. r = Ok x \<longrightarrow> x = view (kv_db s) CF_INODES k)" if "meta_get R k s = (r, s')"
    by (rule wpD [OF wp_meta_get that]) auto
  show "u \<noteq> Panic q \<and> view (kv_db s') CF_INODES =
      (if u = Ok () then (view (kv_db s) CF_INODES)(k \<mapsto> v) else view (kv_db s) CF_INODES)"
    if "meta_put R k v s = (u, s')"
    by (rule wpD [OF wp_meta_put that]) auto
  show "u \<noteq> Panic q \<and> view (kv_db s') CF_INODES =
      (if u = Ok () then (view (kv_db s) CF_INODES)(k := None) else view (kv_db s) CF_INODES)"
    if "meta_delete R k s = (u, s')"
    by (rule wpD [OF wp_meta_delete that]) auto
  show "view (kv_db s') CF_INODES = view (kv_db s) CF_INODES \<and> x \<noteq> Panic q \<and>
      (\<forall>xs. x = Ok xs \<longrightarrow> xs = scan (view (kv_db s) CF_INODES) k)" if "meta_scan_prefix R k s = (x, s')"
    by (rule wpD [OF wp_meta_scan_prefix that]) auto
qed

end

sublocale rocksdb \<subseteq> ms: metadata_store "meta_get R" "meta_put R" "meta_delete R" "meta_scan_prefix R"
  "\<lambda>s :: ('db, 'txn, 'z) kv_scheme. view (kv_db s) CF_INODES"
  by (rule rocks_metadata_store)

section \<open>Properties\<close>

text \<open>
  Inode numbers are unique within one run of the server: as long as the counter does not wrap,
  any number of allocations returns pairwise different numbers, none of them below the counter at
  the start (so the reserved numbers 0 and 1 are never handed out by a fresh allocator).
\<close>

lemma alloc_unique:
  assumes "unat (ia_next a) + n \<le> 2 ^ 64"
  shows "distinct (fst (alloc_run n a)) \<and> length (fst (alloc_run n a)) = n \<and>
    list_all (\<lambda>i. ia_next a \<le> i \<and> unat i < unat (ia_next a) + n) (fst (alloc_run n a))"
proof -
  have u: "unat (ia_next a + of_nat k) = unat (ia_next a) + k" if "k < n" for k
    using that assms by (simp add: unat_word_ariths unat_of_nat)
  have "inj_on (\<lambda>k. ia_next a + of_nat k) {0..<n}"
    by (intro inj_onI) (metis atLeastLessThan_iff add_left_cancel u)
  then show ?thesis
    by (simp add: alloc_run_eq distinct_map list_all_iff word_le_nat_alt u)
qed

text \<open>
  A counter that was persisted is the counter that is loaded; a stored counter of any other
  length than eight bytes is refused; and an empty store yields the fresh allocator.
\<close>

lemma alloc_persist_load:
  assumes "rocksdb R view pend"
    and "alloc_persist (meta_put R) a s = (Ok (), s1)" and "alloc_load (meta_get R) s1 = (Ok a', s2)"
    and "alloc_load (meta_get R) t = (r, t')"
  shows "a' = a \<and>
    (view (kv_db t) CF_INODES NEXT_INODE_KEY = None \<longrightarrow> is_ok r \<longrightarrow> r = Ok alloc_new) \<and>
    (\<forall>b. view (kv_db t) CF_INODES NEXT_INODE_KEY = Some b \<longrightarrow> length b \<noteq> 8 \<longrightarrow> \<not> is_ok r)"
proof -
  note ms = rocksdb.rocks_metadata_store [OF assms(1)]
  have "a' = a" using metadata_store.persist_then_load [OF ms assms(2,3)] by simp
  moreover note metadata_store.load_result [OF ms assms(4)]
  ultimately show ?thesis by (cases r) auto
qed

definition empty_kv :: "(mem_db, mem_txn) kv" where
  "empty_kv = \<lparr>kv_db = \<lparr>mem_kv = [], mem_faults = []\<rparr>, kv_txn = [], kv_seqs = Map.empty\<rparr>"

text \<open>
  C32. Persisting only every 64 allocations loses live inode numbers, not unused ones: if the stored counter is
  up to date, a number is allocated, and the counter does not reach a multiple of 64, then a
  restart (loading the stored counter) hands out the same number again.
\<close>

theorem restart_reissues_inode:
  assumes "rocksdb R view pend"
    and "view (kv_db s) CF_INODES NEXT_INODE_KEY = Some (to_be 8 (ia_next a))"
    and "alloc a = (i, a')" and "ia_next a' mod PERSIST_INTERVAL \<noteq> 0"
    and "maybe_persist (meta_put R) a' s = (Ok (), s1)"
    and "alloc_load (meta_get R) s1 = (Ok b, s2)"
  shows "fst (alloc b) = i"
proof -
  note ms = rocksdb.rocks_metadata_store [OF assms(1)]
  have "view (kv_db s1) CF_INODES = view (kv_db s) CF_INODES"
    using metadata_store.maybe_persist_contents [OF ms assms(5)] assms(4) by simp
  with metadata_store.load_result [OF ms assms(6)] assms(2,3) show ?thesis
    by (auto simp: alloc_def from_be_to_be)
qed

theorem restart_reissues_inode_witness:
  "\<exists>s1 s2. maybe_persist (meta_put mem_rocks) \<lparr>ia_next = 65\<rparr>
      (empty_kv\<lparr>kv_db := \<lparr>mem_kv = [((CF_INODES, NEXT_INODE_KEY), to_be 8 (64 :: u64))], mem_faults = []\<rparr>\<rparr>) = (Ok (), s1) \<and>
    alloc_load (meta_get mem_rocks) s1 = (Ok \<lparr>ia_next = 64\<rparr>, s2) \<and>
    alloc \<lparr>ia_next = 64\<rparr> = (64, \<lparr>ia_next = 65\<rparr>)"
proof -
  let ?a = "\<lparr>ia_next = 65\<rparr> :: InodeAllocator"
  let ?s = "empty_kv\<lparr>kv_db := \<lparr>mem_kv = [((CF_INODES, NEXT_INODE_KEY), to_be 8 (64 :: u64))], mem_faults = []\<rparr>\<rparr>"
  let ?s1 = "snd (maybe_persist (meta_put mem_rocks) ?a ?s)"
  have "fst (maybe_persist (meta_put mem_rocks) ?a ?s) = Ok ()" by code_simp
  note p = run_result [OF this]
  have "fst (alloc_load (meta_get mem_rocks) ?s1) = Ok \<lparr>ia_next = 64\<rparr>" by code_simp
  note l = run_result [OF this]
  have "fst (alloc \<lparr>ia_next = 64\<rparr>) = 64"
    by (rule restart_reissues_inode [OF mem.rocksdb_axioms _ _ _ p l, of "\<lparr>ia_next = 64\<rparr>"])
      (simp_all add: mem_view_def alloc_def PERSIST_INTERVAL_def)
  with p l show ?thesis by (auto simp: alloc_def)
qed

end
