(* ===== verification/Delta.thy ===== *)
theory Delta
  imports Encoding "HOL-Library.Multiset"
begin

text \<open>
  \<^verbatim>\<open>src/server/src/delta.rs\<close>: incremental attribute updates, their binary encoding, and the fold
  that applies a sequence of them to a base inode value. The lemmas give the round trip of the
  codec, what the fold computes field by field, and that folding can be split (compaction) and
  reordered (concurrent writers) as long as the link count stays in range.
\<close>

section \<open>Delta operations\<close>

text \<open>An \<^verbatim>\<open>i32\<close> is a 32-bit word read with \<open>sint\<close>.\<close>

type_synonym i32 = "32 word"

datatype DeltaOp =
    IncrementNlink i32
  | SetMtime u64
  | SetCtime u64
  | SetAtime u64

definition OP_INCREMENT_NLINK :: u8 where
  "OP_INCREMENT_NLINK = 1"

definition OP_SET_MTIME :: u8 where
  "OP_SET_MTIME = 2"

definition OP_SET_CTIME :: u8 where
  "OP_SET_CTIME = 3"

definition OP_SET_ATIME :: u8 where
  "OP_SET_ATIME = 4"

lemmas op_tag_defs =
  OP_INCREMENT_NLINK_def OP_SET_MTIME_def OP_SET_CTIME_def OP_SET_ATIME_def

fun serialize_delta :: "DeltaOp \<Rightarrow> bytes" where
  "serialize_delta (IncrementNlink n) = OP_INCREMENT_NLINK # to_be 4 n"
| "serialize_delta (SetMtime t) = OP_SET_MTIME # to_be 8 t"
| "serialize_delta (SetCtime t) = OP_SET_CTIME # to_be 8 t"
| "serialize_delta (SetAtime t) = OP_SET_ATIME # to_be 8 t"

definition short_payload :: "string \<Rightarrow> nat \<Rightarrow> bytes \<Rightarrow> DeltaOp FsResult" where
  "short_payload what n payload =
     Err (InvalidInput (''DeltaOp::'' @ what @ '': expected '' @ show_nat n
                        @ '' payload bytes, got '' @ show_nat (length payload)))"

definition deserialize_delta :: "bytes \<Rightarrow> DeltaOp FsResult" where
  "deserialize_delta data =
     (case data of
        [] \<Rightarrow> Err (InvalidInput ''DeltaOp: empty data'')
      | op_type # payload \<Rightarrow>
          (if op_type = OP_INCREMENT_NLINK then
             (if length payload < 4 then short_payload ''IncrementNlink'' 4 payload
              else Ok (IncrementNlink (from_be (take 4 payload))))
           else if op_type = OP_SET_MTIME then
             (if length payload < 8 then short_payload ''SetMtime'' 8 payload
              else Ok (SetMtime (from_be (take 8 payload))))
           else if op_type = OP_SET_CTIME then
             (if length payload < 8 then short_payload ''SetCtime'' 8 payload
              else Ok (SetCtime (from_be (take 8 payload))))
           else if op_type = OP_SET_ATIME then
             (if length payload < 8 then short_payload ''SetAtime'' 8 payload
              else Ok (SetAtime (from_be (take 8 payload))))
           else Err (InvalidInput (''DeltaOp: unknown op_type '' @ show_nat (unat op_type)))))"

section \<open>Folding\<close>

text \<open>
  One iteration of the loop of \<^verbatim>\<open>fold_deltas\<close>. The link count is computed in \<^verbatim>\<open>i64\<close>, where the sum
  of a \<^verbatim>\<open>u32\<close> and an \<^verbatim>\<open>i32\<close> cannot overflow, clamped at 0 and truncated to 32 bits.
\<close>

fun apply_delta_op :: "InodeValue \<Rightarrow> DeltaOp \<Rightarrow> InodeValue" where
  "apply_delta_op base (IncrementNlink n) =
     base\<lparr>iv_nlink := word_of_int (max 0 (uint (iv_nlink base) + sint n))\<rparr>"
| "apply_delta_op base (SetMtime t) = base\<lparr>iv_mtime := max (iv_mtime base) t\<rparr>"
| "apply_delta_op base (SetCtime t) = base\<lparr>iv_ctime := max (iv_ctime base) t\<rparr>"
| "apply_delta_op base (SetAtime t) = base\<lparr>iv_atime := max (iv_atime base) t\<rparr>"

fun fold_deltas :: "InodeValue \<Rightarrow> DeltaOp list \<Rightarrow> InodeValue" where
  "fold_deltas base [] = base"
| "fold_deltas base (d # ds) = fold_deltas (apply_delta_op base d) ds"

section \<open>The codec\<close>

lemma deserialize_serialize_delta [simp]:
  "deserialize_delta (serialize_delta d @ rest) = Ok d"
  by (cases d) (simp_all add: deserialize_delta_def op_tag_defs from_be_to_be)

lemma deserialize_serialize_delta' [simp]: "deserialize_delta (serialize_delta d) = Ok d"
  using deserialize_serialize_delta [of d "[]"] by simp

lemma from_be_take:
  assumes "n \<le> length bs" and "8 * n = LENGTH('a::len)"
  shows "to_be n (from_be (take n bs) :: 'a word) = take n bs"
  using assms by (intro to_be_from_be) auto

lemma deserialize_delta_Ok:
  "deserialize_delta data = Ok d \<Longrightarrow> \<exists>rest. data = serialize_delta d @ rest"
  by (cases data)
    (auto simp: deserialize_delta_def short_payload_def from_be_take split: if_splits
      intro: exI [of _ "drop 4 (tl data)"] exI [of _ "drop 8 (tl data)"])

text \<open>
  The delta codec is exact: decoding yields \<open>d\<close> precisely on the inputs that start with the
  encoding of \<open>d\<close>. Hence every delta that was written is read back as written (negative link
  increments included), a truncated payload or an unknown tag is an error, and distinct deltas
  have distinct encodings.
\<close>

theorem delta_codec_exact:
  "deserialize_delta data = Ok d \<longleftrightarrow> (\<exists>rest. data = serialize_delta d @ rest)"
  using deserialize_delta_Ok by auto

section \<open>What the fold computes\<close>

lemma fold_deltas_append:
  "fold_deltas base (ds @ es) = fold_deltas (fold_deltas base ds) es"
  by (induction ds arbitrary: base) auto

lemma apply_delta_op_frame [simp]:
  "iv_version (apply_delta_op b d) = iv_version b"
  "iv_inode (apply_delta_op b d) = iv_inode b"
  "iv_size (apply_delta_op b d) = iv_size b"
  "iv_mode (apply_delta_op b d) = iv_mode b"
  "iv_uid (apply_delta_op b d) = iv_uid b"
  "iv_gid (apply_delta_op b d) = iv_gid b"
  by (cases d; simp)+

lemma fold_deltas_frame [simp]:
  "iv_version (fold_deltas b ds) = iv_version b"
  "iv_inode (fold_deltas b ds) = iv_inode b"
  "iv_size (fold_deltas b ds) = iv_size b"
  "iv_mode (fold_deltas b ds) = iv_mode b"
  "iv_uid (fold_deltas b ds) = iv_uid b"
  "iv_gid (fold_deltas b ds) = iv_gid b"
  by (induction ds arbitrary: b) simp_all

text \<open>The link count after each delta, as an integer, and the condition that it stays a \<^verbatim>\<open>u32\<close>.\<close>

fun nlink_change :: "DeltaOp \<Rightarrow> int" where
  "nlink_change (IncrementNlink n) = sint n"
| "nlink_change (SetMtime t) = 0"
| "nlink_change (SetCtime t) = 0"
| "nlink_change (SetAtime t) = 0"

fun nlink_in_range :: "int \<Rightarrow> DeltaOp list \<Rightarrow> bool" where
  "nlink_in_range n [] = (0 \<le> n \<and> n < 2 ^ 32)"
| "nlink_in_range n (d # ds) = (0 \<le> n \<and> n < 2 ^ 32 \<and> nlink_in_range (n + nlink_change d) ds)"

definition mtimes :: "DeltaOp list \<Rightarrow> u64 set" where
  "mtimes ds = {t. SetMtime t \<in> set ds}"

definition ctimes :: "DeltaOp list \<Rightarrow> u64 set" where
  "ctimes ds = {t. SetCtime t \<in> set ds}"

definition atimes :: "DeltaOp list \<Rightarrow> u64 set" where
  "atimes ds = {t. SetAtime t \<in> set ds}"

lemmas times_defs = mtimes_def ctimes_def atimes_def

lemma times_Nil [simp]: "mtimes [] = {}" "ctimes [] = {}" "atimes [] = {}"
  by (simp_all add: times_defs)

lemma times_Cons:
  "mtimes (d # ds) = (case d of SetMtime t \<Rightarrow> insert t (mtimes ds) | _ \<Rightarrow> mtimes ds)"
  "ctimes (d # ds) = (case d of SetCtime t \<Rightarrow> insert t (ctimes ds) | _ \<Rightarrow> ctimes ds)"
  "atimes (d # ds) = (case d of SetAtime t \<Rightarrow> insert t (atimes ds) | _ \<Rightarrow> atimes ds)"
  by (auto simp: times_defs split: DeltaOp.splits)

lemma finite_times [simp]: "finite (mtimes ds)" "finite (ctimes ds)" "finite (atimes ds)"
  by (induction ds) (auto simp: times_Cons split: DeltaOp.splits)

lemma Max_insert_max:
  "finite A \<Longrightarrow> Max (insert (max a t) A) = Max (insert a (insert t A))"
  by (cases "A = {}") (auto simp: max.assoc)

lemma fold_deltas_mtime: "iv_mtime (fold_deltas b ds) = Max (insert (iv_mtime b) (mtimes ds))"
proof (induction ds arbitrary: b)
  case (Cons d ds)
  show ?case by (cases d) (simp_all add: Cons times_Cons Max_insert_max)
qed simp

lemma fold_deltas_ctime: "iv_ctime (fold_deltas b ds) = Max (insert (iv_ctime b) (ctimes ds))"
proof (induction ds arbitrary: b)
  case (Cons d ds)
  show ?case by (cases d) (simp_all add: Cons times_Cons Max_insert_max)
qed simp

lemma fold_deltas_atime: "iv_atime (fold_deltas b ds) = Max (insert (iv_atime b) (atimes ds))"
proof (induction ds arbitrary: b)
  case (Cons d ds)
  show ?case by (cases d) (simp_all add: Cons times_Cons Max_insert_max)
qed simp

lemma nlink_in_rangeD: "nlink_in_range n ds \<Longrightarrow> 0 \<le> n \<and> n < 2 ^ 32"
  by (cases ds) auto

lemma uint_clamped: "0 \<le> x \<Longrightarrow> x < 2 ^ 32 \<Longrightarrow> uint (word_of_int (max 0 x) :: u32) = x"
  by (simp add: uint_word_of_int)

lemma apply_delta_nlink:
  assumes "nlink_in_range (uint (iv_nlink b)) (d # ds)"
  shows "uint (iv_nlink (apply_delta_op b d)) = uint (iv_nlink b) + nlink_change d"
proof (cases d)
  case (IncrementNlink n)
  with assms have "0 \<le> uint (iv_nlink b) + sint n" "uint (iv_nlink b) + sint n < 2 ^ 32"
    by (auto dest: nlink_in_rangeD)
  then have "uint (word_of_int (max 0 (uint (iv_nlink b) + sint n)) :: u32)
      = uint (iv_nlink b) + sint n"
    by (rule uint_clamped)
  with IncrementNlink show ?thesis by simp
qed simp_all

lemma fold_deltas_nlink:
  "nlink_in_range (uint (iv_nlink b)) ds \<Longrightarrow>
   uint (iv_nlink (fold_deltas b ds)) = uint (iv_nlink b) + sum_list (map nlink_change ds)"
proof (induction ds arbitrary: b)
  case (Cons d ds)
  then have "nlink_in_range (uint (iv_nlink (apply_delta_op b d))) ds"
    using apply_delta_nlink [OF Cons.prems] by simp
  from Cons.IH [OF this] show ?case
    using apply_delta_nlink [OF Cons.prems] by simp
qed simp

text \<open>
  The effective attributes of an inode: while the running link count stays a \<^verbatim>\<open>u32\<close>, folding
  adds up the link increments and takes, for each timestamp, the maximum of the base value and
  all deltas; the inode number, size, mode, owner, group and format version are untouched.
\<close>

lemma fold_deltas_spec:
  assumes "nlink_in_range (uint (iv_nlink b)) ds"
  shows "uint (iv_nlink (fold_deltas b ds)) = uint (iv_nlink b) + sum_list (map nlink_change ds)
    \<and> iv_mtime (fold_deltas b ds) = Max (insert (iv_mtime b) (mtimes ds))
    \<and> iv_ctime (fold_deltas b ds) = Max (insert (iv_ctime b) (ctimes ds))
    \<and> iv_atime (fold_deltas b ds) = Max (insert (iv_atime b) (atimes ds))
    \<and> (fold_deltas b ds)\<lparr>iv_nlink := iv_nlink b, iv_mtime := iv_mtime b,
         iv_ctime := iv_ctime b, iv_atime := iv_atime b\<rparr> = b"
  using assms
  by (simp add: fold_deltas_nlink fold_deltas_mtime fold_deltas_ctime fold_deltas_atime)

definition sample_dir :: InodeValue where
  "sample_dir = \<lparr> iv_version = 1, iv_inode = 42, iv_size = 0, iv_mode = 16877, iv_nlink = 2,
     iv_uid = 0, iv_gid = 0, iv_atime = 1000, iv_mtime = 1000, iv_ctime = 1000 \<rparr>"

lemma InodeValue_eqI:
  fixes u v :: InodeValue
  assumes "iv_version u = iv_version v" "iv_inode u = iv_inode v" "iv_size u = iv_size v"
    "iv_mode u = iv_mode v" "iv_nlink u = iv_nlink v" "iv_uid u = iv_uid v" "iv_gid u = iv_gid v"
    "iv_atime u = iv_atime v" "iv_mtime u = iv_mtime v" "iv_ctime u = iv_ctime v"
  shows "u = v"
  using assms by (simp add: InodeValue.equality)

lemma mset_times:
  assumes "mset ds = mset es"
  shows "mtimes ds = mtimes es" "ctimes ds = ctimes es" "atimes ds = atimes es"
  using mset_eq_setD [OF assms] by (simp_all add: times_defs)

text \<open>
  C27. Deltas commute: two orders of the same deltas give the same inode value, provided the
  running link count stays a \<^verbatim>\<open>u32\<close> in both. Concurrent writers that append to one parent
  directory therefore agree on its attributes whatever order their sequence numbers get.
\<close>

theorem fold_deltas_order_independent:
  assumes "mset ds = mset es"
    and "nlink_in_range (uint (iv_nlink b)) ds" and "nlink_in_range (uint (iv_nlink b)) es"
  shows "fold_deltas b ds = fold_deltas b es"
proof (rule InodeValue_eqI)
  have "sum_list (map nlink_change ds) = sum_list (map nlink_change es)"
    using assms(1) by (metis mset_map sum_mset_sum_list)
  then show "iv_nlink (fold_deltas b ds) = iv_nlink (fold_deltas b es)"
    using assms(2,3) by (simp add: fold_deltas_nlink word_uint_eq_iff)
qed (simp_all add: fold_deltas_mtime fold_deltas_ctime fold_deltas_atime mset_times [OF assms(1)])

theorem fold_deltas_order_independent_witness:
  "fold_deltas sample_dir [IncrementNlink 1, SetMtime 2000, IncrementNlink (-1)]
   = fold_deltas sample_dir [IncrementNlink (-1), IncrementNlink 1, SetMtime 2000]"
  by (rule fold_deltas_order_independent) (simp_all add: sample_dir_def add_mset_commute)

end
