(* ===== verification/Cache.thy ===== *)
theory Cache
  imports Delta "HOL-Library.Word"
begin

text \<open>
  \<^verbatim>\<open>src/server/src/cache.rs\<close>: the sharded cache of folded inode values. The bounded map inside each
  shard is the third-party \<^verbatim>\<open>lru\<close> crate, a parameter of the model: a record of the operations the
  cache calls and a locale with what their documentation promises (lookups agree with the entries,
  an insertion may drop other entries but never changes one, the capacity is never exceeded). A
  least-recently-used list is a reference instance of the contract. The lemmas say that the cache
  is a partial map in which \<^verbatim>\<open>put\<close> may forget other inodes.
\<close>

section \<open>The LRU map of the \<open>lru\<close> crate\<close>

text \<open>
  \<open>lru_get_mut k f\<close> is \<^verbatim>\<open>if let Some(v) = c.get_mut(&k) { f(v) }\<close>.
\<close>

record 'c lru =
  lru_new :: "nat \<Rightarrow> 'c"
  lru_get :: "inode \<Rightarrow> 'c \<Rightarrow> InodeValue option \<times> 'c"
  lru_put :: "inode \<Rightarrow> InodeValue \<Rightarrow> 'c \<Rightarrow> 'c"
  lru_get_mut :: "inode \<Rightarrow> (InodeValue \<Rightarrow> InodeValue) \<Rightarrow> 'c \<Rightarrow> 'c"
  lru_pop :: "inode \<Rightarrow> 'c \<Rightarrow> 'c"
  lru_len :: "'c \<Rightarrow> nat"

locale lru_cache =
  fixes L :: "'c lru"
    and entries :: "'c \<Rightarrow> inode \<Rightarrow> InodeValue option"
    and cap :: "'c \<Rightarrow> nat"
  assumes new_spec: "0 < n \<Longrightarrow> entries (lru_new L n) = Map.empty \<and> cap (lru_new L n) = n"
    and get_spec: "lru_get L k c = (g, c') \<Longrightarrow> g = entries c k \<and> entries c' = entries c \<and> cap c' = cap c"
    and put_spec: "entries (lru_put L k v c) k = Some v \<and>
      (j = k \<or> entries (lru_put L k v c) j = entries c j \<or> entries (lru_put L k v c) j = None) \<and>
      cap (lru_put L k v c) = cap c"
    and get_mut_spec: "entries (lru_get_mut L k f c) = (entries c)(k := map_option f (entries c k)) \<and>
      cap (lru_get_mut L k f c) = cap c"
    and pop_spec: "entries (lru_pop L k c) = (entries c)(k := None) \<and> cap (lru_pop L k c) = cap c"
    and finite_entries: "finite (dom (entries c))"
    and len_spec: "lru_len L c = card (dom (entries c))"
    and put_len: "0 < cap c \<Longrightarrow> lru_len L c \<le> cap c \<Longrightarrow> lru_len L (lru_put L k v c) \<le> cap c"

section \<open>InodeFoldedCache\<close>

definition NUM_SHARDS :: nat where
  "NUM_SHARDS = 16"

type_synonym 'c cache = "'c list"

text \<open>\<^verbatim>\<open>assert!(capacity > 0)\<close> is the precondition; a zero capacity panics.\<close>

definition cache_new :: "'c lru \<Rightarrow> nat \<Rightarrow> (FsError, 'c cache) outcome" where
  "cache_new L capacity =
     (if capacity = 0 then Panic ''cache capacity must be > 0''
      else let per_shard = max (capacity div NUM_SHARDS) 1 in
           Ok (map (\<lambda>_. lru_new L per_shard) [0..<NUM_SHARDS]))"

definition shard_index :: "inode \<Rightarrow> nat" where
  "shard_index inode = (let hash = inode * 0x9E3779B97F4A7C15 in unat (drop_bit 60 hash))"

definition cache_get :: "'c lru \<Rightarrow> inode \<Rightarrow> 'c cache \<Rightarrow> InodeValue option \<times> 'c cache" where
  "cache_get L inode shards =
     (let idx = shard_index inode in
      case lru_get L inode (shards ! idx) of (v, shard) \<Rightarrow> (v, shards[idx := shard]))"

definition cache_put :: "'c lru \<Rightarrow> inode \<Rightarrow> InodeValue \<Rightarrow> 'c cache \<Rightarrow> 'c cache" where
  "cache_put L inode value shards =
     (let idx = shard_index inode in shards[idx := lru_put L inode value (shards ! idx)])"

definition cache_apply_delta :: "'c lru \<Rightarrow> inode \<Rightarrow> DeltaOp \<Rightarrow> 'c cache \<Rightarrow> 'c cache" where
  "cache_apply_delta L inode d shards =
     (let idx = shard_index inode in
      shards[idx := lru_get_mut L inode (\<lambda>val. fold_deltas val [d]) (shards ! idx)])"

definition cache_apply_deltas :: "'c lru \<Rightarrow> inode \<Rightarrow> DeltaOp list \<Rightarrow> 'c cache \<Rightarrow> 'c cache" where
  "cache_apply_deltas L inode deltas shards =
     (let idx = shard_index inode in
      shards[idx := lru_get_mut L inode (\<lambda>val. fold_deltas val deltas) (shards ! idx)])"

definition cache_invalidate :: "'c lru \<Rightarrow> inode \<Rightarrow> 'c cache \<Rightarrow> 'c cache" where
  "cache_invalidate L inode shards =
     (let idx = shard_index inode in shards[idx := lru_pop L inode (shards ! idx)])"

definition cache_len :: "'c lru \<Rightarrow> 'c cache \<Rightarrow> nat" where
  "cache_len L shards = sum_list (map (lru_len L) shards)"

section \<open>The cache as a map\<close>

lemma shard_index_less: "shard_index i < 16"
proof -
  have "unat (drop_bit 60 w) < 16" for w :: u64
  proof -
    have "unat w < 2 ^ 64" using unsigned_less [of w] by simp
    then have "drop_bit 60 (unat w) < 16" by (simp add: drop_bit_eq_div less_mult_imp_div_less)
    then show ?thesis by (simp only: unat_drop_bit_eq)
  qed
  then show ?thesis by (simp add: shard_index_def Let_def)
qed

text \<open>The value cached for an inode.\<close>

definition cached :: "('c \<Rightarrow> inode \<Rightarrow> InodeValue option) \<Rightarrow> 'c cache \<Rightarrow> inode \<Rightarrow> InodeValue option" where
  "cached entries shards i = entries (shards ! shard_index i) i"

context lru_cache
begin

abbreviation lookup :: "'c cache \<Rightarrow> inode \<Rightarrow> InodeValue option" where
  "lookup \<equiv> cached entries"

lemma lookup_new: "cache_new L n = Ok c \<Longrightarrow> lookup c = Map.empty \<and> length c = 16"
  using shard_index_less
  by (auto simp: cache_new_def NUM_SHARDS_def cached_def new_spec fun_eq_iff Let_def split: if_splits)

lemma lookup_get:
  assumes "cache_get L i c = (v, c')" and "length c = 16"
  shows "v = lookup c i \<and> lookup c' = lookup c \<and> length c' = 16"
proof -
  obtain w s where g: "lru_get L i (c ! shard_index i) = (w, s)" by fastforce
  from assms g get_spec [OF g] shard_index_less [of i] show ?thesis
    by (auto simp: cache_get_def cached_def Let_def nth_list_update fun_eq_iff)
qed

lemma lookup_put:
  assumes "length c = 16"
  shows "lookup (cache_put L i v c) i = Some v"
    and "j = i \<or> lookup (cache_put L i v c) j = lookup c j \<or> lookup (cache_put L i v c) j = None"
    and "length (cache_put L i v c) = 16"
  using assms put_spec [of i v "c ! shard_index i" j] shard_index_less [of i]
  by (auto simp: cache_put_def cached_def Let_def nth_list_update)

lemma lookup_apply_deltas:
  assumes "length c = 16"
  shows "lookup (cache_apply_deltas L i ds c) = (lookup c)(i := map_option (\<lambda>v. fold_deltas v ds) (lookup c i))"
    and "length (cache_apply_deltas L i ds c) = 16"
  using assms get_mut_spec shard_index_less [of i]
  by (auto simp: cache_apply_deltas_def cached_def Let_def nth_list_update fun_eq_iff)

lemma cache_apply_delta_eq: "cache_apply_delta L i d c = cache_apply_deltas L i [d] c"
  by (simp add: cache_apply_delta_def cache_apply_deltas_def)

lemma lookup_invalidate:
  assumes "length c = 16"
  shows "lookup (cache_invalidate L i c) = (lookup c)(i := None)"
    and "length (cache_invalidate L i c) = 16"
  using assms pop_spec shard_index_less [of i]
  by (auto simp: cache_invalidate_def cached_def Let_def nth_list_update fun_eq_iff)

end

section \<open>A reference instance: a least-recently-used list\<close>

text \<open>Most recently used first.\<close>

type_synonym lru_list = "nat \<times> (inode \<times> InodeValue) list"

definition list_remove :: "inode \<Rightarrow> (inode \<times> InodeValue) list \<Rightarrow> (inode \<times> InodeValue) list" where
  "list_remove k xs = filter (\<lambda>(j, _). j \<noteq> k) xs"

definition list_lru :: "lru_list lru" where
  "list_lru =
     \<lparr> lru_new = (\<lambda>n. (n, [])),
       lru_get = (\<lambda>k (n, xs). (map_of xs k, (n, case map_of xs k of None \<Rightarrow> xs | Some v \<Rightarrow> (k, v) # list_remove k xs))),
       lru_put = (\<lambda>k v (n, xs). (n, (k, v) # take (n - 1) (list_remove k xs))),
       lru_get_mut = (\<lambda>k f (n, xs). (n, case map_of xs k of None \<Rightarrow> xs | Some v \<Rightarrow> (k, f v) # list_remove k xs)),
       lru_pop = (\<lambda>k (n, xs). (n, list_remove k xs)),
       lru_len = (\<lambda>(n, xs). length (remdups (map fst xs))) \<rparr>"

definition list_entries :: "lru_list \<Rightarrow> inode \<Rightarrow> InodeValue option" where
  "list_entries c = map_of (snd c)"

lemma map_of_list_remove [simp]: "map_of (list_remove k xs) = (map_of xs)(k := None)"
  by (induction xs) (auto simp: list_remove_def fun_eq_iff)

lemma map_of_take: "map_of (take n xs) k = map_of xs k \<or> map_of (take n xs) k = None"
proof (induction xs arbitrary: n)
  case (Cons x xs)
  then show ?case by (cases n) auto
qed simp

lemma length_remdups_keys: "length (remdups (map fst xs)) = card (dom (map_of xs))"
  by (simp add: length_remdups_card_conv dom_map_of_conv_image_fst)

interpretation list_lru: lru_cache list_lru list_entries fst
proof
  fix c c' :: lru_list and k j v f g and n :: nat
  obtain m xs where c: "c = (m, xs)" by (cases c)
  show "0 < n \<Longrightarrow> list_entries (lru_new list_lru n) = Map.empty \<and> fst (lru_new list_lru n) = n"
    by (simp add: list_lru_def list_entries_def)
  show "lru_get list_lru k c = (g, c') \<Longrightarrow> g = list_entries c k \<and> list_entries c' = list_entries c \<and> fst c' = fst c"
    by (auto simp: c list_lru_def list_entries_def split: option.splits)
  show "list_entries (lru_put list_lru k v c) k = Some v \<and>
      (j = k \<or> list_entries (lru_put list_lru k v c) j = list_entries c j \<or>
        list_entries (lru_put list_lru k v c) j = None) \<and> fst (lru_put list_lru k v c) = fst c"
    using map_of_take [of "m - 1" "list_remove k xs" j] by (auto simp: c list_lru_def list_entries_def)
  show "list_entries (lru_get_mut list_lru k f c) = (list_entries c)(k := map_option f (list_entries c k)) \<and>
      fst (lru_get_mut list_lru k f c) = fst c"
    by (auto simp: c list_lru_def list_entries_def fun_eq_iff split: option.splits)
  show "list_entries (lru_pop list_lru k c) = (list_entries c)(k := None) \<and> fst (lru_pop list_lru k c) = fst c"
    by (simp add: c list_lru_def list_entries_def)
  show "finite (dom (list_entries c))" by (simp add: list_entries_def finite_dom_map_of)
  show "lru_len list_lru c = card (dom (list_entries c))"
    by (simp add: c list_lru_def list_entries_def length_remdups_keys)
  have "length (remdups (map fst ((k, v) # take (m - 1) (list_remove k xs)))) \<le> Suc (m - 1)"
    by (rule order_trans [OF length_remdups_leq]) simp
  then show "0 < fst c \<Longrightarrow> lru_len list_lru c \<le> fst c \<Longrightarrow> lru_len list_lru (lru_put list_lru k v c) \<le> fst c"
    by (simp add: c list_lru_def)
qed

section \<open>Properties\<close>

text \<open>
  C33. The cache is a partial map that may forget but never lies: every inode goes to one of the 16
  shards; a new cache is empty; \<^verbatim>\<open>get\<close> returns what the map holds and does not change it; after
  \<^verbatim>\<open>put\<close> the inode has the new value and every other inode that is still cached has its old one;
  \<^verbatim>\<open>apply_deltas\<close> folds into the entry of that inode if there is one and \<^verbatim>\<open>invalidate\<close> removes it.
\<close>

theorem cache_is_map:
  assumes "lru_cache L entries cap" and "length c = 16"
  shows "shard_index i < length c \<and>
    (\<forall>c0. cache_new L n = Ok c0 \<longrightarrow> cached entries c0 = Map.empty \<and> length c0 = 16) \<and>
    fst (cache_get L i c) = cached entries c i \<and>
    cached entries (snd (cache_get L i c)) = cached entries c \<and>
    cached entries (cache_put L i v c) i = Some v \<and>
    (\<forall>j. j \<noteq> i \<longrightarrow> cached entries (cache_put L i v c) j = cached entries c j \<or>
       cached entries (cache_put L i v c) j = None) \<and>
    cached entries (cache_apply_deltas L i ds c) =
      (cached entries c)(i := map_option (\<lambda>w. fold_deltas w ds) (cached entries c i)) \<and>
    cached entries (cache_invalidate L i c) = (cached entries c)(i := None)"
proof -
  note facts = lru_cache.lookup_get [OF assms(1) surjective_pairing assms(2), of i]
    lru_cache.lookup_put(1) [OF assms, of i v] lru_cache.lookup_apply_deltas(1) [OF assms, of i ds]
    lru_cache.lookup_invalidate(1) [OF assms, of i]
  have "cached entries (cache_put L i v c) j = cached entries c j \<or>
      cached entries (cache_put L i v c) j = None" if "j \<noteq> i" for j
    using lru_cache.lookup_put(2) [OF assms, of j i v] that by simp
  moreover have "cached entries c0 = Map.empty \<and> length c0 = 16" if "cache_new L n = Ok c0" for c0
    using that by (rule lru_cache.lookup_new [OF assms(1)])
  moreover have "shard_index i < length c" using assms(2) shard_index_less by simp
  ultimately show ?thesis using facts by blast
qed

theorem cache_is_map_witness:
  "\<exists>c. cache_new list_lru 16 = Ok c \<and> length c = 16 \<and> cached list_entries c = Map.empty \<and>
    cached list_entries (cache_put list_lru 5 sample_dir c) 5 = Some sample_dir"
proof -
  let ?c = "map (\<lambda>_. lru_new list_lru 1) [0..<16]"
  have n: "cache_new list_lru 16 = Ok ?c" by (simp add: cache_new_def NUM_SHARDS_def)
  have "length ?c = 16" by simp
  from cache_is_map [OF list_lru.lru_cache_axioms this, of 5 16 sample_dir] n this show ?thesis by blast
qed

end
