(* ===== verification/Compaction.thy ===== *)
theory Compaction
  imports Rocks_Stores Cache
begin

text \<open>
  \<^verbatim>\<open>src/server/src/compaction.rs\<close>: the worker that merges pending deltas into the stored inode value.
  Its state extends the stores by the shared cache, the dirty set, the running and notification
  flags and the configuration. The order in which \<^verbatim>\<open>HashSet::drain\<close> yields the dirty inodes is a
  parameter (\<open>ord\<close>). Mutex poisoning is not modelled: no thread panics while it holds one of these
  locks. The theorems say that compaction never changes the effective attributes of any inode, also
  when new deltas arrive between its scan and its commit.
\<close>

record CompactionConfig =
  interval_ms :: u64
  delta_threshold :: nat

definition DEFAULT_INTERVAL_MS :: u64 where
  "DEFAULT_INTERVAL_MS = 5000"

definition DEFAULT_DELTA_THRESHOLD :: nat where
  "DEFAULT_DELTA_THRESHOLD = 32"

definition compaction_config_default :: CompactionConfig where
  "compaction_config_default =
     \<lparr>interval_ms = DEFAULT_INTERVAL_MS, delta_threshold = DEFAULT_DELTA_THRESHOLD\<rparr>"

record ('db, 'txn, 'c) worker = "('db, 'txn) kv" +
  cw_cache :: "'c cache"
  cw_dirty :: "inode set"
  cw_running :: bool
  cw_notify_flag :: bool
  cw_config :: CompactionConfig

section \<open>Dirty set and flags\<close>

definition mark_dirty :: "inode \<Rightarrow> (('db, 'txn, 'c, 'z) worker_scheme, unit) fs_op" where
  "mark_dirty inode =
     modify (\<lambda>s. let was_empty = (cw_dirty s = {}) in
       s\<lparr>cw_dirty := insert inode (cw_dirty s),
         cw_notify_flag := (if was_empty then True else cw_notify_flag s)\<rparr>)"

definition stop :: "(('db, 'txn, 'c, 'z) worker_scheme, unit) fs_op" where
  "stop = modify (\<lambda>s. s\<lparr>cw_running := False, cw_notify_flag := True\<rparr>)"

definition is_running :: "(('db, 'txn, 'c, 'z) worker_scheme, bool) fs_op" where
  "is_running = gets cw_running"

definition drain :: "(inode set \<Rightarrow> inode list) \<Rightarrow> (('db, 'txn, 'c, 'z) worker_scheme, inode list) fs_op" where
  "drain ord = (\<lambda>s. (Ok (ord (cw_dirty s)), s\<lparr>cw_dirty := {}\<rparr>))"

section \<open>Compacting one inode\<close>

definition decode_deltas :: "bytes list \<Rightarrow> DeltaOp list" where
  "decode_deltas raw = List.map_filter (\<lambda>b. ok_value (deserialize_delta b)) raw"

text \<open>Steps 2 to 6 of \<^verbatim>\<open>force_compact_inode\<close>, on the pairs its scan returned.\<close>

definition compact_pairs ::
  "('db, 'txn) rocks \<Rightarrow> 'c lru \<Rightarrow> inode \<Rightarrow> (bytes \<times> bytes) list
   \<Rightarrow> (('db, 'txn, 'c, 'z) worker_scheme, bool) fs_op" where
  "compact_pairs R L inode kv_pairs =
     bind (begin_write R) (\<lambda>_.
     let key = encode_inode_key inode in
     bind (get_for_update_inode R key) (\<lambda>v.
     case v of
       None \<Rightarrow> ret False
     | Some raw \<Rightarrow>
         bind (lift (deserialize raw)) (\<lambda>base.
         let base = fold_deltas base (decode_deltas (map snd kv_pairs)) in
         bind (push R (PutInode key (serialize base))) (\<lambda>_.
         bind (for_each (map (\<lambda>(dk, _). DeleteDelta dk) kv_pairs) (push R)) (\<lambda>_.
         match_op (commit R) (\<lambda>r.
         case r of
           Ok _ \<Rightarrow> bind (modify (\<lambda>s. s\<lparr>cw_cache := cache_invalidate L inode (cw_cache s)\<rparr>)) (\<lambda>_. ret True)
         | Err e \<Rightarrow> (if e = TransactionConflict then ret False else throw e)
         | Panic q \<Rightarrow> panic q))))))"

definition force_compact_inode ::
  "('db, 'txn) rocks \<Rightarrow> 'c lru \<Rightarrow> inode \<Rightarrow> (('db, 'txn, 'c, 'z) worker_scheme, bool) fs_op" where
  "force_compact_inode R L inode =
     bind (scan_deltas_with_keys R inode) (\<lambda>kv_pairs.
     if kv_pairs = [] then ret False else compact_pairs R L inode kv_pairs)"

definition compact_inode ::
  "('db, 'txn) rocks \<Rightarrow> 'c lru \<Rightarrow> inode \<Rightarrow> (('db, 'txn, 'c, 'z) worker_scheme, bool) fs_op" where
  "compact_inode R L inode =
     bind (scan_deltas R inode) (\<lambda>raw_deltas.
     if raw_deltas = [] then ret False
     else bind (gets cw_config) (\<lambda>config.
       if length raw_deltas < delta_threshold config then ret False
       else force_compact_inode R L inode))"

section \<open>Rounds and the loop\<close>

fun compact_dirty_loop ::
  "('db, 'txn) rocks \<Rightarrow> 'c lru \<Rightarrow> inode list \<Rightarrow> nat \<Rightarrow> (('db, 'txn, 'c, 'z) worker_scheme, nat) fs_op" where
  "compact_dirty_loop R L [] compacted = ret compacted"
| "compact_dirty_loop R L (inode # inodes) compacted =
     match_op (compact_inode R L inode) (\<lambda>r.
     if r = Ok True then compact_dirty_loop R L inodes (compacted + 1)
     else bind (mark_dirty inode) (\<lambda>_. compact_dirty_loop R L inodes compacted))"

definition compact_dirty ::
  "('db, 'txn) rocks \<Rightarrow> 'c lru \<Rightarrow> (inode set \<Rightarrow> inode list)
   \<Rightarrow> (('db, 'txn, 'c, 'z) worker_scheme, nat) fs_op" where
  "compact_dirty R L ord = bind (drain ord) (\<lambda>inodes. compact_dirty_loop R L inodes 0)"

fun flush_loop ::
  "('db, 'txn) rocks \<Rightarrow> 'c lru \<Rightarrow> inode list \<Rightarrow> nat \<Rightarrow> (('db, 'txn, 'c, 'z) worker_scheme, nat) fs_op" where
  "flush_loop R L [] compacted = ret compacted"
| "flush_loop R L (inode # inodes) compacted =
     match_op (force_compact_inode R L inode) (\<lambda>r.
     flush_loop R L inodes (if r = Ok True then compacted + 1 else compacted))"

definition flush_all ::
  "('db, 'txn) rocks \<Rightarrow> 'c lru \<Rightarrow> (inode set \<Rightarrow> inode list)
   \<Rightarrow> (('db, 'txn, 'c, 'z) worker_scheme, nat) fs_op" where
  "flush_all R L ord = bind (drain ord) (\<lambda>inodes. flush_loop R L inodes 0)"

text \<open>
  \<^verbatim>\<open>run_loop\<close>. The list \<open>waits\<close> gives what the other threads do to the state during each wait on the
  condition variable (between two of its rounds); \<open>None\<close> means that the loop is still running when
  the list is used up.
\<close>

fun run_loop_rounds ::
  "('db, 'txn) rocks \<Rightarrow> 'c lru \<Rightarrow> (inode set \<Rightarrow> inode list)
   \<Rightarrow> (('db, 'txn, 'c, 'z) worker_scheme \<Rightarrow> ('db, 'txn, 'c, 'z) worker_scheme) list
   \<Rightarrow> (('db, 'txn, 'c, 'z) worker_scheme, unit option) fs_op" where
  "run_loop_rounds R L ord [] = ret None"
| "run_loop_rounds R L ord (wait # waits) =
     bind is_running (\<lambda>running.
     if \<not> running then ret (Some ())
     else bind (modify wait) (\<lambda>_.
       bind (modify (\<lambda>s. s\<lparr>cw_notify_flag := False\<rparr>)) (\<lambda>_.
       bind is_running (\<lambda>still.
       if \<not> still then ret (Some ())
       else bind (ignore (compact_dirty R L ord)) (\<lambda>_. run_loop_rounds R L ord waits)))))"

definition run_loop ::
  "('db, 'txn) rocks \<Rightarrow> 'c lru \<Rightarrow> (inode set \<Rightarrow> inode list)
   \<Rightarrow> (('db, 'txn, 'c, 'z) worker_scheme \<Rightarrow> ('db, 'txn, 'c, 'z) worker_scheme) list
   \<Rightarrow> (('db, 'txn, 'c, 'z) worker_scheme, unit option) fs_op" where
  "run_loop R L ord waits =
     bind (modify (\<lambda>s. s\<lparr>cw_running := True\<rparr>)) (\<lambda>_.
     bind (run_loop_rounds R L ord waits) (\<lambda>finished.
     case finished of
       None \<Rightarrow> ret None
     | Some _ \<Rightarrow> bind (ignore (flush_all R L ord)) (\<lambda>_. ret (Some ()))))"

section \<open>Effective attributes\<close>

text \<open>The stored inode value, and the value with all pending deltas folded in.\<close>

definition stored :: "view \<Rightarrow> inode \<Rightarrow> InodeValue option" where
  "stored V i = (case V CF_INODES (encode_inode_key i) of None \<Rightarrow> None | Some b \<Rightarrow> ok_value (deserialize b))"

definition effective :: "view \<Rightarrow> inode \<Rightarrow> InodeValue option" where
  "effective V i = map_option (\<lambda>b. fold_deltas b (decode_deltas (pending V i))) (stored V i)"

lemma decode_deltas_append [simp]: "decode_deltas (xs @ ys) = decode_deltas xs @ decode_deltas ys"
  by (simp add: decode_deltas_def map_filter_def)

lemma decode_deltas_serialize [simp]: "decode_deltas (map serialize_delta ds) = ds"
  by (induction ds) (simp_all add: decode_deltas_def map_filter_def)

lemma decode_deltas_Nil [simp]: "decode_deltas [] = []"
  by (simp add: decode_deltas_def map_filter_def)

lemma deserialize_version: "deserialize b = Ok v \<Longrightarrow> iv_version v = FORMAT_VERSION"
  by (auto simp: deserialize_def split: if_splits)

lemma fold_deltas_version [simp]: "iv_version (fold_deltas b ds) = iv_version b"
  by simp

lemma sorted_list_of_set_filter:
  "finite A \<Longrightarrow> sorted_list_of_set {x \<in> A. P x} = filter P (sorted_list_of_set A)"
  by (rule sorted_distinct_set_unique) (auto intro: sorted_wrt_filter)

lemma scan_remove:
  assumes "finite (dom m)"
  shows "scan (\<lambda>k. if k \<in> K then None else m k) p = filter (\<lambda>(k, v). k \<notin> K) (scan m p)"
proof -
  let ?A = "{k \<in> dom m. prefix p k}"
  have "{k \<in> dom (\<lambda>k. if k \<in> K then None else m k). prefix p k} = {k \<in> ?A. k \<notin> K}"
    by (auto split: if_splits)
  then have "scan (\<lambda>k. if k \<in> K then None else m k) p =
      map (\<lambda>k. (k, the (if k \<in> K then None else m k))) (filter (\<lambda>k. k \<notin> K) (sorted_list_of_set ?A))"
    using assms by (simp only: scan_def) (subst sorted_list_of_set_filter [symmetric], auto)
  also have "\<dots> = filter (\<lambda>(k, v). k \<notin> K) (scan m p)"
    by (auto simp: scan_def filter_map comp_def)
  finally show ?thesis .
qed

text \<open>The contents after a compaction that folded \<open>kvs\<close> into the base value \<open>b\<close>.\<close>

definition compacted :: "inode \<Rightarrow> (bytes \<times> bytes) list \<Rightarrow> InodeValue \<Rightarrow> view \<Rightarrow> view" where
  "compacted i kvs b V =
     apply_writes (map (\<lambda>(k, _). (CF_DELTA_ENTRIES, k, None)) kvs)
       (upd CF_INODES (encode_inode_key i)
          (Some (serialize (fold_deltas b (decode_deltas (map snd kvs))))) V)"

lemma compacted_apply:
  "compacted i kvs b V c k =
     (if c = CF_DELTA_ENTRIES \<and> k \<in> fst ` set kvs then None
      else if c = CF_INODES \<and> k = encode_inode_key i
      then Some (serialize (fold_deltas b (decode_deltas (map snd kvs)))) else V c k)"
  by (auto simp: compacted_def apply_writes_deletes)

lemma delta_prefix_unique:
  "prefix (delta_prefix i) k \<Longrightarrow> prefix (delta_prefix j) k \<Longrightarrow> i = j"
  by (auto simp: prefix_def delta_prefix_def to_be_append_inject to_be_inject)

lemma pending_compacted:
  assumes fin: "finite (dom (V CF_DELTA_ENTRIES))"
    and sc: "scan (V CF_DELTA_ENTRIES) (delta_prefix i) = kvs @ rest"
  shows "pending (compacted i kvs b V) j = (if j = i then map snd rest else pending V j)"
proof -
  let ?K = "fst ` set kvs"
  have d: "compacted i kvs b V CF_DELTA_ENTRIES = (\<lambda>k. if k \<in> ?K then None else V CF_DELTA_ENTRIES k)"
    by (simp add: fun_eq_iff compacted_apply)
  have "distinct (map fst (kvs @ rest))" using distinct_scan sc by metis
  then have "fst x \<notin> ?K" if "x \<in> set rest" for x using that by force
  then have "filter (\<lambda>(k, v). k \<notin> ?K) rest = rest" by (intro filter_True) (simp add: case_prod_beta)
  moreover have "filter (\<lambda>(k, v). k \<notin> ?K) kvs = []" by (intro filter_False) force
  ultimately have own: "filter (\<lambda>(k, v). k \<notin> ?K) (kvs @ rest) = rest" by simp
  have "\<forall>(k, v) \<in> set (kvs @ rest). prefix (delta_prefix i) k"
    using scan_prefix [OF fin, of "delta_prefix i"] unfolding sc .
  have "k \<notin> ?K" if "prefix (delta_prefix j) k" "j \<noteq> i" for k
  proof
    assume "k \<in> ?K"
    then have "prefix (delta_prefix i) k" using \<open>\<forall>(k, v) \<in> set (kvs @ rest). prefix (delta_prefix i) k\<close> by auto
    with that show False using delta_prefix_unique by blast
  qed
  then have "filter (\<lambda>(k, v). k \<notin> ?K) (scan (V CF_DELTA_ENTRIES) (delta_prefix j)) =
      scan (V CF_DELTA_ENTRIES) (delta_prefix j)" if "j \<noteq> i"
    using that scan_prefix [OF fin, of "delta_prefix j"] by (intro filter_True) fast
  with own sc show ?thesis by (simp add: pending_def d scan_remove [OF fin])
qed

lemma stored_compacted:
  "iv_version b = FORMAT_VERSION \<Longrightarrow> stored (compacted i kvs b V) j =
     (if j = i then Some (fold_deltas b (decode_deltas (map snd kvs))) else stored V j)"
  by (simp add: stored_def compacted_apply)

lemma effective_compacted:
  assumes "finite (dom (V CF_DELTA_ENTRIES))"
    and "scan (V CF_DELTA_ENTRIES) (delta_prefix i) = kvs @ rest"
    and "V CF_INODES (encode_inode_key i) = Some raw" and "deserialize raw = Ok b"
  shows "effective (compacted i kvs b V) = effective V"
proof
  fix j
  have "stored V i = Some b" using assms(3,4) by (simp add: stored_def)
  with assms(1,2) deserialize_version [OF assms(4)]
  show "effective (compacted i kvs b V) j = effective V j"
    by (simp add: effective_def pending_compacted stored_compacted fold_deltas_append)
      (simp add: pending_def assms(2) fold_deltas_append)
qed

text \<open>
  What a compaction may do to the contents: effective attributes stay, records other than inode
  values and deltas stay, and for each inode either all its pending deltas stay or none is left
  beyond those that arrived meanwhile.
\<close>

definition compaction_rel :: "view \<Rightarrow> view \<Rightarrow> bool" where
  "compaction_rel V V' \<longleftrightarrow>
     effective V' = effective V \<and>
     (\<forall>c k. c \<noteq> CF_DELTA_ENTRIES \<longrightarrow> (\<forall>i. (c, k) \<noteq> (CF_INODES, encode_inode_key i)) \<longrightarrow> V' c k = V c k) \<and>
     (\<forall>k b. V' CF_DELTA_ENTRIES k = Some b \<longrightarrow> V CF_DELTA_ENTRIES k = Some b) \<and>
     (\<forall>j. pending V j = [] \<longrightarrow> pending V' j = [])"

lemma compaction_rel_refl [simp]: "compaction_rel V V"
  by (simp add: compaction_rel_def)

lemma compaction_rel_trans: "compaction_rel V W \<Longrightarrow> compaction_rel W X \<Longrightarrow> compaction_rel V X"
  by (simp add: compaction_rel_def)

lemma compaction_rel_pending: "compaction_rel V W \<Longrightarrow> pending V j = [] \<Longrightarrow> pending W j = []"
  by (simp add: compaction_rel_def)

lemma compaction_rel_compacted:
  assumes "finite (dom (V CF_DELTA_ENTRIES))"
    and "scan (V CF_DELTA_ENTRIES) (delta_prefix i) = kvs @ rest"
    and "V CF_INODES (encode_inode_key i) = Some raw" and "deserialize raw = Ok b"
  shows "compaction_rel V (compacted i kvs b V)"
  unfolding compaction_rel_def
proof (intro conjI allI impI)
  show "effective (compacted i kvs b V) = effective V"
    by (rule effective_compacted [OF assms])
  show "pending (compacted i kvs b V) j = []" if "pending V j = []" for j
    using that pending_compacted [where V = V, OF assms(1,2), of b j] assms(2)
    by (auto simp: pending_def split: if_splits)
qed (auto simp: compacted_apply split: if_splits)

definition compact_post ::
  "('db \<Rightarrow> view) \<Rightarrow> inode \<Rightarrow> ('db, 'txn, 'c, 'z) worker_scheme \<Rightarrow> bool FsResult
   \<Rightarrow> ('db, 'txn, 'c, 'z) worker_scheme \<Rightarrow> bool" where
  "compact_post view i s r s' \<longleftrightarrow>
     compaction_rel (view (kv_db s)) (view (kv_db s')) \<and> cw_dirty s' = cw_dirty s \<and>
     (r = Ok True \<longrightarrow> pending (view (kv_db s')) i = [])"

text \<open>The effect of a round over the inodes \<open>A\<close>.\<close>

definition round_post ::
  "('db \<Rightarrow> view) \<Rightarrow> inode set \<Rightarrow> ('db, 'txn, 'c, 'z) worker_scheme \<Rightarrow> nat FsResult
   \<Rightarrow> ('db, 'txn, 'c, 'z) worker_scheme \<Rightarrow> bool" where
  "round_post view A s r s' \<longleftrightarrow>
     compaction_rel (view (kv_db s)) (view (kv_db s')) \<and>
     cw_dirty s \<subseteq> cw_dirty s' \<and> cw_dirty s' \<subseteq> cw_dirty s \<union> A \<and>
     (is_ok r \<longrightarrow> (\<forall>i \<in> A. i \<in> cw_dirty s' \<or> pending (view (kv_db s')) i = []))"

section \<open>Contracts\<close>

lemma wp_mark_dirty [wp_simps]:
  "wp (mark_dirty i) Q s = Q (Ok ()) (s\<lparr>cw_dirty := insert i (cw_dirty s),
     cw_notify_flag := (cw_dirty s = {} \<or> cw_notify_flag s)\<rparr>)"
  by (cases "cw_dirty s = {}") (simp_all add: mark_dirty_def wp_simps Let_def)

lemma wp_drain [wp_simps]: "wp (drain ord) Q s = Q (Ok (ord (cw_dirty s))) (s\<lparr>cw_dirty := {}\<rparr>)"
  by (simp add: drain_def wp_def)

lemma wp_is_running [wp_simps]: "wp is_running Q s = Q (Ok (cw_running s)) s"
  by (simp add: is_running_def wp_simps)

context rocksdb
begin

lemma pushes_deletes:
  "map (batch_write \<circ> (\<lambda>(dk, _). DeleteDelta dk)) kvs = map (\<lambda>(k, _). (CF_DELTA_ENTRIES, k, None)) kvs"
  by (simp add: case_prod_beta)

lemma wp_compact_pairs:
  assumes folded: "\<And>d t raw b. view (kv_db s) CF_INODES (encode_inode_key i) = Some raw \<Longrightarrow>
      deserialize raw = Ok b \<Longrightarrow> view d = compacted i kvs b (view (kv_db s)) \<Longrightarrow>
      Q (Ok True) (s\<lparr>kv_db := d, kv_txn := t, cw_cache := cache_invalidate L i (cw_cache s)\<rparr>)"
    and other: "\<And>r d t. r \<noteq> Ok True \<Longrightarrow> view d = view (kv_db s) \<Longrightarrow> Q r (s\<lparr>kv_db := d, kv_txn := t\<rparr>)"
  shows "wp (compact_pairs R L i kvs) Q s"
proof -
  have fold: "apply_writes (map (\<lambda>(k, _). (CF_DELTA_ENTRIES, k, None)) kvs)
      (upd CF_INODES (encode_inode_key i) (Some (serialize (fold_deltas b (decode_deltas (map snd kvs)))))
        (view (kv_db s))) = compacted i kvs b (view (kv_db s))" for b
    by (simp add: compacted_def)
  show ?thesis
    unfolding compact_pairs_def Let_def
    by (auto simp: wp_simps andthen_case pushes_deletes fold
        intro!: wp_begin_write wp_get_for_update_inode wp_push wp_pushes wp_commit other
        split: option.split outcome.split) (rule folded, assumption+)
qed

lemma wp_force_compact_inode:
  assumes "\<And>d t raw b. view (kv_db s) CF_INODES (encode_inode_key i) = Some raw \<Longrightarrow>
      deserialize raw = Ok b \<Longrightarrow>
      view d = compacted i (scan (view (kv_db s) CF_DELTA_ENTRIES) (delta_prefix i)) b (view (kv_db s)) \<Longrightarrow>
      Q (Ok True) (s\<lparr>kv_db := d, kv_txn := t, cw_cache := cache_invalidate L i (cw_cache s)\<rparr>)"
    and other: "\<And>r d t. r \<noteq> Ok True \<Longrightarrow> view d = view (kv_db s) \<Longrightarrow> Q r (s\<lparr>kv_db := d, kv_txn := t\<rparr>)"
  shows "wp (force_compact_inode R L i) Q s"
proof -
  have other': "Q r (s\<lparr>kv_db := d\<rparr>)" if "r \<noteq> Ok True" "view d = view (kv_db s)" for r d
    using other [OF that, of "kv_txn s"] by simp
  show ?thesis
    unfolding force_compact_inode_def
    using assms by (auto simp: wp_simps intro!: wp_scan_deltas_with_keys wp_compact_pairs other')
qed

lemma compacting_scan:
  assumes "view (kv_db s) CF_INODES (encode_inode_key i) = Some raw" and "deserialize raw = Ok b"
    and d: "view d = compacted i (scan (view (kv_db s) CF_DELTA_ENTRIES) (delta_prefix i)) b (view (kv_db s))"
  shows "compaction_rel (view (kv_db s)) (view d) \<and> pending (view d) i = []"
proof -
  let ?V = "view (kv_db s)"
  have sc: "scan (?V CF_DELTA_ENTRIES) (delta_prefix i) = scan (?V CF_DELTA_ENTRIES) (delta_prefix i) @ []"
    by simp
  show ?thesis
    unfolding d
    using compaction_rel_compacted [where V = ?V, OF finite_view sc assms(1,2)]
      pending_compacted [where V = ?V, OF finite_view sc] by simp
qed

lemma wp_force_compact_post: "wp (force_compact_inode R L i) (compact_post view i s) s"
  by (rule wp_force_compact_inode) (auto simp: compact_post_def dest: compacting_scan)

lemma wp_compact_inode_post: "wp (compact_inode R L i) (compact_post view i s) s"
proof -
  have "wp (force_compact_inode R L i) (compact_post view i s) (s\<lparr>kv_db := d\<rparr>)"
    if "view d = view (kv_db s)" for d
    by (rule wp_mono [OF wp_force_compact_post]) (use that in \<open>auto simp: compact_post_def\<close>)
  then show ?thesis
    unfolding compact_inode_def
    by (auto simp: wp_simps compact_post_def [of view i s] intro!: wp_scan_deltas)
qed

lemma wp_compact_dirty_loop: "wp (compact_dirty_loop R L is n) (round_post view (set is) s) s"
proof (induction "is" arbitrary: n s)
  case (Cons i "is")
  have step: "round_post view (insert i (set is)) s r s'"
    if c: "compact_post view i s x s1" and rest: "round_post view (set is) s2 r s'"
      and s2: "kv_db s2 = kv_db s1" "cw_dirty s2 = (if x = Ok True then cw_dirty s1 else insert i (cw_dirty s1))"
    for x s1 s2 r s'
  proof -
    have "i \<in> cw_dirty s' \<or> pending (view (kv_db s')) i = []"
    proof (cases "x = Ok True")
      case True
      then show ?thesis
        using c rest s2(1) compaction_rel_pending unfolding compact_post_def round_post_def by metis
    next
      case False
      then show ?thesis using rest s2(2) unfolding round_post_def by auto
    qed
    moreover have "compaction_rel (view (kv_db s)) (view (kv_db s'))"
      using c rest s2(1) compaction_rel_trans unfolding compact_post_def round_post_def by metis
    moreover have "cw_dirty s \<subseteq> cw_dirty s'" "cw_dirty s' \<subseteq> cw_dirty s \<union> insert i (set is)"
      using c rest s2(2) unfolding compact_post_def round_post_def by (auto split: if_splits)
    ultimately show ?thesis
      using rest by (simp add: round_post_def)
  qed
  have bad: "round_post view (insert i (set is)) s (Panic q) s1" if "compact_post view i s (Panic q) s1" for q s1
    using that by (auto simp: compact_post_def round_post_def)
  have go: "wp (compact_dirty_loop R L is m) (round_post view (insert i (set is)) s) s2"
    if "compact_post view i s x s1" "kv_db s2 = kv_db s1"
      "cw_dirty s2 = (if x = Ok True then cw_dirty s1 else insert i (cw_dirty s1))" for x s1 s2 m
    by (rule wp_mono [OF Cons.IH]) (rule step [OF that(1) _ that(2,3)])
  show ?case
    unfolding compact_dirty_loop.simps wp_match_op
    by (rule wp_mono [OF wp_compact_inode_post])
      (auto split: outcome.splits simp: wp_simps intro!: bad elim!: go)
qed (simp add: wp_simps round_post_def)

lemma wp_compact_dirty:
  assumes "set (ord (cw_dirty s)) = cw_dirty s"
  shows "wp (compact_dirty R L ord) (\<lambda>r s'.
    compaction_rel (view (kv_db s)) (view (kv_db s')) \<and> cw_dirty s' \<subseteq> cw_dirty s \<and>
    (is_ok r \<longrightarrow> (\<forall>i \<in> cw_dirty s. i \<in> cw_dirty s' \<or> pending (view (kv_db s')) i = []))) s"
  unfolding compact_dirty_def
  by (simp add: wp_simps, rule wp_mono [OF wp_compact_dirty_loop]) (auto simp: round_post_def assms)

lemma wp_flush_loop:
  "wp (flush_loop R L is n) (\<lambda>r s'. compaction_rel (view (kv_db s)) (view (kv_db s')) \<and> cw_dirty s' = cw_dirty s) s"
proof (induction "is" arbitrary: n s)
  case (Cons i "is")
  have go: "wp (flush_loop R L is m) (\<lambda>r s'. compaction_rel (view (kv_db s)) (view (kv_db s')) \<and> cw_dirty s' = cw_dirty s) s1"
    if "compact_post view i s x s1" for x s1 m
    by (rule wp_mono [OF Cons.IH]) (use that in \<open>auto simp: compact_post_def intro: compaction_rel_trans\<close>)
  show ?case
    unfolding flush_loop.simps wp_match_op
    by (rule wp_mono [OF wp_force_compact_post])
      (auto split: outcome.splits elim!: go simp: compact_post_def [of view i s "Panic _"])
qed (simp add: wp_simps)

lemma wp_flush_all:
  "wp (flush_all R L ord) (\<lambda>r s'. compaction_rel (view (kv_db s)) (view (kv_db s')) \<and> cw_dirty s' = {}) s"
  unfolding flush_all_def
  by (simp add: wp_simps, rule wp_mono [OF wp_flush_loop]) auto

end

section \<open>Properties\<close>

text \<open>
  C14. Compacting an inode never changes what a reader sees, even if new deltas were appended after the
  worker's scan: when the pending deltas are those of the scan followed by later ones, the effective
  attributes of every inode stay the same; on success exactly the scanned deltas are gone, they are
  folded into the stored value, and the cache entry is dropped; on any other outcome, conflicts and
  errors included, the contents are untouched.
\<close>

theorem compaction_preserves_effective:
  assumes "rocksdb R view pend" and "lru_cache L entries cap" and "length (cw_cache s) = 16"
    and sc: "scan (view (kv_db s) CF_DELTA_ENTRIES) (delta_prefix i) = kvs @ rest"
    and "compact_pairs R L i kvs s = (r, s')"
  shows "effective (view (kv_db s')) = effective (view (kv_db s)) \<and>
    (r = Ok True \<longrightarrow>
       pending (view (kv_db s')) = (pending (view (kv_db s)))(i := map snd rest) \<and>
       stored (view (kv_db s')) i =
         map_option (\<lambda>b. fold_deltas b (decode_deltas (map snd kvs))) (stored (view (kv_db s)) i) \<and>
       cached entries (cw_cache s') = (cached entries (cw_cache s))(i := None)) \<and>
    (r \<noteq> Ok True \<longrightarrow> view (kv_db s') = view (kv_db s))"
proof -
  let ?V = "view (kv_db s)"
  note fin = rocksdb.finite_view [OF assms(1)]
  have "wp (compact_pairs R L i kvs) (\<lambda>r s'.
      (r = Ok True \<longrightarrow> (\<exists>raw b. ?V CF_INODES (encode_inode_key i) = Some raw \<and> deserialize raw = Ok b \<and>
         view (kv_db s') = compacted i kvs b ?V \<and> cw_cache s' = cache_invalidate L i (cw_cache s))) \<and>
      (r \<noteq> Ok True \<longrightarrow> view (kv_db s') = ?V)) s"
    by (rule rocksdb.wp_compact_pairs [OF assms(1)]) auto
  note post = wpD [OF this assms(5)]
  show ?thesis
  proof (cases "r = Ok True")
    case True
    with post obtain raw b where raw: "?V CF_INODES (encode_inode_key i) = Some raw"
      and b: "deserialize raw = Ok b" and v: "view (kv_db s') = compacted i kvs b ?V"
      and c: "cw_cache s' = cache_invalidate L i (cw_cache s)" by blast
    have "stored ?V i = Some b" using raw b by (simp add: stored_def)
    moreover have "pending (view (kv_db s')) = (pending ?V)(i := map snd rest)"
      unfolding v by (rule ext) (simp add: pending_compacted [where V = ?V, OF fin sc])
    ultimately show ?thesis
      using True effective_compacted [where V = ?V, OF fin sc raw b]
        stored_compacted [OF deserialize_version [OF b]]
        lru_cache.lookup_invalidate(1) [OF assms(2,3), of i]
      by (simp add: v c)
  next
    case False
    with post show ?thesis by simp
  qed
qed

definition sample_worker :: "(mem_db, mem_txn, lru_list) worker" where
  "sample_worker = \<lparr>kv_db = \<lparr>mem_kv =
       [((CF_INODES, encode_inode_key 1), serialize sample_dir),
        ((CF_DELTA_ENTRIES, encode_delta_key 1 0), serialize_delta (IncrementNlink 1)),
        ((CF_DELTA_ENTRIES, encode_delta_key 1 1), serialize_delta (SetMtime 9))],
      mem_faults = []\<rparr>, kv_txn = [], kv_seqs = (\<lambda>i. if i = 1 then Some 2 else None),
      cw_cache = replicate 16 (1, []), cw_dirty = {1}, cw_running = False, cw_notify_flag = True,
      cw_config = compaction_config_default\<rparr>"

theorem compaction_preserves_effective_witness:
  "\<exists>s'. compact_pairs mem_rocks list_lru 1 [(encode_delta_key 1 0, serialize_delta (IncrementNlink 1))]
      sample_worker = (Ok True, s') \<and>
    effective (mem_view (kv_db s')) = effective (mem_view (kv_db sample_worker)) \<and>
    pending (mem_view (kv_db s')) 1 = [serialize_delta (SetMtime 9)]"
proof -
  let ?kvs = "[(encode_delta_key 1 0, serialize_delta (IncrementNlink 1))]"
    and ?rest = "[(encode_delta_key 1 1, serialize_delta (SetMtime 9))]"
  have "fst (compact_pairs mem_rocks list_lru 1 ?kvs sample_worker) = Ok True" by code_simp
  note run = run_result [OF this]
  have sc: "scan (mem_view (kv_db sample_worker) CF_DELTA_ENTRIES) (delta_prefix 1) = ?kvs @ ?rest"
    unfolding mem_scan_eq' [symmetric] by code_simp
  have len: "length (cw_cache sample_worker) = 16" by (simp add: sample_worker_def)
  from run compaction_preserves_effective [OF mem.rocksdb_axioms list_lru.lru_cache_axioms len sc run]
  show ?thesis by (intro exI) auto
qed

text \<open>
  C34. A compaction round and a flush keep the effective attributes of every inode and all directory
  entries, also when single compactions fail; after a round that returns, an inode that was dirty is
  either still marked dirty or has no pending deltas left, so no inode is forgotten.
\<close>

theorem compaction_rounds_safe:
  assumes "rocksdb R view pend" and "set (ord (cw_dirty s)) = cw_dirty s"
    and "compact_dirty R L ord s = (r, s')" and "flush_all R L ord t = (f, t')"
  shows "effective (view (kv_db s')) = effective (view (kv_db s)) \<and>
    view (kv_db s') CF_DIR_ENTRIES = view (kv_db s) CF_DIR_ENTRIES \<and>
    (is_ok r \<longrightarrow> (\<forall>i. i \<in> cw_dirty s \<longrightarrow> i \<in> cw_dirty s' \<or> pending (view (kv_db s')) i = [])) \<and>
    effective (view (kv_db t')) = effective (view (kv_db t)) \<and>
    view (kv_db t') CF_DIR_ENTRIES = view (kv_db t) CF_DIR_ENTRIES"
proof -
  have d: "compaction_rel V V' \<Longrightarrow> effective V' = effective V \<and> V' CF_DIR_ENTRIES = V CF_DIR_ENTRIES" for V V'
    by (auto simp: compaction_rel_def)
  from wpD [OF rocksdb.wp_compact_dirty [where ord = ord and s = s, OF assms(1,2)] assms(3)]
    wpD [OF rocksdb.wp_flush_all [OF assms(1)] assms(4)]
  show ?thesis using d by blast
qed

theorem compaction_rounds_safe_witness:
  "\<exists>r s' f t'. compact_dirty mem_rocks list_lru sorted_list_of_set sample_worker = (r, s') \<and>
    flush_all mem_rocks list_lru sorted_list_of_set sample_worker = (f, t') \<and>
    effective (mem_view (kv_db s')) = effective (mem_view (kv_db sample_worker)) \<and>
    effective (mem_view (kv_db t')) = effective (mem_view (kv_db sample_worker))"
proof -
  let ?ord = "sorted_list_of_set :: inode set \<Rightarrow> inode list"
  have o: "set (?ord (cw_dirty sample_worker)) = cw_dirty sample_worker"
    by (simp add: sample_worker_def)
  obtain r s' where c: "compact_dirty mem_rocks list_lru ?ord sample_worker = (r, s')" by fastforce
  obtain f t' where fl: "flush_all mem_rocks list_lru ?ord sample_worker = (f, t')" by fastforce
  from compaction_rounds_safe [where ord = ?ord and s = sample_worker, OF mem.rocksdb_axioms o c fl] c fl
  show ?thesis by blast
qed

end
