(* ===== verification/Server.thy ===== *)
theory Server
  imports Allocator Compaction
begin

unbundle bit_operations_syntax

text \<open>
  \<^verbatim>\<open>src/server/src/lib.rs\<close>: the metadata server. Its state extends the compaction worker (which holds
  the stores and the shared cache) by the allocator, the open-handle counts, the inodes whose
  deletion is deferred, the default data location, and the wall clock: \<open>sv_clock n\<close> is the value of
  the \<open>n\<close>-th reading of the system time. Every operation of \<^verbatim>\<open>MetadataOps\<close> is one definition; the
  closure it hands to \<^verbatim>\<open>execute_with_retry\<close> is a definition of its own with the suffix \<open>_txn\<close>. The
  model is the default build (without the \<^verbatim>\<open>no_delta\<close> feature). Requests run one after the other;
  what concurrency can do to one request is visible in it as failing commits and retries.
\<close>

section \<open>State\<close>

record ('db, 'txn, 'c) server = "('db, 'txn, 'c) worker" +
  sv_default_loc :: DataLocation
  sv_alloc :: InodeAllocator
  sv_open_handles :: "inode \<Rightarrow> u32 option"
  sv_pending_deletes :: "inode set"
  sv_clock :: "nat \<Rightarrow> u64"
  sv_ticks :: nat

definition S_IFDIR :: u32 where
  "S_IFDIR = 0x4000"

definition S_IFREG :: u32 where
  "S_IFREG = 0x8000"

definition S_IFLNK :: u32 where
  "S_IFLNK = 0xA000"

definition now_secs :: "(('db, 'txn, 'c, 'z) server_scheme, u64) fs_op" where
  "now_secs s = (Ok (sv_clock s (sv_ticks s)), s\<lparr>sv_ticks := Suc (sv_ticks s)\<rparr>)"

definition TXN_MAX_RETRIES :: nat where
  "TXN_MAX_RETRIES = 3"

definition NAME_MAX :: nat where
  "NAME_MAX = 255"

definition validate_name :: "str \<Rightarrow> ('s, unit) fs_op" where
  "validate_name name = (if length name > NAME_MAX then throw NameTooLong else ret ())"

definition DEFAULT_CACHE_CAPACITY :: nat where
  "DEFAULT_CACHE_CAPACITY = 10000"

section \<open>The shared cache and the allocator as state\<close>

definition sc_get :: "'c lru \<Rightarrow> inode \<Rightarrow> (('db, 'txn, 'c, 'z) worker_scheme, InodeValue option) fs_op" where
  "sc_get L i s = (case cache_get L i (cw_cache s) of (v, c) \<Rightarrow> (Ok v, s\<lparr>cw_cache := c\<rparr>))"

definition sc_put :: "'c lru \<Rightarrow> inode \<Rightarrow> InodeValue \<Rightarrow> (('db, 'txn, 'c, 'z) worker_scheme, unit) fs_op" where
  "sc_put L i v = modify (\<lambda>s. s\<lparr>cw_cache := cache_put L i v (cw_cache s)\<rparr>)"

definition sc_apply_delta :: "'c lru \<Rightarrow> inode \<Rightarrow> DeltaOp \<Rightarrow> (('db, 'txn, 'c, 'z) worker_scheme, unit) fs_op" where
  "sc_apply_delta L i d = modify (\<lambda>s. s\<lparr>cw_cache := cache_apply_delta L i d (cw_cache s)\<rparr>)"

definition sc_apply_deltas :: "'c lru \<Rightarrow> inode \<Rightarrow> DeltaOp list \<Rightarrow> (('db, 'txn, 'c, 'z) worker_scheme, unit) fs_op" where
  "sc_apply_deltas L i ds = modify (\<lambda>s. s\<lparr>cw_cache := cache_apply_deltas L i ds (cw_cache s)\<rparr>)"

definition sc_invalidate :: "'c lru \<Rightarrow> inode \<Rightarrow> (('db, 'txn, 'c, 'z) worker_scheme, unit) fs_op" where
  "sc_invalidate L i = modify (\<lambda>s. s\<lparr>cw_cache := cache_invalidate L i (cw_cache s)\<rparr>)"

definition sv_alloc_inode :: "(('db, 'txn, 'c, 'z) server_scheme, inode) fs_op" where
  "sv_alloc_inode s = (case alloc (sv_alloc s) of (i, a) \<Rightarrow> (Ok i, s\<lparr>sv_alloc := a\<rparr>))"

definition sv_maybe_persist :: "('db, 'txn) rocks \<Rightarrow> (('db, 'txn, 'c, 'z) server_scheme, unit) fs_op" where
  "sv_maybe_persist R = bind (gets sv_alloc) (\<lambda>a. maybe_persist (meta_put R) a)"

section \<open>Construction\<close>

definition init_root :: "('db, 'txn) rocks \<Rightarrow> u32 \<Rightarrow> u32 \<Rightarrow> (('db, 'txn, 'c, 'z) server_scheme, unit) fs_op" where
  "init_root R uid gid =
     (let key = encode_inode_key ROOT_INODE in
      match_op (meta_get R key) (\<lambda>r.
      if r = Ok None then
        bind now_secs (\<lambda>ts.
        ignore (meta_put R key (serialize
          \<lparr>iv_version = 1, iv_inode = ROOT_INODE, iv_size = 0, iv_mode = S_IFDIR OR 0x1FF, iv_nlink = 2,
           iv_uid = uid, iv_gid = gid, iv_atime = ts, iv_mtime = ts, iv_ctime = ts\<rparr>)))
      else ret ()))"

text \<open>
  \<^verbatim>\<open>with_config\<close> on a freshly opened store: the allocator is restored (a failure starts a fresh one),
  the in-memory tables are empty.
\<close>

definition with_config ::
  "('db, 'txn) rocks \<Rightarrow> 'c lru \<Rightarrow> DataLocation \<Rightarrow> nat \<Rightarrow> CompactionConfig \<Rightarrow> u32 \<Rightarrow> u32 \<Rightarrow> (nat \<Rightarrow> u64)
   \<Rightarrow> ('db, 'txn) kv \<Rightarrow> (('db, 'txn, 'c) server) FsResult" where
  "with_config R L loc capacity config uid gid clock s0 =
     (case alloc_load (meta_get R) s0 of (r, s) \<Rightarrow>
      let allocator = (case r of Ok a \<Rightarrow> a | _ \<Rightarrow> alloc_new) in
      case cache_new L capacity of
        Panic q \<Rightarrow> Panic q
      | Err e \<Rightarrow> Err e
      | Ok cache \<Rightarrow>
          let server = \<lparr>kv_db = kv_db s, kv_txn = kv_txn s, kv_seqs = kv_seqs s,
             cw_cache = cache, cw_dirty = {}, cw_running = False, cw_notify_flag = False, cw_config = config,
             sv_default_loc = loc, sv_alloc = allocator, sv_open_handles = Map.empty,
             sv_pending_deletes = {}, sv_clock = clock, sv_ticks = 0\<rparr>
          in case init_root R uid gid server of
               (Panic q, _) \<Rightarrow> Panic q
             | (_, server') \<Rightarrow> Ok server')"

definition server_new ::
  "('db, 'txn) rocks \<Rightarrow> 'c lru \<Rightarrow> DataLocation \<Rightarrow> u32 \<Rightarrow> u32 \<Rightarrow> (nat \<Rightarrow> u64)
   \<Rightarrow> ('db, 'txn) kv \<Rightarrow> (('db, 'txn, 'c) server) FsResult" where
  "server_new R L loc = with_config R L loc DEFAULT_CACHE_CAPACITY compaction_config_default"

section \<open>Loading and deleting inodes\<close>

definition load_inode ::
  "('db, 'txn) rocks \<Rightarrow> 'c lru \<Rightarrow> inode \<Rightarrow> (('db, 'txn, 'c, 'z) server_scheme, InodeValue) fs_op" where
  "load_inode R L inode =
     bind (sc_get L inode) (\<lambda>hit.
     case hit of
       Some v \<Rightarrow> ret v
     | None \<Rightarrow>
         bind (meta_get R (encode_inode_key inode)) (\<lambda>raw.
         bind (case raw of Some bytes \<Rightarrow> lift (deserialize bytes) | None \<Rightarrow> throw NotFound) (\<lambda>iv.
         bind (scan_deltas R inode) (\<lambda>raw_deltas.
         let iv = (if raw_deltas \<noteq> [] then fold_deltas iv (decode_deltas raw_deltas) else iv) in
         bind (sc_put L inode iv) (\<lambda>_. ret iv)))))"

definition delete_inode ::
  "('db, 'txn) rocks \<Rightarrow> 'c lru \<Rightarrow> inode \<Rightarrow> (('db, 'txn, 'c, 'z) server_scheme, unit) fs_op" where
  "delete_inode R L inode =
     bind (meta_delete R (encode_inode_key inode)) (\<lambda>_.
     bind (ignore (clear_deltas R inode)) (\<lambda>_.
     sc_invalidate L inode))"

section \<open>Batch helpers\<close>

definition batch_put_inode ::
  "('db, 'txn) rocks \<Rightarrow> inode \<Rightarrow> InodeValue \<Rightarrow> (('db, 'txn, 'z) kv_scheme, unit) fs_op" where
  "batch_put_inode R inode val = push R (PutInode (encode_inode_key inode) (serialize val))"

definition batch_delete_inode :: "('db, 'txn) rocks \<Rightarrow> inode \<Rightarrow> (('db, 'txn, 'z) kv_scheme, unit) fs_op" where
  "batch_delete_inode R inode = push R (DeleteInode (encode_inode_key inode))"

definition batch_put_dir_entry ::
  "('db, 'txn) rocks \<Rightarrow> inode \<Rightarrow> str \<Rightarrow> inode \<Rightarrow> u32 \<Rightarrow> (('db, 'txn, 'z) kv_scheme, unit) fs_op" where
  "batch_put_dir_entry R parent name child_inode mode =
     push R (PutDirEntry (encode_dir_entry_key parent name) (to_be 8 child_inode @ to_be 4 mode))"

definition batch_delete_dir_entry ::
  "('db, 'txn) rocks \<Rightarrow> inode \<Rightarrow> str \<Rightarrow> (('db, 'txn, 'z) kv_scheme, unit) fs_op" where
  "batch_delete_dir_entry R parent name = push R (DeleteDirEntry (encode_dir_entry_key parent name))"

definition batch_put_data_location ::
  "('db, 'txn) rocks \<Rightarrow> inode \<Rightarrow> str \<Rightarrow> (('db, 'txn, 'z) kv_scheme, unit) fs_op" where
  "batch_put_data_location R inode sid = push R (PutDataLocation (encode_data_location_key inode) sid)"

definition batch_delete_data_location ::
  "('db, 'txn) rocks \<Rightarrow> inode \<Rightarrow> (('db, 'txn, 'z) kv_scheme, unit) fs_op" where
  "batch_delete_data_location R inode = push R (DeleteDataLocation (encode_data_location_key inode))"

definition batch_put_symlink ::
  "('db, 'txn) rocks \<Rightarrow> inode \<Rightarrow> str \<Rightarrow> (('db, 'txn, 'z) kv_scheme, unit) fs_op" where
  "batch_put_symlink R inode target = push R (PutSymlink (encode_symlink_key inode) target)"

definition batch_delete_symlink ::
  "('db, 'txn) rocks \<Rightarrow> inode \<Rightarrow> (('db, 'txn, 'z) kv_scheme, unit) fs_op" where
  "batch_delete_symlink R inode = push R (DeleteSymlink (encode_symlink_key inode))"

definition batch_parent_deltas ::
  "('db, 'txn) rocks \<Rightarrow> inode \<Rightarrow> DeltaOp list \<Rightarrow> (('db, 'txn, 'z) kv_scheme, unit) fs_op" where
  "batch_parent_deltas R parent deltas =
     for_each deltas (\<lambda>delta.
       bind (next_seq parent) (\<lambda>seq.
       push R (PutDelta (encode_delta_key parent seq) (serialize_delta delta))))"

definition is_dir :: "u32 \<Rightarrow> bool" where
  "is_dir mode \<longleftrightarrow> mode AND S_IFDIR \<noteq> 0"

definition is_symlink :: "u32 \<Rightarrow> bool" where
  "is_symlink mode \<longleftrightarrow> mode AND 0xF000 = S_IFLNK"

definition decode_dir_entry_value :: "bytes \<Rightarrow> (inode \<times> u32) FsResult" where
  "decode_dir_entry_value data =
     (if length data < 12 then Err (InvalidInput ''dir entry value too short'')
      else Ok (from_be (bslice 0 8 data), from_be (bslice 8 12 data)))"

text \<open>
  \<^verbatim>\<open>execute_with_retry\<close>: at most three attempts, another one only after a transaction conflict. The
  sleep between attempts has no effect on the state.
\<close>

fun retry_loop :: "nat \<Rightarrow> ('s, 'a) fs_op \<Rightarrow> ('s, 'a) fs_op" where
  "retry_loop 0 f = panic ''internal error: entered unreachable code''"
| "retry_loop (Suc n) f = (\<lambda>s.
     case f s of
       (Ok v, s') \<Rightarrow> (Ok v, s')
     | (Err e, s') \<Rightarrow> (if e = TransactionConflict \<and> n > 0 then retry_loop n f s' else (Err e, s'))
     | (Panic q, s') \<Rightarrow> (Panic q, s'))"

definition execute_with_retry :: "('s, 'a) fs_op \<Rightarrow> ('s, 'a) fs_op" where
  "execute_with_retry f = retry_loop TXN_MAX_RETRIES f"

definition check_and_clear_deferred_delete ::
  "inode \<Rightarrow> (('db, 'txn, 'c, 'z) server_scheme, bool) fs_op" where
  "check_and_clear_deferred_delete inode s =
     (case sv_open_handles s inode of
        None \<Rightarrow> (Ok False, s)
      | Some c \<Rightarrow>
          let count = (if c = 0 then 0 else c - 1) in
          if count = 0 then
            (Ok (inode \<in> sv_pending_deletes s),
             s\<lparr>sv_open_handles := (sv_open_handles s)(inode := None),
               sv_pending_deletes := sv_pending_deletes s - {inode}\<rparr>)
          else (Ok False, s\<lparr>sv_open_handles := (sv_open_handles s)(inode \<mapsto> count)\<rparr>))"

text \<open>\<^verbatim>\<open>*handles.entry(inode).or_insert(0) += 1\<close>.\<close>

definition inc_open_handles :: "inode \<Rightarrow> (('db, 'txn, 'c, 'z) server_scheme, unit) fs_op" where
  "inc_open_handles inode = modify (\<lambda>s. s\<lparr>sv_open_handles := (sv_open_handles s)(inode \<mapsto>
     (case sv_open_handles s inode of None \<Rightarrow> 0 | Some c \<Rightarrow> c) + 1)\<rparr>)"

end
