(* ===== verification/Server_Ops.thy ===== *)
theory Server_Ops
  imports Server
begin

unbundle bit_operations_syntax

text \<open>
  The operations of \<^verbatim>\<open>impl MetadataOps for MetadataServer\<close> (\<^verbatim>\<open>src/server/src/lib.rs\<close>), in the order
  of the source.
\<close>

section \<open>Attributes\<close>

definition lookup ::
  "('db, 'txn) rocks \<Rightarrow> 'c lru \<Rightarrow> inode \<Rightarrow> str \<Rightarrow> (('db, 'txn, 'c, 'z) server_scheme, FileAttr) fs_op" where
  "lookup R L parent name =
     bind (validate_name name) (\<lambda>_.
     bind (resolve_path R parent name) (\<lambda>r.
     bind (ok_or NotFound r) (\<lambda>child_inode.
     bind (load_inode R L child_inode) (\<lambda>iv.
     ret (to_attr iv)))))"

definition getattr ::
  "('db, 'txn) rocks \<Rightarrow> 'c lru \<Rightarrow> inode \<Rightarrow> (('db, 'txn, 'c, 'z) server_scheme, FileAttr) fs_op" where
  "getattr R L inode = bind (load_inode R L inode) (\<lambda>iv. ret (to_attr iv))"

text \<open>The assignments of \<^verbatim>\<open>setattr\<close> to the locked inode value, and whether data must be truncated.\<close>

definition apply_setattr :: "SetAttrRequest \<Rightarrow> u64 \<Rightarrow> InodeValue \<Rightarrow> InodeValue \<times> bool" where
  "apply_setattr req ts iv0 =
     (let iv = (case sa_mode req of Some mode \<Rightarrow>
                  iv0\<lparr>iv_mode := (iv_mode iv0 AND 0xF000) OR (mode AND 0xFFF)\<rparr> | None \<Rightarrow> iv0);
          iv = (case sa_uid req of Some uid \<Rightarrow> iv\<lparr>iv_uid := uid\<rparr> | None \<Rightarrow> iv);
          iv = (case sa_gid req of Some gid \<Rightarrow> iv\<lparr>iv_gid := gid\<rparr> | None \<Rightarrow> iv);
          iv = (case sa_atime req of Some atime \<Rightarrow> iv\<lparr>iv_atime := atime\<rparr> | None \<Rightarrow> iv);
          iv = (case sa_mtime req of Some mtime \<Rightarrow> iv\<lparr>iv_mtime := mtime\<rparr> | None \<Rightarrow> iv);
          (iv, do_truncate) =
            (case sa_size req of
               Some new_size \<Rightarrow>
                 (if new_size \<noteq> iv_size iv
                  then (iv\<lparr>iv_size := new_size, iv_mtime := ts\<rparr>, new_size < iv_size iv)
                  else (iv, False))
             | None \<Rightarrow> (iv, False))
      in (iv\<lparr>iv_ctime := ts\<rparr>, do_truncate))"

definition setattr_txn ::
  "('db, 'txn) rocks \<Rightarrow> 'c lru \<Rightarrow> inode \<Rightarrow> SetAttrRequest
   \<Rightarrow> (('db, 'txn, 'c, 'z) server_scheme, FileAttr \<times> bool) fs_op" where
  "setattr_txn R L inode req =
     bind (begin_write R) (\<lambda>_.
     bind (get_for_update_inode R (encode_inode_key inode)) (\<lambda>v.
     bind (ok_or NotFound v) (\<lambda>raw.
     bind (lift (deserialize raw)) (\<lambda>iv0.
     bind now_secs (\<lambda>ts.
     let (iv, do_truncate) = apply_setattr req ts iv0 in
     bind (batch_put_inode R inode iv) (\<lambda>_.
     bind (commit R) (\<lambda>_.
     bind (sc_put L inode iv) (\<lambda>_.
     ret (to_attr iv, do_truncate)))))))))"

definition setattr ::
  "('db, 'txn) rocks \<Rightarrow> 'c lru \<Rightarrow> inode \<Rightarrow> SetAttrRequest
   \<Rightarrow> (('db, 'txn, 'c, 'z) server_scheme, SetAttrResponse) fs_op" where
  "setattr R L inode req =
     bind (execute_with_retry (setattr_txn R L inode req)) (\<lambda>(attr, needs_truncate).
     ret \<lparr>sr_attr = attr, sr_needs_truncate = (if needs_truncate then sa_size req else None)\<rparr>)"

definition statfs :: "inode \<Rightarrow> (('db, 'txn, 'c, 'z) server_scheme, StatFs) fs_op" where
  "statfs inode =
     ret \<lparr>sf_blocks = 1000000, sf_bfree = 500000, sf_bavail = 500000, sf_files = 1000000,
          sf_ffree = 999000, sf_bsize = 4096, sf_namelen = 255\<rparr>"

definition readdir ::
  "('db, 'txn) rocks \<Rightarrow> 'c lru \<Rightarrow> inode \<Rightarrow> (('db, 'txn, 'c, 'z) server_scheme, DirEntry list) fs_op" where
  "readdir R L inode =
     bind (load_inode R L inode) (\<lambda>iv.
     if \<not> is_dir (iv_mode iv) then throw NotADirectory else list_dir R inode)"

section \<open>Creating files and directories\<close>

definition create_txn ::
  "('db, 'txn) rocks \<Rightarrow> inode \<Rightarrow> str \<Rightarrow> u32 \<Rightarrow> u32 \<Rightarrow> u32
   \<Rightarrow> (('db, 'txn, 'c, 'z) server_scheme, InodeValue \<times> inode) fs_op" where
  "create_txn R parent name mode uid gid =
     bind (begin_write R) (\<lambda>_.
     bind (get_for_update_dir_entry R (encode_dir_entry_key parent name)) (\<lambda>existing.
     if existing \<noteq> None then throw AlreadyExists
     else
       bind sv_alloc_inode (\<lambda>new_inode.
       bind now_secs (\<lambda>ts.
       let iv = \<lparr>iv_version = 1, iv_inode = new_inode, iv_size = 0, iv_mode = S_IFREG OR (mode AND 0xFFF),
                 iv_nlink = 1, iv_uid = uid, iv_gid = gid, iv_atime = ts, iv_mtime = ts, iv_ctime = ts\<rparr> in
       bind (batch_put_inode R new_inode iv) (\<lambda>_.
       bind (batch_put_dir_entry R parent name new_inode (iv_mode iv)) (\<lambda>_.
       bind (gets sv_default_loc) (\<lambda>loc.
       bind (batch_put_data_location R new_inode (server_id loc)) (\<lambda>_.
       bind (batch_parent_deltas R parent [SetMtime ts, SetCtime ts]) (\<lambda>_.
       bind (commit R) (\<lambda>_.
       ret (iv, new_inode)))))))))))"

definition create ::
  "('db, 'txn) rocks \<Rightarrow> 'c lru \<Rightarrow> inode \<Rightarrow> str \<Rightarrow> u32 \<Rightarrow> u32 \<Rightarrow> u32
   \<Rightarrow> (('db, 'txn, 'c, 'z) server_scheme, FileAttr) fs_op" where
  "create R L parent name mode uid gid =
     bind (validate_name name) (\<lambda>_.
     bind (execute_with_retry (create_txn R parent name mode uid gid)) (\<lambda>(iv, new_inode).
     bind (sv_maybe_persist R) (\<lambda>_.
     bind (sc_put L new_inode iv) (\<lambda>_.
     bind (when_op (\<not> shares_batch_storage)
             (ignore (insert_child R parent name new_inode (to_attr iv)))) (\<lambda>_.
     bind (sc_apply_deltas L parent [SetMtime (iv_mtime iv), SetCtime (iv_ctime iv)]) (\<lambda>_.
     bind (mark_dirty parent) (\<lambda>_.
     ret (to_attr iv))))))))"

definition create_and_open ::
  "('db, 'txn) rocks \<Rightarrow> 'c lru \<Rightarrow> inode \<Rightarrow> str \<Rightarrow> u32 \<Rightarrow> u32 \<Rightarrow> u32 \<Rightarrow> u32
   \<Rightarrow> (('db, 'txn, 'c, 'z) server_scheme, CreateAndOpenResponse) fs_op" where
  "create_and_open R L parent name mode uid gid flags =
     bind (create R L parent name mode uid gid) (\<lambda>attr.
     bind (inc_open_handles (fa_inode attr)) (\<lambda>_.
     bind (gets sv_default_loc) (\<lambda>loc.
     ret \<lparr>co_attr = attr, co_handle = fa_inode attr, co_data_location = loc\<rparr>)))"

definition mkdir_txn ::
  "('db, 'txn) rocks \<Rightarrow> inode \<Rightarrow> str \<Rightarrow> u32 \<Rightarrow> u32 \<Rightarrow> u32
   \<Rightarrow> (('db, 'txn, 'c, 'z) server_scheme, InodeValue \<times> inode) fs_op" where
  "mkdir_txn R parent name mode uid gid =
     bind (begin_write R) (\<lambda>_.
     bind (get_for_update_dir_entry R (encode_dir_entry_key parent name)) (\<lambda>existing.
     if existing \<noteq> None then throw AlreadyExists
     else
       bind sv_alloc_inode (\<lambda>new_inode.
       bind now_secs (\<lambda>ts.
       let iv = \<lparr>iv_version = 1, iv_inode = new_inode, iv_size = 0, iv_mode = S_IFDIR OR (mode AND 0xFFF),
                 iv_nlink = 2, iv_uid = uid, iv_gid = gid, iv_atime = ts, iv_mtime = ts, iv_ctime = ts\<rparr> in
       bind (batch_put_inode R new_inode iv) (\<lambda>_.
       bind (batch_put_dir_entry R parent name new_inode (iv_mode iv)) (\<lambda>_.
       bind (batch_parent_deltas R parent [IncrementNlink 1, SetMtime ts, SetCtime ts]) (\<lambda>_.
       bind (commit R) (\<lambda>_.
       ret (iv, new_inode)))))))))"

definition mkdir ::
  "('db, 'txn) rocks \<Rightarrow> 'c lru \<Rightarrow> inode \<Rightarrow> str \<Rightarrow> u32 \<Rightarrow> u32 \<Rightarrow> u32
   \<Rightarrow> (('db, 'txn, 'c, 'z) server_scheme, FileAttr) fs_op" where
  "mkdir R L parent name mode uid gid =
     bind (validate_name name) (\<lambda>_.
     bind (execute_with_retry (mkdir_txn R parent name mode uid gid)) (\<lambda>(iv, new_inode).
     bind (sv_maybe_persist R) (\<lambda>_.
     bind (sc_put L new_inode iv) (\<lambda>_.
     bind (sc_apply_deltas L parent [IncrementNlink 1, SetMtime (iv_mtime iv), SetCtime (iv_ctime iv)]) (\<lambda>_.
     bind (mark_dirty parent) (\<lambda>_.
     bind (when_op (\<not> shares_batch_storage)
             (ignore (insert_child R parent name new_inode (to_attr iv)))) (\<lambda>_.
     ret (to_attr iv))))))))"

section \<open>Removing\<close>

text \<open>
  The closure of \<^verbatim>\<open>unlink\<close>. Its result: the inode whose last link went away, if any, with the flag
  that tells whether its deletion is deferred, and the timestamp of the parent's deltas.
\<close>

definition unlink_txn ::
  "('db, 'txn) rocks \<Rightarrow> 'c lru \<Rightarrow> inode \<Rightarrow> str
   \<Rightarrow> (('db, 'txn, 'c, 'z) server_scheme, (inode \<times> bool) option \<times> u64) fs_op" where
  "unlink_txn R L parent name =
     bind (begin_write R) (\<lambda>_.
     bind (get_for_update_dir_entry R (encode_dir_entry_key parent name)) (\<lambda>v.
     bind (ok_or NotFound v) (\<lambda>dir_val.
     bind (lift (decode_dir_entry_value dir_val)) (\<lambda>(child_inode, child_mode).
     if is_dir child_mode then throw IsADirectory
     else
       bind (get_for_update_inode R (encode_inode_key child_inode)) (\<lambda>v.
       bind (ok_or NotFound v) (\<lambda>inode_raw.
       bind (lift (deserialize inode_raw)) (\<lambda>iv0.
       let child_iv = iv0\<lparr>iv_nlink := (if iv_nlink iv0 = 0 then 0 else iv_nlink iv0 - 1)\<rparr> in
       bind (batch_delete_dir_entry R parent name) (\<lambda>_.
       bind
         (if iv_nlink child_iv = 0 then
            bind (gets (\<lambda>s. (case sv_open_handles s child_inode of None \<Rightarrow> 0 | Some c \<Rightarrow> c) > 0)) (\<lambda>has_handles.
            if has_handles then
              bind now_secs (\<lambda>ts.
              let child_iv = child_iv\<lparr>iv_ctime := ts\<rparr> in
              bind (batch_put_inode R child_inode child_iv) (\<lambda>_.
              ret (Some (child_inode, True), child_iv)))
            else
              bind (batch_delete_inode R child_inode) (\<lambda>_.
              bind (batch_delete_data_location R child_inode) (\<lambda>_.
              ret (Some (child_inode, False), child_iv))))
          else
            bind now_secs (\<lambda>ts.
            let child_iv = child_iv\<lparr>iv_ctime := ts\<rparr> in
            bind (batch_put_inode R child_inode child_iv) (\<lambda>_.
            ret (None, child_iv))))
         (\<lambda>(result, child_iv).
       bind now_secs (\<lambda>ts.
       bind (batch_parent_deltas R parent [SetMtime ts, SetCtime ts]) (\<lambda>_.
       bind (commit R) (\<lambda>_.
       bind (when_op (\<not> shares_batch_storage) (ignore (remove_child R parent name))) (\<lambda>_.
       bind
         (case result of
            Some (ino, False) \<Rightarrow>
              bind (ignore (clear_deltas R ino)) (\<lambda>_. sc_invalidate L ino)
          | Some (ino, True) \<Rightarrow> sc_put L child_inode child_iv
          | None \<Rightarrow> sc_put L child_inode child_iv) (\<lambda>_.
       ret (result, ts)))))))))))))))"

definition unlink ::
  "('db, 'txn) rocks \<Rightarrow> 'c lru \<Rightarrow> inode \<Rightarrow> str
   \<Rightarrow> (('db, 'txn, 'c, 'z) server_scheme, UnlinkResponse) fs_op" where
  "unlink R L parent name =
     bind (validate_name name) (\<lambda>_.
     bind (execute_with_retry (unlink_txn R L parent name)) (\<lambda>(need_delete_data, parent_ts).
     bind
       (case need_delete_data of
          Some (inode, deferred) \<Rightarrow>
            (if deferred
             then bind (modify (\<lambda>s. s\<lparr>sv_pending_deletes := insert inode (sv_pending_deletes s)\<rparr>)) (\<lambda>_. ret [])
             else ret [inode])
        | None \<Rightarrow> ret []) (\<lambda>purged_inodes.
     bind (sc_apply_deltas L parent [SetMtime parent_ts, SetCtime parent_ts]) (\<lambda>_.
     bind (mark_dirty parent) (\<lambda>_.
     ret \<lparr>ur_purged_inodes = purged_inodes\<rparr>)))))"

definition rmdir_txn ::
  "('db, 'txn) rocks \<Rightarrow> 'c lru \<Rightarrow> inode \<Rightarrow> str \<Rightarrow> (('db, 'txn, 'c, 'z) server_scheme, u64) fs_op" where
  "rmdir_txn R L parent name =
     bind (begin_write R) (\<lambda>_.
     bind (get_for_update_dir_entry R (encode_dir_entry_key parent name)) (\<lambda>v.
     bind (ok_or NotFound v) (\<lambda>dir_val.
     bind (lift (decode_dir_entry_value dir_val)) (\<lambda>(child_inode, child_mode).
     if \<not> is_dir child_mode then throw NotADirectory
     else
       bind (get_for_update_inode R (encode_inode_key child_inode)) (\<lambda>v.
       bind (ok_or NotFound v) (\<lambda>_.
       bind (is_dir_empty R child_inode) (\<lambda>empty.
       if \<not> empty then throw DirectoryNotEmpty
       else
         bind (batch_delete_dir_entry R parent name) (\<lambda>_.
         bind (batch_delete_inode R child_inode) (\<lambda>_.
         bind now_secs (\<lambda>ts.
         bind (batch_parent_deltas R parent [IncrementNlink (- 1), SetMtime ts, SetCtime ts]) (\<lambda>_.
         bind (commit R) (\<lambda>_.
         bind (when_op (\<not> shares_batch_storage) (ignore (remove_child R parent name))) (\<lambda>_.
         bind (ignore (clear_deltas R child_inode)) (\<lambda>_.
         bind (sc_invalidate L child_inode) (\<lambda>_.
         ret ts)))))))))))))))"

definition rmdir ::
  "('db, 'txn) rocks \<Rightarrow> 'c lru \<Rightarrow> inode \<Rightarrow> str \<Rightarrow> (('db, 'txn, 'c, 'z) server_scheme, unit) fs_op" where
  "rmdir R L parent name =
     bind (validate_name name) (\<lambda>_.
     bind (execute_with_retry (rmdir_txn R L parent name)) (\<lambda>parent_ts.
     bind (sc_apply_deltas L parent [IncrementNlink (- 1), SetMtime parent_ts, SetCtime parent_ts]) (\<lambda>_.
     mark_dirty parent)))"

section \<open>Renaming\<close>

record RenameResult =
  rn_delete_inode :: "inode option"
  rn_src_is_dir :: bool
  rn_dst_was_dir :: bool
  rn_ts :: u64

text \<open>The inodes to lock, sorted and without duplicates.\<close>

definition rename_lock_order :: "inode \<Rightarrow> (inode \<times> u32) option \<Rightarrow> inode \<Rightarrow> inode \<Rightarrow> inode list" where
  "rename_lock_order src_inode dst_inode_opt parent new_parent =
     (let ids = src_inode # (case dst_inode_opt of Some (dst_ino, _) \<Rightarrow> [dst_ino] | None \<Rightarrow> []);
          ids = (if parent \<notin> set ids then ids @ [parent] else ids);
          ids = (if parent \<noteq> new_parent \<and> new_parent \<notin> set ids then ids @ [new_parent] else ids)
      in remdups_adj (sort ids))"

fun lock_inodes ::
  "('db, 'txn) rocks \<Rightarrow> inode list \<Rightarrow> (inode \<Rightarrow> InodeValue option)
   \<Rightarrow> (('db, 'txn, 'z) kv_scheme, inode \<Rightarrow> InodeValue option) fs_op" where
  "lock_inodes R [] m = ret m"
| "lock_inodes R (ino # inos) m =
     bind (get_for_update_inode R (encode_inode_key ino)) (\<lambda>v.
     case v of
       Some raw \<Rightarrow> bind (lift (deserialize raw)) (\<lambda>iv. lock_inodes R inos (m(ino \<mapsto> iv)))
     | None \<Rightarrow> lock_inodes R inos m)"

text \<open>The checks on an existing target: the inode to delete and whether it was a directory.\<close>

definition rename_check_dst ::
  "('db, 'txn) rocks \<Rightarrow> (inode \<Rightarrow> InodeValue option) \<Rightarrow> bool \<Rightarrow> (inode \<times> u32) option \<Rightarrow> u64
   \<Rightarrow> (('db, 'txn, 'z) kv_scheme, inode option \<times> bool) fs_op" where
  "rename_check_dst R inode_values src_is_dir dst_inode_opt ts =
     (case dst_inode_opt of
        None \<Rightarrow> ret (None, False)
      | Some (dst_inode, dst_mode) \<Rightarrow>
          let dst_is_dir = is_dir dst_mode in
          if src_is_dir \<and> \<not> dst_is_dir then throw NotADirectory
          else if \<not> src_is_dir \<and> dst_is_dir then throw IsADirectory
          else if dst_is_dir then
            bind (is_dir_empty R dst_inode) (\<lambda>empty.
            if \<not> empty then throw DirectoryNotEmpty else ret (None, True))
          else
            bind (ok_or NotFound (inode_values dst_inode)) (\<lambda>dst_iv.
            if iv_nlink dst_iv > 1 then
              bind (batch_put_inode R dst_inode (dst_iv\<lparr>iv_nlink := iv_nlink dst_iv - 1, iv_ctime := ts\<rparr>)) (\<lambda>_.
              ret (None, False))
            else ret (Some dst_inode, False)))"

text \<open>The writes of the batch after the checks.\<close>

definition rename_batch ::
  "('db, 'txn) rocks \<Rightarrow> inode \<Rightarrow> str \<Rightarrow> inode \<Rightarrow> str \<Rightarrow> inode \<Rightarrow> InodeValue \<Rightarrow> (inode \<times> u32) option
   \<Rightarrow> inode option \<Rightarrow> bool \<Rightarrow> bool \<Rightarrow> u64 \<Rightarrow> (('db, 'txn, 'z) kv_scheme, unit) fs_op" where
  "rename_batch R parent name new_parent new_name src_inode src_iv dst_inode_opt doomed
     src_is_dir dst_was_dir ts =
     bind
       (case dst_inode_opt of
          Some (dst_inode, _) \<Rightarrow>
            bind (batch_delete_dir_entry R new_parent new_name) (\<lambda>_.
            when_op (doomed \<noteq> None)
              (bind (batch_delete_inode R dst_inode) (\<lambda>_. batch_delete_data_location R dst_inode)))
        | None \<Rightarrow> ret ()) (\<lambda>_.
     bind (batch_delete_dir_entry R parent name) (\<lambda>_.
     bind (batch_put_dir_entry R new_parent new_name src_inode (iv_mode src_iv)) (\<lambda>_.
     bind (batch_put_inode R src_inode (src_iv\<lparr>iv_ctime := ts\<rparr>)) (\<lambda>_.
     bind (when_op dst_was_dir (batch_parent_deltas R new_parent [IncrementNlink (- 1)])) (\<lambda>_.
     bind (when_op (src_is_dir \<and> parent \<noteq> new_parent)
             (bind (batch_parent_deltas R parent [IncrementNlink (- 1)]) (\<lambda>_.
              batch_parent_deltas R new_parent [IncrementNlink 1]))) (\<lambda>_.
     bind (batch_parent_deltas R parent [SetMtime ts, SetCtime ts]) (\<lambda>_.
     when_op (parent \<noteq> new_parent) (batch_parent_deltas R new_parent [SetMtime ts, SetCtime ts]))))))))"

text \<open>The locks and reads at the start of the closure.\<close>

definition rename_read ::
  "('db, 'txn) rocks \<Rightarrow> inode \<Rightarrow> str \<Rightarrow> inode \<Rightarrow> str
   \<Rightarrow> (('db, 'txn, 'z) kv_scheme, inode \<times> (inode \<times> u32) option \<times> (inode \<Rightarrow> InodeValue option)) fs_op" where
  "rename_read R parent name new_parent new_name =
     bind (begin_write R) (\<lambda>_.
     bind (get_for_update_dir_entry R (encode_dir_entry_key parent name)) (\<lambda>v.
     bind (ok_or NotFound v) (\<lambda>src_dir_val.
     bind (lift (decode_dir_entry_value src_dir_val)) (\<lambda>(src_inode, _).
     bind (get_for_update_dir_entry R (encode_dir_entry_key new_parent new_name)) (\<lambda>existing_dst.
     bind (case existing_dst of
             Some dst_val \<Rightarrow> bind (lift (decode_dir_entry_value dst_val)) (\<lambda>d. ret (Some d))
           | None \<Rightarrow> ret None) (\<lambda>dst_inode_opt.
     bind (lock_inodes R (rename_lock_order src_inode dst_inode_opt parent new_parent) Map.empty) (\<lambda>inode_values.
     ret (src_inode, dst_inode_opt, inode_values))))))))"

text \<open>The rest of the closure: checks, batch, commit, in-memory updates.\<close>

definition rename_apply ::
  "('db, 'txn) rocks \<Rightarrow> 'c lru \<Rightarrow> inode \<Rightarrow> str \<Rightarrow> inode \<Rightarrow> str
   \<Rightarrow> inode \<times> (inode \<times> u32) option \<times> (inode \<Rightarrow> InodeValue option)
   \<Rightarrow> (('db, 'txn, 'c, 'z) server_scheme, RenameResult) fs_op" where
  "rename_apply R L parent name new_parent new_name = (\<lambda>(src_inode, dst_inode_opt, inode_values).
     bind (ok_or NotFound (inode_values src_inode)) (\<lambda>src_iv.
     let src_is_dir = is_dir (iv_mode src_iv) in
     bind now_secs (\<lambda>ts.
     bind (rename_check_dst R inode_values src_is_dir dst_inode_opt ts) (\<lambda>(doomed, dst_was_dir).
     bind (rename_batch R parent name new_parent new_name src_inode src_iv dst_inode_opt doomed
             src_is_dir dst_was_dir ts) (\<lambda>_.
     bind (commit R) (\<lambda>_.
     bind (case dst_inode_opt of
             Some (dst_inode, _) \<Rightarrow> bind (ignore (clear_deltas R dst_inode)) (\<lambda>_. sc_invalidate L dst_inode)
           | None \<Rightarrow> ret ()) (\<lambda>_.
     bind (when_op (\<not> shares_batch_storage)
             (bind (ignore (remove_child R new_parent new_name)) (\<lambda>_.
              bind (ignore (remove_child R parent name)) (\<lambda>_.
              ignore (insert_child R new_parent new_name src_inode (to_attr (src_iv\<lparr>iv_ctime := ts\<rparr>))))))) (\<lambda>_.
     bind (sc_put L src_inode (src_iv\<lparr>iv_ctime := ts\<rparr>)) (\<lambda>_.
     ret \<lparr>rn_delete_inode = doomed, rn_src_is_dir = src_is_dir, rn_dst_was_dir = dst_was_dir,
          rn_ts = ts\<rparr>)))))))))"

definition rename_txn ::
  "('db, 'txn) rocks \<Rightarrow> 'c lru \<Rightarrow> inode \<Rightarrow> str \<Rightarrow> inode \<Rightarrow> str
   \<Rightarrow> (('db, 'txn, 'c, 'z) server_scheme, RenameResult) fs_op" where
  "rename_txn R L parent name new_parent new_name =
     bind (rename_read R parent name new_parent new_name) (rename_apply R L parent name new_parent new_name)"

definition rename ::
  "('db, 'txn) rocks \<Rightarrow> 'c lru \<Rightarrow> inode \<Rightarrow> str \<Rightarrow> inode \<Rightarrow> str
   \<Rightarrow> (('db, 'txn, 'c, 'z) server_scheme, RenameResponse) fs_op" where
  "rename R L parent name new_parent new_name =
     bind (validate_name name) (\<lambda>_.
     bind (validate_name new_name) (\<lambda>_.
     bind (execute_with_retry (rename_txn R L parent name new_parent new_name)) (\<lambda>result.
     let ts = rn_ts result in
     bind (when_op (rn_dst_was_dir result)
             (bind (sc_apply_delta L new_parent (IncrementNlink (- 1))) (\<lambda>_. mark_dirty new_parent))) (\<lambda>_.
     bind (when_op (rn_src_is_dir result \<and> parent \<noteq> new_parent)
             (bind (sc_apply_delta L parent (IncrementNlink (- 1))) (\<lambda>_.
              bind (mark_dirty parent) (\<lambda>_.
              bind (sc_apply_delta L new_parent (IncrementNlink 1)) (\<lambda>_.
              mark_dirty new_parent))))) (\<lambda>_.
     bind (sc_apply_deltas L parent [SetMtime ts, SetCtime ts]) (\<lambda>_.
     bind (mark_dirty parent) (\<lambda>_.
     bind (when_op (parent \<noteq> new_parent)
             (bind (sc_apply_deltas L new_parent [SetMtime ts, SetCtime ts]) (\<lambda>_. mark_dirty new_parent))) (\<lambda>_.
     ret \<lparr>rr_purged_inodes = (case rn_delete_inode result of Some i \<Rightarrow> [i] | None \<Rightarrow> [])\<rparr>))))))))"

section \<open>Open files\<close>

definition O_TRUNC :: u32 where
  "O_TRUNC = 0x200"

definition open_trunc_txn ::
  "('db, 'txn) rocks \<Rightarrow> 'c lru \<Rightarrow> inode \<Rightarrow> (('db, 'txn, 'c, 'z) server_scheme, unit) fs_op" where
  "open_trunc_txn R L inode =
     bind (begin_write R) (\<lambda>_.
     bind (get_for_update_inode R (encode_inode_key inode)) (\<lambda>v.
     bind (ok_or NotFound v) (\<lambda>raw.
     bind (lift (deserialize raw)) (\<lambda>iv.
     bind now_secs (\<lambda>ts.
     let iv = iv\<lparr>iv_size := 0, iv_mtime := ts, iv_ctime := ts\<rparr> in
     bind (batch_put_inode R inode iv) (\<lambda>_.
     bind (commit R) (\<lambda>_.
     sc_put L inode iv)))))))"

definition open_op ::
  "('db, 'txn) rocks \<Rightarrow> 'c lru \<Rightarrow> inode \<Rightarrow> u32 \<Rightarrow> (('db, 'txn, 'c, 'z) server_scheme, OpenResponse) fs_op" where
  "open_op R L inode flags =
     bind (load_inode R L inode) (\<lambda>iv.
     if is_dir (iv_mode iv) then throw IsADirectory
     else
       bind (when_op (flags AND O_TRUNC \<noteq> 0 \<and> iv_size iv > 0) (execute_with_retry (open_trunc_txn R L inode))) (\<lambda>_.
       bind (inc_open_handles inode) (\<lambda>_.
       bind (meta_get R (encode_data_location_key inode)) (\<lambda>v.
       bind (gets (\<lambda>s. server_id (sv_default_loc s))) (\<lambda>dflt.
       let sid = (case v of Some bytes \<Rightarrow> (if utf8_valid bytes then bytes else dflt) | None \<Rightarrow> dflt) in
       ret \<lparr>or_handle = inode, or_data_location = \<lparr>server_id = sid\<rparr>\<rparr>)))))"

definition report_write_txn ::
  "('db, 'txn) rocks \<Rightarrow> 'c lru \<Rightarrow> inode \<Rightarrow> u64 \<Rightarrow> u64 \<Rightarrow> (('db, 'txn, 'c, 'z) server_scheme, unit) fs_op" where
  "report_write_txn R L inode new_size mtime =
     bind (begin_write R) (\<lambda>_.
     bind (get_for_update_inode R (encode_inode_key inode)) (\<lambda>v.
     bind (ok_or NotFound v) (\<lambda>raw.
     bind (lift (deserialize raw)) (\<lambda>iv.
     let iv = (if new_size > iv_size iv then iv\<lparr>iv_size := new_size\<rparr> else iv);
         iv = iv\<lparr>iv_mtime := mtime, iv_ctime := mtime\<rparr> in
     bind (batch_put_inode R inode iv) (\<lambda>_.
     bind (commit R) (\<lambda>_.
     sc_put L inode iv))))))"

definition report_write ::
  "('db, 'txn) rocks \<Rightarrow> 'c lru \<Rightarrow> inode \<Rightarrow> u64 \<Rightarrow> u64 \<Rightarrow> (('db, 'txn, 'c, 'z) server_scheme, unit) fs_op" where
  "report_write R L inode new_size mtime = execute_with_retry (report_write_txn R L inode new_size mtime)"

section \<open>Links\<close>

definition link_txn ::
  "('db, 'txn) rocks \<Rightarrow> 'c lru \<Rightarrow> inode \<Rightarrow> str \<Rightarrow> inode
   \<Rightarrow> (('db, 'txn, 'c, 'z) server_scheme, InodeValue \<times> u64) fs_op" where
  "link_txn R L parent name target_inode =
     bind (begin_write R) (\<lambda>_.
     bind (get_for_update_inode R (encode_inode_key target_inode)) (\<lambda>v.
     bind (ok_or NotFound v) (\<lambda>inode_raw.
     bind (lift (deserialize inode_raw)) (\<lambda>target_iv.
     if is_dir (iv_mode target_iv) then throw PermissionDenied
     else
       bind (get_for_update_dir_entry R (encode_dir_entry_key parent name)) (\<lambda>existing.
       if existing \<noteq> None then throw AlreadyExists
       else
         bind (get_for_update_inode R (encode_inode_key parent)) (\<lambda>v.
         bind (ok_or NotFound v) (\<lambda>parent_raw.
         bind (lift (deserialize parent_raw)) (\<lambda>parent_iv.
         if \<not> is_dir (iv_mode parent_iv) then throw NotADirectory
         else
           bind now_secs (\<lambda>now.
           let target_iv = target_iv\<lparr>iv_nlink := iv_nlink target_iv + 1, iv_ctime := now\<rparr> in
           bind (batch_put_inode R target_inode target_iv) (\<lambda>_.
           bind (batch_put_dir_entry R parent name target_inode (iv_mode target_iv)) (\<lambda>_.
           bind now_secs (\<lambda>ts.
           bind (batch_parent_deltas R parent [SetMtime ts, SetCtime ts]) (\<lambda>_.
           bind (commit R) (\<lambda>_.
           bind (sc_put L target_inode target_iv) (\<lambda>_.
           bind (when_op (\<not> shares_batch_storage)
                   (ignore (insert_child R parent name target_inode (to_attr target_iv)))) (\<lambda>_.
           ret (target_iv, ts)))))))))))))))))"

definition link ::
  "('db, 'txn) rocks \<Rightarrow> 'c lru \<Rightarrow> inode \<Rightarrow> str \<Rightarrow> inode
   \<Rightarrow> (('db, 'txn, 'c, 'z) server_scheme, FileAttr) fs_op" where
  "link R L parent name target_inode =
     bind (validate_name name) (\<lambda>_.
     bind (execute_with_retry (link_txn R L parent name target_inode)) (\<lambda>(target_iv, parent_ts).
     bind (sc_apply_deltas L parent [SetMtime parent_ts, SetCtime parent_ts]) (\<lambda>_.
     bind (mark_dirty parent) (\<lambda>_.
     ret (to_attr target_iv)))))"

definition symlink_txn ::
  "('db, 'txn) rocks \<Rightarrow> inode \<Rightarrow> str \<Rightarrow> str \<Rightarrow> u32 \<Rightarrow> u32
   \<Rightarrow> (('db, 'txn, 'c, 'z) server_scheme, InodeValue \<times> inode) fs_op" where
  "symlink_txn R parent name target uid gid =
     bind (begin_write R) (\<lambda>_.
     bind (get_for_update_dir_entry R (encode_dir_entry_key parent name)) (\<lambda>existing.
     if existing \<noteq> None then throw AlreadyExists
     else
       bind sv_alloc_inode (\<lambda>new_inode.
       bind now_secs (\<lambda>ts.
       let iv = \<lparr>iv_version = 1, iv_inode = new_inode, iv_size = of_nat (length target),
                 iv_mode = S_IFLNK OR 0x1FF, iv_nlink = 1, iv_uid = uid, iv_gid = gid,
                 iv_atime = ts, iv_mtime = ts, iv_ctime = ts\<rparr> in
       bind (batch_put_inode R new_inode iv) (\<lambda>_.
       bind (batch_put_dir_entry R parent name new_inode (iv_mode iv)) (\<lambda>_.
       bind (batch_put_symlink R new_inode target) (\<lambda>_.
       bind (batch_parent_deltas R parent [SetMtime ts, SetCtime ts]) (\<lambda>_.
       bind (commit R) (\<lambda>_.
       ret (iv, new_inode))))))))))"

definition symlink ::
  "('db, 'txn) rocks \<Rightarrow> 'c lru \<Rightarrow> inode \<Rightarrow> str \<Rightarrow> str \<Rightarrow> u32 \<Rightarrow> u32
   \<Rightarrow> (('db, 'txn, 'c, 'z) server_scheme, FileAttr) fs_op" where
  "symlink R L parent name link_target uid gid =
     bind (validate_name name) (\<lambda>_.
     bind (execute_with_retry (symlink_txn R parent name link_target uid gid)) (\<lambda>(iv, _).
     bind (sv_maybe_persist R) (\<lambda>_.
     bind (sc_put L (iv_inode iv) iv) (\<lambda>_.
     bind (when_op (\<not> shares_batch_storage)
             (ignore (insert_child R parent name (iv_inode iv) (to_attr iv)))) (\<lambda>_.
     bind (sc_apply_deltas L parent [SetMtime (iv_mtime iv), SetCtime (iv_ctime iv)]) (\<lambda>_.
     bind (mark_dirty parent) (\<lambda>_.
     ret (to_attr iv))))))))"

definition readlink ::
  "('db, 'txn) rocks \<Rightarrow> 'c lru \<Rightarrow> inode \<Rightarrow> (('db, 'txn, 'c, 'z) server_scheme, str) fs_op" where
  "readlink R L inode =
     bind (load_inode R L inode) (\<lambda>iv.
     if \<not> is_symlink (iv_mode iv) then throw (InvalidInput ''not a symbolic link'')
     else
       bind (meta_get R (encode_symlink_key inode)) (\<lambda>v.
       bind (ok_or (Io (''symlink target not found for inode '' @ show_nat (unat inode))) v) (\<lambda>data.
       case utf8_check 0 data of
         None \<Rightarrow> ret data
       | Some e \<Rightarrow> throw (Io (''invalid symlink target: '' @ utf8_error_msg e)))))"

section \<open>Closing\<close>

definition release_txn ::
  "('db, 'txn) rocks \<Rightarrow> inode \<Rightarrow> (('db, 'txn, 'c, 'z) server_scheme, unit) fs_op" where
  "release_txn R inode =
     bind (begin_write R) (\<lambda>_.
     bind (batch_delete_inode R inode) (\<lambda>_.
     bind (batch_delete_data_location R inode) (\<lambda>_.
     commit R)))"

definition release ::
  "('db, 'txn) rocks \<Rightarrow> 'c lru \<Rightarrow> inode \<Rightarrow> (('db, 'txn, 'c, 'z) server_scheme, ReleaseResponse) fs_op" where
  "release R L inode =
     bind (check_and_clear_deferred_delete inode) (\<lambda>now_delete.
     if now_delete then
       bind (execute_with_retry (release_txn R inode)) (\<lambda>_.
       bind (ignore (clear_deltas R inode)) (\<lambda>_.
       bind (sc_invalidate L inode) (\<lambda>_.
       ret \<lparr>lr_purged_inodes = [inode]\<rparr>)))
     else ret \<lparr>lr_purged_inodes = []\<rparr>)"

section \<open>A sample state\<close>

text \<open>
  A server over the in-memory database for the concrete runs: the root holds a file \<open>a\<close> (inode 2,
  five bytes) and an empty directory \<open>d\<close> (inode 3); the clock counts from 100.
\<close>

definition sample_inode :: "inode \<Rightarrow> u32 \<Rightarrow> u32 \<Rightarrow> u64 \<Rightarrow> InodeValue" where
  "sample_inode i mode nlink sz =
     \<lparr>iv_version = 1, iv_inode = i, iv_size = sz, iv_mode = mode, iv_nlink = nlink, iv_uid = 0, iv_gid = 0,
      iv_atime = 50, iv_mtime = 50, iv_ctime = 50\<rparr>"

definition sample_server :: "(mem_db, mem_txn, lru_list) server" where
  "sample_server = \<lparr>kv_db = \<lparr>mem_kv =
       [((CF_INODES, encode_inode_key 1), serialize (sample_inode 1 0x41FF 3 0)),
        ((CF_INODES, encode_inode_key 2), serialize (sample_inode 2 0x81A4 1 5)),
        ((CF_INODES, encode_inode_key 3), serialize (sample_inode 3 0x41ED 2 0)),
        ((CF_DIR_ENTRIES, encode_dir_entry_key 1 [0x61]), encode_dir_value 2 0x81A4),
        ((CF_DIR_ENTRIES, encode_dir_entry_key 1 [0x64]), encode_dir_value 3 0x41ED)],
      mem_faults = []\<rparr>, kv_txn = [], kv_seqs = (\<lambda>i. None),
      cw_cache = replicate 16 (1, []), cw_dirty = {}, cw_running = False, cw_notify_flag = False,
      cw_config = compaction_config_default, sv_default_loc = \<lparr>server_id = [0x64]\<rparr>,
      sv_alloc = \<lparr>ia_next = 4\<rparr>, sv_open_handles = Map.empty, sv_pending_deletes = {},
      sv_clock = (\<lambda>n. of_nat (100 + n)), sv_ticks = 0\<rparr>"

end
