(* ===== verification/Server_Rules.thy ===== *)
theory Server_Rules
  imports Server_Ops
begin

text \<open>
  Contracts of the server's helpers in the weakest-precondition calculus: clock, allocator, cache,
  handle table, batch helpers, the parent deltas of a transaction, and the retry loop.
\<close>

section \<open>Updates of the state in a canonical order\<close>

lemma worker_update_order [simp]:
  "s\<lparr>cw_cache := c, kv_db := d\<rparr> = s\<lparr>kv_db := d, cw_cache := c\<rparr>"
  "s\<lparr>cw_cache := c, kv_txn := t\<rparr> = s\<lparr>kv_txn := t, cw_cache := c\<rparr>"
  "s\<lparr>cw_cache := c, kv_seqs := q\<rparr> = s\<lparr>kv_seqs := q, cw_cache := c\<rparr>"
  by simp_all

lemma server_update_order [simp]:
  "s\<lparr>sv_alloc := a, kv_db := d\<rparr> = s\<lparr>kv_db := d, sv_alloc := a\<rparr>"
  "s\<lparr>sv_alloc := a, kv_txn := t\<rparr> = s\<lparr>kv_txn := t, sv_alloc := a\<rparr>"
  "s\<lparr>sv_alloc := a, kv_seqs := q\<rparr> = s\<lparr>kv_seqs := q, sv_alloc := a\<rparr>"
  "s\<lparr>sv_alloc := a, cw_cache := c\<rparr> = s\<lparr>cw_cache := c, sv_alloc := a\<rparr>"
  "s\<lparr>sv_ticks := n, kv_db := d\<rparr> = s\<lparr>kv_db := d, sv_ticks := n\<rparr>"
  "s\<lparr>sv_ticks := n, kv_txn := t\<rparr> = s\<lparr>kv_txn := t, sv_ticks := n\<rparr>"
  "s\<lparr>sv_ticks := n, kv_seqs := q\<rparr> = s\<lparr>kv_seqs := q, sv_ticks := n\<rparr>"
  "s\<lparr>sv_ticks := n, cw_cache := c\<rparr> = s\<lparr>cw_cache := c, sv_ticks := n\<rparr>"
  "s\<lparr>sv_ticks := n, sv_alloc := a\<rparr> = s\<lparr>sv_alloc := a, sv_ticks := n\<rparr>"
  by simp_all

section \<open>Deterministic helpers\<close>

lemma wp_now_secs [wp_simps]:
  "wp now_secs Q s = Q (Ok (sv_clock s (sv_ticks s))) (s\<lparr>sv_ticks := Suc (sv_ticks s)\<rparr>)"
  by (simp add: wp_def now_secs_def)

lemma wp_validate_name [wp_simps]:
  "wp (validate_name n) Q s = (if length n > NAME_MAX then Q (Err NameTooLong) s else Q (Ok ()) s)"
  by (simp add: validate_name_def wp_simps)

lemma wp_sc_get [wp_simps]:
  "wp (sc_get L i) Q s = (case cache_get L i (cw_cache s) of (v, c) \<Rightarrow> Q (Ok v) (s\<lparr>cw_cache := c\<rparr>))"
  by (simp add: wp_def sc_get_def split: prod.split)

lemma wp_sc_put [wp_simps]:
  "wp (sc_put L i v) Q s = Q (Ok ()) (s\<lparr>cw_cache := cache_put L i v (cw_cache s)\<rparr>)"
  by (simp add: sc_put_def wp_simps)

lemma wp_sc_apply_deltas [wp_simps]:
  "wp (sc_apply_deltas L i ds) Q s = Q (Ok ()) (s\<lparr>cw_cache := cache_apply_deltas L i ds (cw_cache s)\<rparr>)"
  by (simp add: sc_apply_deltas_def wp_simps)

lemma wp_sc_apply_delta [wp_simps]:
  "wp (sc_apply_delta L i d) Q s = Q (Ok ()) (s\<lparr>cw_cache := cache_apply_deltas L i [d] (cw_cache s)\<rparr>)"
  by (simp add: sc_apply_delta_def wp_simps cache_apply_delta_def cache_apply_deltas_def)

lemma wp_sc_invalidate [wp_simps]:
  "wp (sc_invalidate L i) Q s = Q (Ok ()) (s\<lparr>cw_cache := cache_invalidate L i (cw_cache s)\<rparr>)"
  by (simp add: sc_invalidate_def wp_simps)

lemma wp_sv_alloc_inode [wp_simps]:
  "wp sv_alloc_inode Q s =
     Q (Ok (ia_next (sv_alloc s))) (s\<lparr>sv_alloc := (sv_alloc s)\<lparr>ia_next := ia_next (sv_alloc s) + 1\<rparr>\<rparr>)"
  by (simp add: wp_def sv_alloc_inode_def alloc_def)

lemma wp_inc_open_handles [wp_simps]:
  "wp (inc_open_handles i) Q s = Q (Ok ()) (s\<lparr>sv_open_handles := (sv_open_handles s)(i \<mapsto>
     (case sv_open_handles s i of None \<Rightarrow> 0 | Some c \<Rightarrow> c) + 1)\<rparr>)"
  by (simp add: inc_open_handles_def wp_simps)

lemma shares [simp]: "shares_batch_storage"
  by (simp add: shares_batch_storage_def)

section \<open>Retrying\<close>

text \<open>
  To establish \<open>Q\<close> after the retries it suffices that from every state satisfying the invariant the
  closure establishes \<open>Q\<close>, and the invariant again when it reports a conflict.
\<close>

lemma wp_execute_with_retry:
  assumes "I s" and step: "\<And>s. I s \<Longrightarrow> wp f (\<lambda>r s'. Q r s' \<and> (r = Err TransactionConflict \<longrightarrow> I s')) s"
  shows "wp (execute_with_retry f) Q s"
proof -
  have "wp (retry_loop (Suc n) f) Q s" if "I s" for n s
    using that
  proof (induction n arbitrary: s)
    case 0
    with step [OF 0] show ?case
      by (auto simp: wp_def split: prod.splits outcome.splits)
  next
    case (Suc n)
    obtain r s1 where f: "f s = (r, s1)" by fastforce
    note post = wpD [OF step [OF Suc.prems] f]
    show ?case
    proof (cases "r = Err TransactionConflict")
      case True
      then have "retry_loop (Suc (Suc n)) f s = retry_loop (Suc n) f s1" by (simp add: f)
      with True post Suc.IH [of s1] show ?thesis by (simp add: wp_def del: retry_loop.simps)
    next
      case False
      then have "retry_loop (Suc (Suc n)) f s = (r, s1)" by (cases r) (auto simp: f)
      with post show ?thesis by (simp add: wp_def del: retry_loop.simps)
    qed
  qed
  from this [OF assms(1), of 2] show ?thesis
    by (simp add: execute_with_retry_def TXN_MAX_RETRIES_def numeral_3_eq_3 del: retry_loop.simps)
qed

section \<open>Batches\<close>

text \<open>Counters only move forward, by at most \<open>n\<close>.\<close>

definition seqs_grown :: "nat \<Rightarrow> (inode \<Rightarrow> u64) \<Rightarrow> (inode \<Rightarrow> u64) \<Rightarrow> bool" where
  "seqs_grown n sq sq' \<longleftrightarrow> (\<forall>i. \<exists>k \<le> n. sq' i = sq i + of_nat k)"

lemma seqs_grown_refl [simp]: "seqs_grown n sq sq"
  unfolding seqs_grown_def by (intro allI exI [of _ 0]) simp

lemma seqs_grown_trans: "seqs_grown n a b \<Longrightarrow> seqs_grown m b c \<Longrightarrow> seqs_grown (n + m) a c"
  unfolding seqs_grown_def
proof
  fix i
  assume "\<forall>i. \<exists>k\<le>n. b i = a i + of_nat k" and "\<forall>i. \<exists>k\<le>m. c i = b i + of_nat k"
  then obtain k l where "k \<le> n" "l \<le> m" "c i = a i + of_nat k + of_nat l" by metis
  then show "\<exists>k\<le>n + m. c i = a i + of_nat k"
    by (intro exI [of _ "k + l"]) (simp add: add.assoc)
qed

lemma seqs_grown_mono: "seqs_grown n a b \<Longrightarrow> n \<le> m \<Longrightarrow> seqs_grown m a b"
  unfolding seqs_grown_def by (meson order_trans)

lemma seqs_grown_upd: "k \<le> n \<Longrightarrow> seqs_grown n sq (sq(i := sq i + of_nat k))"
  unfolding seqs_grown_def
proof
  fix j
  assume "k \<le> n"
  then show "\<exists>k'\<le>n. (sq(i := sq i + of_nat k)) j = sq j + of_nat k'"
    by (cases "j = i") (auto intro: exI [of _ k] exI [of _ 0])
qed

lemma seqs_grown_upd_numeral [simp]:
  "numeral k \<le> n \<Longrightarrow> seqs_grown n sq (sq(i := sq i + numeral k))"
  "1 \<le> n \<Longrightarrow> seqs_grown n sq (sq(i := sq i + 1))"
  using seqs_grown_upd [of "numeral k" n sq i] seqs_grown_upd [of 1 n sq i] by simp_all

text \<open>Growing the counters keeps the invariant of the delta keys, as long as none wraps.\<close>

lemma delta_inv_grown:
  assumes "delta_inv V sq" and "seqs_grown n sq sq'" and "\<And>i. unat (sq i) + n < 2 ^ 64"
  shows "delta_inv V sq'"
proof -
  have "sq i \<le> sq' i" for i
  proof -
    obtain k where "k \<le> n" "sq' i = sq i + of_nat k" using assms(2) unfolding seqs_grown_def by blast
    with assms(3) [of i] show ?thesis
      by (simp add: word_le_nat_alt unat_word_ariths unat_of_nat)
  qed
  with assms(1) show ?thesis unfolding delta_inv_def by (meson less_le_trans)
qed

lemma apply_writes_append [simp]: "apply_writes (xs @ ys) V = apply_writes ys (apply_writes xs V)"
  by (induction xs arbitrary: V) auto

lemma decode_dir_entry_value_Ok [simp]: "decode_dir_entry_value b = Ok x \<longleftrightarrow> decode_dir_value b = Ok x"
  by (simp add: decode_dir_entry_value_def decode_dir_value_def DIR_VALUE_SIZE_def)

lemma decode_dir_entry_value_no_panic [simp]: "decode_dir_entry_value b \<noteq> Panic q"
  by (simp add: decode_dir_entry_value_def)

lemmas batch_defs =
  batch_put_inode_def batch_delete_inode_def batch_put_dir_entry_def batch_delete_dir_entry_def
  batch_put_data_location_def batch_delete_data_location_def batch_put_symlink_def batch_delete_symlink_def

context rocksdb
begin

lemma wp_batch_parent_deltas [wp_rules]:
  assumes "\<And>t d seqs. view d = view (kv_db s) \<Longrightarrow>
      pend t = add_writes (delta_writes p (seq_of s p) (map serialize_delta ds)) (pend (kv_txn s)) \<Longrightarrow>
      seq_at seqs = (seq_of s)(p := seq_of s p + of_nat (length ds)) \<Longrightarrow>
      Q (Ok ()) (s\<lparr>kv_db := d, kv_txn := t, kv_seqs := seqs\<rparr>)"
    and "\<And>q t d seqs. view d = view (kv_db s) \<Longrightarrow> seqs_grown (length ds) (seq_of s) (seq_at seqs) \<Longrightarrow>
      Q (Panic q) (s\<lparr>kv_db := d, kv_txn := t, kv_seqs := seqs\<rparr>)"
  shows "wp (batch_parent_deltas R p ds) Q s"
  using assms unfolding batch_parent_deltas_def
proof (induction ds arbitrary: s)
  case Nil
  have "Q (Ok ()) (s\<lparr>kv_db := kv_db s, kv_txn := kv_txn s, kv_seqs := kv_seqs s\<rparr>)"
    by (rule Nil.prems(1)) simp_all
  then show ?case by (simp add: wp_simps)
next
  case (Cons d ds)
  let ?q = "seq_of s p"
  let ?seqs = "(kv_seqs s)(p \<mapsto> ?q + 1)"
  have sq: "seq_at ?seqs = (seq_of s)(p := ?q + 1)" by simp
  have grown1: "seqs_grown 1 (seq_of s) (seq_at ?seqs)"
    unfolding sq using seqs_grown_upd [of 1 1 "seq_of s" p] by simp
  show ?case
  proof (simp add: wp_simps del: fun_upd_apply, rule wp_push)
    fix t e
    assume v: "view e = view (kv_db (s\<lparr>kv_seqs := ?seqs\<rparr>))"
      and t: "pend t = add_writes [batch_write (PutDelta (encode_delta_key p ?q) (serialize_delta d))]
        (pend (kv_txn (s\<lparr>kv_seqs := ?seqs\<rparr>)))"
    show "andthen (\<lambda>_. for_each ds (\<lambda>delta. bind (next_seq p) (\<lambda>seq.
        push R (PutDelta (encode_delta_key p seq) (serialize_delta delta))))) Q (Ok ())
        (s\<lparr>kv_seqs := ?seqs, kv_db := e, kv_txn := t\<rparr>)"
    proof (simp del: fun_upd_apply, rule Cons.IH)
      fix t' d' seqs'
      assume "view d' = view (kv_db (s\<lparr>kv_db := e, kv_txn := t, kv_seqs := ?seqs\<rparr>))"
        and "pend t' = add_writes (delta_writes p (seq_of (s\<lparr>kv_db := e, kv_txn := t, kv_seqs := ?seqs\<rparr>) p)
          (map serialize_delta ds)) (pend (kv_txn (s\<lparr>kv_db := e, kv_txn := t, kv_seqs := ?seqs\<rparr>)))"
        and "seq_at seqs' = (seq_of (s\<lparr>kv_db := e, kv_txn := t, kv_seqs := ?seqs\<rparr>))
          (p := seq_of (s\<lparr>kv_db := e, kv_txn := t, kv_seqs := ?seqs\<rparr>) p + of_nat (length ds))"
      with v t show "Q (Ok ()) (s\<lparr>kv_db := e, kv_txn := t, kv_seqs := ?seqs\<rparr>\<lparr>kv_db := d', kv_txn := t', kv_seqs := seqs'\<rparr>)"
        by (simp, intro Cons.prems(1)) (simp_all add: add.assoc)
    next
      fix q t' d' seqs'
      assume "view d' = view (kv_db (s\<lparr>kv_db := e, kv_txn := t, kv_seqs := ?seqs\<rparr>))"
        and "seqs_grown (length ds) (seq_of (s\<lparr>kv_db := e, kv_txn := t, kv_seqs := ?seqs\<rparr>)) (seq_at seqs')"
      with v grown1 show "Q (Panic q) (s\<lparr>kv_db := e, kv_txn := t, kv_seqs := ?seqs\<rparr>\<lparr>kv_db := d', kv_txn := t', kv_seqs := seqs'\<rparr>)"
        using seqs_grown_trans [of 1 "seq_of s" "seq_at ?seqs" "length ds" "seq_at seqs'"]
        by (simp del: seq_at_upd fun_upd_apply) (rule Cons.prems(2); simp)
    qed
  next
    fix q t e
    assume "view e = view (kv_db (s\<lparr>kv_seqs := ?seqs\<rparr>))"
    with seqs_grown_mono [OF grown1, of "length (d # ds)"]
    show "andthen (\<lambda>_. for_each ds (\<lambda>delta. bind (next_seq p) (\<lambda>seq.
        push R (PutDelta (encode_delta_key p seq) (serialize_delta delta))))) Q (Panic q)
        (s\<lparr>kv_seqs := ?seqs, kv_db := e, kv_txn := t\<rparr>)"
      by (simp del: fun_upd_apply) (rule Cons.prems(2); simp del: fun_upd_apply)
  qed
qed

end

end
