(* ===== verification/Server_Specs.thy ===== *)
theory Server_Specs
  imports Server_Rules
begin

unbundle bit_operations_syntax

text \<open>
  What the operations of the metadata server do to the stored contents and to the in-memory state.
  Each transaction closure gets a contract: when it succeeds, the contents change by an explicit
  list of writes; when it fails in any way, nothing changes but counters that only move forward
  (\<open>quiet\<close>). The retry loop turns a contract of the closure into one of the operation.
\<close>

section \<open>Frames\<close>

definition same_rest :: "('db, 'txn, 'c, 'z) server_scheme \<Rightarrow> ('db, 'txn, 'c, 'z) server_scheme \<Rightarrow> bool" where
  "same_rest s s' \<longleftrightarrow>
     cw_dirty s' = cw_dirty s \<and> cw_running s' = cw_running s \<and> cw_notify_flag s' = cw_notify_flag s \<and>
     cw_config s' = cw_config s \<and> sv_default_loc s' = sv_default_loc s \<and>
     sv_open_handles s' = sv_open_handles s \<and> sv_pending_deletes s' = sv_pending_deletes s \<and>
     sv_clock s' = sv_clock s"

definition alloc_grown :: "nat \<Rightarrow> InodeAllocator \<Rightarrow> InodeAllocator \<Rightarrow> bool" where
  "alloc_grown n a a' \<longleftrightarrow> (\<exists>k \<le> n. ia_next a' = ia_next a + of_nat k)"

text \<open>Nothing visible happened; the counters may have moved forward by at most \<open>n\<close>.\<close>

definition quiet ::
  "('db \<Rightarrow> view) \<Rightarrow> nat \<Rightarrow> ('db, 'txn, 'c, 'z) server_scheme \<Rightarrow> ('db, 'txn, 'c, 'z) server_scheme \<Rightarrow> bool" where
  "quiet view n s s' \<longleftrightarrow>
     view (kv_db s') = view (kv_db s) \<and> cw_cache s' = cw_cache s \<and> same_rest s s' \<and>
     seqs_grown n (seq_of s) (seq_of s') \<and> alloc_grown n (sv_alloc s) (sv_alloc s')"

lemma same_rest_refl [simp]: "same_rest s s"
  by (simp add: same_rest_def)

lemma alloc_grown_refl [simp]: "alloc_grown n a a"
  unfolding alloc_grown_def by (rule exI [of _ 0]) simp

lemma alloc_grown_Suc [simp]: "0 < n \<Longrightarrow> alloc_grown n a (a\<lparr>ia_next := ia_next a + 1\<rparr>)"
  unfolding alloc_grown_def by (rule exI [of _ 1]) simp

lemma quiet_refl [simp]: "quiet view n s s"
  by (simp add: quiet_def)

lemma same_rest_trans: "same_rest a b \<Longrightarrow> same_rest b c \<Longrightarrow> same_rest a c"
  by (simp add: same_rest_def)

lemma alloc_grown_trans: "alloc_grown n a b \<Longrightarrow> alloc_grown m b c \<Longrightarrow> alloc_grown (n + m) a c"
  unfolding alloc_grown_def
proof (elim exE conjE)
  fix k l assume "k \<le> n" "ia_next b = ia_next a + of_nat k" "l \<le> m" "ia_next c = ia_next b + of_nat l"
  then show "\<exists>k\<le>n + m. ia_next c = ia_next a + of_nat k"
    by (intro exI [of _ "k + l"]) (simp add: add.assoc)
qed

lemma quiet_trans: "quiet view n a b \<Longrightarrow> quiet view m b c \<Longrightarrow> quiet view (n + m) a c"
  unfolding quiet_def by (metis alloc_grown_trans same_rest_trans seqs_grown_trans)

lemma quiet_mono: "quiet view n a b \<Longrightarrow> n \<le> m \<Longrightarrow> quiet view m a b"
  unfolding quiet_def alloc_grown_def by (meson order_trans seqs_grown_mono)

text \<open>
  Retrying a closure that is quiet when it fails: the attempts before the last one left no trace
  but forward moves of the counters.
\<close>

lemma wp_retry_quiet:
  assumes "\<And>s. wp f (\<lambda>r s'. T s r s' \<and> (\<not> is_ok r \<longrightarrow> quiet view n s s')) s"
  shows "wp (execute_with_retry f) (\<lambda>r s'. \<exists>s1. quiet view (2 * n) s s1 \<and> T s1 r s' \<and>
    (\<not> is_ok r \<longrightarrow> quiet view n s1 s')) s"
proof -
  have "wp (retry_loop (Suc m) f) (\<lambda>r s'. \<exists>s1. quiet view (m * n) s s1 \<and> T s1 r s' \<and>
      (\<not> is_ok r \<longrightarrow> quiet view n s1 s')) s" for m s
  proof (induction m arbitrary: s)
    case 0
    obtain r s1 where f: "f s = (r, s1)" by fastforce
    then have "retry_loop (Suc 0) f s = (r, s1)" by (cases r) auto
    with wpD [OF assms f] show ?case by (auto simp: wp_def simp del: retry_loop.simps intro!: exI [of _ s])
  next
    case (Suc m)
    obtain r s1 where f: "f s = (r, s1)" by fastforce
    note post = wpD [OF assms f]
    show ?case
    proof (cases "r = Err TransactionConflict")
      case True
      then have "retry_loop (Suc (Suc m)) f s = retry_loop (Suc m) f s1" by (simp add: f)
      moreover have "wp (retry_loop (Suc m) f) (\<lambda>r s'. \<exists>s2. quiet view (Suc m * n) s s2 \<and> T s2 r s' \<and>
          (\<not> is_ok r \<longrightarrow> quiet view n s2 s')) s1"
      proof (rule wp_mono [OF Suc.IH], elim exE conjE)
        fix r s' s2
        assume "quiet view (m * n) s1 s2" and rest: "T s2 r s'" "\<not> is_ok r \<longrightarrow> quiet view n s2 s'"
        with post True have "quiet view (n + m * n) s s2" by (auto intro: quiet_trans)
        with rest show "\<exists>s2. quiet view (Suc m * n) s s2 \<and> T s2 r s' \<and> (\<not> is_ok r \<longrightarrow> quiet view n s2 s')"
          by auto
      qed
      ultimately show ?thesis by (simp add: wp_def del: retry_loop.simps)
    next
      case False
      then have "retry_loop (Suc (Suc m)) f s = (r, s1)" by (cases r) (auto simp: f)
      with post show ?thesis
        by (auto simp: wp_def simp del: retry_loop.simps intro!: exI [of _ s])
    qed
  qed
  from this [of 2 s] show ?thesis
    by (simp add: execute_with_retry_def TXN_MAX_RETRIES_def numeral_3_eq_3 numeral_2_eq_2
        del: retry_loop.simps)
qed

section \<open>New directory entries: create, mkdir, symlink\<close>

definition inode_write :: "InodeValue \<Rightarrow> cf \<times> bytes \<times> bytes option" where
  "inode_write iv = (CF_INODES, encode_inode_key (iv_inode iv), Some (serialize iv))"

text \<open>The writes that create \<open>iv\<close> under \<open>name\<close> in \<open>parent\<close>; \<open>extra\<close> is the record kept beside the inode.\<close>

definition entry_writes ::
  "inode \<Rightarrow> str \<Rightarrow> InodeValue \<Rightarrow> (cf \<times> bytes \<times> bytes option) list \<Rightarrow> u64 \<Rightarrow> DeltaOp list
   \<Rightarrow> (cf \<times> bytes \<times> bytes option) list" where
  "entry_writes parent name iv extra q ds =
     [(CF_INODES, encode_inode_key (iv_inode iv), Some (serialize iv)),
      (CF_DIR_ENTRIES, encode_dir_entry_key parent name, Some (encode_dir_value (iv_inode iv) (iv_mode iv)))]
     @ extra @ delta_writes parent q (map serialize_delta ds)"

definition created ::
  "('db \<Rightarrow> view) \<Rightarrow> inode \<Rightarrow> str \<Rightarrow> InodeValue \<Rightarrow> (cf \<times> bytes \<times> bytes option) list \<Rightarrow> DeltaOp list
   \<Rightarrow> ('db, 'txn, 'c, 'z) server_scheme \<Rightarrow> ('db, 'txn, 'c, 'z) server_scheme \<Rightarrow> bool" where
  "created view parent name iv extra ds s s' \<longleftrightarrow>
     view (kv_db s) CF_DIR_ENTRIES (encode_dir_entry_key parent name) = None \<and>
     iv_version iv = FORMAT_VERSION \<and> iv_inode iv = ia_next (sv_alloc s) \<and>
     ia_next (sv_alloc s') = ia_next (sv_alloc s) + 1 \<and>
     view (kv_db s') = apply_writes (entry_writes parent name iv extra (seq_of s parent) ds) (view (kv_db s)) \<and>
     seq_of s' = (seq_of s)(parent := seq_of s parent + of_nat (length ds)) \<and>
     cw_cache s' = cw_cache s \<and> same_rest s s'"

text \<open>Failures of the closures: which errors, and under which condition on the contents.\<close>

definition entry_exists_error :: "view \<Rightarrow> inode \<Rightarrow> str \<Rightarrow> 'a FsResult \<Rightarrow> bool" where
  "entry_exists_error V p n r \<longleftrightarrow>
     (\<forall>e. r = Err e \<longrightarrow>
        e = AlreadyExists \<and> V CF_DIR_ENTRIES (encode_dir_entry_key p n) \<noteq> None \<or> txn_error e)"

definition new_inode_value :: "inode \<Rightarrow> u64 \<Rightarrow> u32 \<Rightarrow> u32 \<Rightarrow> u32 \<Rightarrow> u32 \<Rightarrow> u64 \<Rightarrow> InodeValue" where
  "new_inode_value i sz mode nlink uid gid ts =
     \<lparr>iv_version = 1, iv_inode = i, iv_size = sz, iv_mode = mode, iv_nlink = nlink, iv_uid = uid,
      iv_gid = gid, iv_atime = ts, iv_mtime = ts, iv_ctime = ts\<rparr>"

section \<open>Updates of one inode: setattr, open with truncation, report of a write\<close>

definition updated ::
  "('db \<Rightarrow> view) \<Rightarrow> 'c lru \<Rightarrow> inode \<Rightarrow> InodeValue \<Rightarrow> InodeValue
   \<Rightarrow> ('db, 'txn, 'c, 'z) server_scheme \<Rightarrow> ('db, 'txn, 'c, 'z) server_scheme \<Rightarrow> bool" where
  "updated view L i iv iv' s s' \<longleftrightarrow>
     stored (view (kv_db s)) i = Some iv \<and>
     view (kv_db s') = upd CF_INODES (encode_inode_key i) (Some (serialize iv')) (view (kv_db s)) \<and>
     cw_cache s' = cache_put L i iv' (cw_cache s) \<and> same_rest s s' \<and>
     seq_of s' = seq_of s \<and> sv_alloc s' = sv_alloc s"

definition inode_error :: "view \<Rightarrow> inode \<Rightarrow> 'a FsResult \<Rightarrow> bool" where
  "inode_error V i r \<longleftrightarrow> (\<forall>e. r = Err e \<longrightarrow>
     V CF_INODES (encode_inode_key i) = None \<and> e = NotFound \<or>
     V CF_INODES (encode_inode_key i) \<noteq> None \<and> stored V i = None \<or> txn_error e)"

section \<open>Removal: unlink, rmdir\<close>

text \<open>\<^verbatim>\<open>let _ = clear_deltas(c)\<close> after a commit: done, or skipped because it failed.\<close>

definition cleared :: "inode \<Rightarrow> view \<Rightarrow> (inode \<Rightarrow> u64) \<Rightarrow> view \<Rightarrow> (inode \<Rightarrow> u64) \<Rightarrow> bool" where
  "cleared c V sq V' sq' \<longleftrightarrow> V' = V \<and> sq' = sq \<or> V' = drop_deltas c V \<and> sq' = sq(c := 0)"

definition unlink_writes ::
  "inode \<Rightarrow> str \<Rightarrow> inode \<Rightarrow> InodeValue option \<Rightarrow> u64 \<Rightarrow> u64 \<Rightarrow> (cf \<times> bytes \<times> bytes option) list" where
  "unlink_writes p n c keep q ts =
     (CF_DIR_ENTRIES, encode_dir_entry_key p n, None) #
     (case keep of
        Some iv \<Rightarrow> [(CF_INODES, encode_inode_key c, Some (serialize iv))]
      | None \<Rightarrow> [(CF_INODES, encode_inode_key c, None), (CF_INODES, encode_data_location_key c, None)])
     @ delta_writes p q (map serialize_delta [SetMtime ts, SetCtime ts])"

definition sat_dec :: "u32 \<Rightarrow> u32" where
  "sat_dec n = (if n = 0 then 0 else n - 1)"

definition open_count :: "('db, 'txn, 'c, 'z) server_scheme \<Rightarrow> inode \<Rightarrow> u32" where
  "open_count s i = (case sv_open_handles s i of None \<Rightarrow> 0 | Some c \<Rightarrow> c)"

text \<open>
  One link of \<open>c\<close> is gone. The inode stays (with one link less and a new change time) while it has
  links or open handles, otherwise it is deleted with its data location.
\<close>

definition unlinked ::
  "('db \<Rightarrow> view) \<Rightarrow> 'c lru \<Rightarrow> inode \<Rightarrow> str \<Rightarrow> inode \<Rightarrow> (inode \<times> bool) option \<Rightarrow> u64
   \<Rightarrow> ('db, 'txn, 'c, 'z) server_scheme \<Rightarrow> ('db, 'txn, 'c, 'z) server_scheme \<Rightarrow> bool" where
  "unlinked view L p n c result ts s s' \<longleftrightarrow>
     (\<exists>m iv t. dirent (view (kv_db s)) p n = Some (c, m) \<and> \<not> is_dir m \<and>
       stored (view (kv_db s)) c = Some iv \<and>
       (let nl = sat_dec (iv_nlink iv); iv' = iv\<lparr>iv_nlink := nl, iv_ctime := t\<rparr>;
            keep = (nl \<noteq> 0 \<or> open_count s c > 0);
            V' = apply_writes (unlink_writes p n c (if keep then Some iv' else None) (seq_of s p) ts) (view (kv_db s));
            sq' = (seq_of s)(p := seq_of s p + 2)
        in result = (if nl \<noteq> 0 then None else Some (c, keep)) \<and>
           (if keep
            then view (kv_db s') = V' \<and> seq_of s' = sq' \<and> cw_cache s' = cache_put L c iv' (cw_cache s)
            else cleared c V' sq' (view (kv_db s')) (seq_of s') \<and>
                 cw_cache s' = cache_invalidate L c (cw_cache s)))) \<and>
     same_rest s s' \<and> sv_alloc s' = sv_alloc s"

definition entry_error :: "view \<Rightarrow> inode \<Rightarrow> str \<Rightarrow> FsError \<Rightarrow> bool" where
  "entry_error V p n e \<longleftrightarrow>
     V CF_DIR_ENTRIES (encode_dir_entry_key p n) = None \<and> e = NotFound \<or>
     V CF_DIR_ENTRIES (encode_dir_entry_key p n) \<noteq> None \<and> dirent V p n = None \<or>
     (\<exists>c m. dirent V p n = Some (c, m) \<and> stored V c = None) \<or> txn_error e"

definition rmdir_writes :: "inode \<Rightarrow> str \<Rightarrow> inode \<Rightarrow> u64 \<Rightarrow> u64 \<Rightarrow> (cf \<times> bytes \<times> bytes option) list" where
  "rmdir_writes p n c q ts =
     [(CF_DIR_ENTRIES, encode_dir_entry_key p n, None), (CF_INODES, encode_inode_key c, None)]
     @ delta_writes p q (map serialize_delta [IncrementNlink (- 1), SetMtime ts, SetCtime ts])"

definition dir_empty :: "view \<Rightarrow> inode \<Rightarrow> bool" where
  "dir_empty V i \<longleftrightarrow> (\<forall>k. prefix (dir_entry_prefix i) k \<longrightarrow> V CF_DIR_ENTRIES k = None)"

definition rmdired ::
  "('db \<Rightarrow> view) \<Rightarrow> 'c lru \<Rightarrow> inode \<Rightarrow> str \<Rightarrow> inode \<Rightarrow> u64
   \<Rightarrow> ('db, 'txn, 'c, 'z) server_scheme \<Rightarrow> ('db, 'txn, 'c, 'z) server_scheme \<Rightarrow> bool" where
  "rmdired view L p n c ts s s' \<longleftrightarrow>
     (\<exists>m. dirent (view (kv_db s)) p n = Some (c, m) \<and> is_dir m) \<and> dir_empty (view (kv_db s)) c \<and>
     view (kv_db s) CF_INODES (encode_inode_key c) \<noteq> None \<and>
     cleared c (apply_writes (rmdir_writes p n c (seq_of s p) ts) (view (kv_db s)))
       ((seq_of s)(p := seq_of s p + 3)) (view (kv_db s')) (seq_of s') \<and>
     cw_cache s' = cache_invalidate L c (cw_cache s) \<and> same_rest s s' \<and> sv_alloc s' = sv_alloc s"

section \<open>Hard links\<close>

definition link_writes :: "inode \<Rightarrow> str \<Rightarrow> inode \<Rightarrow> InodeValue \<Rightarrow> u64 \<Rightarrow> u64 \<Rightarrow> (cf \<times> bytes \<times> bytes option) list" where
  "link_writes p n i iv q ts =
     [(CF_INODES, encode_inode_key i, Some (serialize iv)),
      (CF_DIR_ENTRIES, encode_dir_entry_key p n, Some (encode_dir_value i (iv_mode iv)))]
     @ delta_writes p q (map serialize_delta [SetMtime ts, SetCtime ts])"

definition linked ::
  "('db \<Rightarrow> view) \<Rightarrow> 'c lru \<Rightarrow> inode \<Rightarrow> str \<Rightarrow> inode \<Rightarrow> InodeValue \<Rightarrow> u64
   \<Rightarrow> ('db, 'txn, 'c, 'z) server_scheme \<Rightarrow> ('db, 'txn, 'c, 'z) server_scheme \<Rightarrow> bool" where
  "linked view L p n i iv' ts s s' \<longleftrightarrow>
     (\<exists>iv t piv. stored (view (kv_db s)) i = Some iv \<and> \<not> is_dir (iv_mode iv) \<and>
        stored (view (kv_db s)) p = Some piv \<and> is_dir (iv_mode piv) \<and>
        iv' = iv\<lparr>iv_nlink := iv_nlink iv + 1, iv_ctime := t\<rparr>) \<and>
     view (kv_db s) CF_DIR_ENTRIES (encode_dir_entry_key p n) = None \<and>
     view (kv_db s') = apply_writes (link_writes p n i iv' (seq_of s p) ts) (view (kv_db s)) \<and>
     seq_of s' = (seq_of s)(p := seq_of s p + 2) \<and>
     cw_cache s' = cache_put L i iv' (cw_cache s) \<and> same_rest s s' \<and> sv_alloc s' = sv_alloc s"

text \<open>When \<^verbatim>\<open>link\<close> is refused.\<close>

definition link_error :: "view \<Rightarrow> inode \<Rightarrow> str \<Rightarrow> inode \<Rightarrow> FsError \<Rightarrow> bool" where
  "link_error V p n i e \<longleftrightarrow>
     stored V i = None \<or> stored V p = None \<or> txn_error e \<or>
     e = PermissionDenied \<and> (\<exists>iv. stored V i = Some iv \<and> is_dir (iv_mode iv)) \<or>
     e = AlreadyExists \<and> V CF_DIR_ENTRIES (encode_dir_entry_key p n) \<noteq> None \<or>
     e = NotADirectory \<and> (\<exists>piv. stored V p = Some piv \<and> \<not> is_dir (iv_mode piv))"

context rocksdb
begin

lemmas server_rules =
  wp_begin_write wp_get_for_update_inode wp_get_for_update_dir_entry wp_push wp_commit
  wp_batch_parent_deltas wp_is_dir_empty

lemmas quiet_simps =
  quiet_def same_rest_def txn_error_def FORMAT_VERSION_def encode_dir_value_def new_inode_value_def

lemma wp_create_txn:
  "wp (create_txn R p n mode uid gid) (\<lambda>r s'.
     (\<forall>iv i. r = Ok (iv, i) \<longrightarrow> (\<exists>ts. i = iv_inode iv \<and>
        iv = new_inode_value i 0 (S_IFREG OR (mode AND 0xFFF)) 1 uid gid ts \<and>
        created view p n iv [(CF_INODES, encode_data_location_key i, Some (server_id (sv_default_loc s)))]
          [SetMtime ts, SetCtime ts] s s')) \<and>
     entry_exists_error (view (kv_db s)) p n r \<and>
     (\<not> is_ok r \<longrightarrow> quiet view 4 s s')) s"
  unfolding create_txn_def batch_defs
  by (auto simp: wp_simps Let_def simp del: delta_writes.simps intro!: server_rules)
    (auto simp: entry_exists_error_def created_def entry_writes_def quiet_simps
      simp del: delta_writes.simps elim: seqs_grown_mono)

lemma wp_mkdir_txn:
  "wp (mkdir_txn R p n mode uid gid) (\<lambda>r s'.
     (\<forall>iv i. r = Ok (iv, i) \<longrightarrow> (\<exists>ts. i = iv_inode iv \<and>
        iv = new_inode_value i 0 (S_IFDIR OR (mode AND 0xFFF)) 2 uid gid ts \<and>
        created view p n iv [] [IncrementNlink 1, SetMtime ts, SetCtime ts] s s')) \<and>
     entry_exists_error (view (kv_db s)) p n r \<and>
     (\<not> is_ok r \<longrightarrow> quiet view 4 s s')) s"
  unfolding mkdir_txn_def batch_defs
  by (auto simp: wp_simps Let_def simp del: delta_writes.simps intro!: server_rules)
    (auto simp: entry_exists_error_def created_def entry_writes_def quiet_simps
      simp del: delta_writes.simps elim: seqs_grown_mono)

lemma wp_symlink_txn:
  "wp (symlink_txn R p n target uid gid) (\<lambda>r s'.
     (\<forall>iv i. r = Ok (iv, i) \<longrightarrow> (\<exists>ts. i = iv_inode iv \<and>
        iv = new_inode_value i (of_nat (length target)) (S_IFLNK OR 0x1FF) 1 uid gid ts \<and>
        created view p n iv [(CF_INODES, encode_symlink_key i, Some target)] [SetMtime ts, SetCtime ts] s s')) \<and>
     entry_exists_error (view (kv_db s)) p n r \<and>
     (\<not> is_ok r \<longrightarrow> quiet view 4 s s')) s"
  unfolding symlink_txn_def batch_defs
  by (auto simp: wp_simps Let_def simp del: delta_writes.simps intro!: server_rules)
    (auto simp: entry_exists_error_def created_def entry_writes_def quiet_simps
      simp del: delta_writes.simps elim: seqs_grown_mono)

lemma stored_Some:
  "stored V i = Some iv \<longleftrightarrow> (\<exists>raw. V CF_INODES (encode_inode_key i) = Some raw \<and> deserialize raw = Ok iv)"
  by (auto simp: stored_def split: option.splits elim: ok_value.elims)

lemma stored_absent: "V CF_INODES (encode_inode_key i) = None \<Longrightarrow> stored V i = None"
  by (simp add: stored_def)

lemma stored_None:
  "V CF_INODES (encode_inode_key i) = Some raw \<Longrightarrow> deserialize raw = Err e \<Longrightarrow> stored V i = None"
  by (simp add: stored_def)

lemma dirent_Some:
  "dirent V p n = Some x \<longleftrightarrow> (\<exists>b. V CF_DIR_ENTRIES (encode_dir_entry_key p n) = Some b \<and> decode_dir_value b = Ok x)"
  by (auto simp: dirent_def split: option.splits elim: ok_value.elims)

lemma wp_setattr_txn:
  "wp (setattr_txn R L i req) (\<lambda>r s'.
     (\<forall>attr trunc. r = Ok (attr, trunc) \<longrightarrow> (\<exists>iv ts iv'. apply_setattr req ts iv = (iv', trunc) \<and>
        attr = to_attr iv' \<and> updated view L i iv iv' s s')) \<and>
     inode_error (view (kv_db s)) i r \<and>
     (\<not> is_ok r \<longrightarrow> quiet view 4 s s')) s"
  unfolding setattr_txn_def batch_defs
  by (auto simp: wp_simps andthen_case intro!: server_rules split: option.split outcome.split prod.split)
    (auto simp: inode_error_def updated_def quiet_simps stored_Some stored_None)

lemma wp_open_trunc_txn:
  "wp (open_trunc_txn R L i) (\<lambda>r s'.
     (r = Ok () \<longrightarrow> (\<exists>iv ts. updated view L i iv (iv\<lparr>iv_size := 0, iv_mtime := ts, iv_ctime := ts\<rparr>) s s')) \<and>
     inode_error (view (kv_db s)) i r \<and>
     (\<not> is_ok r \<longrightarrow> quiet view 4 s s')) s"
  unfolding open_trunc_txn_def batch_defs
  by (auto simp: wp_simps andthen_case Let_def intro!: server_rules split: option.split outcome.split)
    (auto simp: inode_error_def updated_def quiet_simps stored_Some stored_None)

lemma wp_report_write_txn:
  "wp (report_write_txn R L i sz mt) (\<lambda>r s'.
     (r = Ok () \<longrightarrow> (\<exists>iv. updated view L i iv
        (iv\<lparr>iv_size := max sz (iv_size iv), iv_mtime := mt, iv_ctime := mt\<rparr>) s s')) \<and>
     inode_error (view (kv_db s)) i r \<and>
     (\<not> is_ok r \<longrightarrow> quiet view 4 s s')) s"
  unfolding report_write_txn_def batch_defs
  by (auto simp: wp_simps andthen_case Let_def intro!: server_rules split: option.split outcome.split)
    (auto simp: inode_error_def updated_def quiet_simps stored_Some stored_None max_def)

lemma wp_release_txn:
  "wp (release_txn R i) (\<lambda>r s'.
     (r = Ok () \<longrightarrow> view (kv_db s') = apply_writes [(CF_INODES, encode_inode_key i, None),
          (CF_INODES, encode_data_location_key i, None)] (view (kv_db s)) \<and>
        same_rest s s' \<and> cw_cache s' = cw_cache s \<and> seq_of s' = seq_of s \<and> sv_alloc s' = sv_alloc s) \<and>
     (\<forall>e. r = Err e \<longrightarrow> txn_error e) \<and>
     (\<not> is_ok r \<longrightarrow> quiet view 4 s s')) s"
  unfolding release_txn_def batch_defs
  by (auto simp: wp_simps intro!: server_rules) (auto simp: quiet_simps)

lemma dirent_None:
  "V CF_DIR_ENTRIES (encode_dir_entry_key p n) = Some b \<Longrightarrow> decode_dir_entry_value b = Err e \<Longrightarrow> dirent V p n = None"
  using decode_dir_entry_value_Ok [of b]
  by (cases "decode_dir_value b") (auto simp: dirent_def)

lemmas lookup_simps = stored_Some stored_None stored_absent dirent_Some dirent_None

lemma wp_unlink_txn:
  "wp (unlink_txn R L p n) (\<lambda>r s'.
     (\<forall>result ts. r = Ok (result, ts) \<longrightarrow> (\<exists>c. unlinked view L p n c result ts s s')) \<and>
     (\<forall>e. r = Err e \<longrightarrow> entry_error (view (kv_db s)) p n e \<or>
        e = IsADirectory \<and> (\<exists>c m. dirent (view (kv_db s)) p n = Some (c, m) \<and> is_dir m)) \<and>
     (\<not> is_ok r \<longrightarrow> quiet view 4 s s')) s"
  unfolding unlink_txn_def batch_defs
  apply (auto simp: wp_simps andthen_case Let_def simp del: delta_writes.simps intro!: server_rules wp_clear_deltas
      split: option.split outcome.split prod.split)
  apply (auto simp: entry_error_def unlinked_def unlink_writes_def quiet_simps lookup_simps sat_dec_def open_count_def cleared_def Let_def
      simp del: delta_writes.simps elim: seqs_grown_mono)
  done

lemma wp_link_txn:
  "wp (link_txn R L p n i) (\<lambda>r s'.
     (\<forall>iv' ts. r = Ok (iv', ts) \<longrightarrow> linked view L p n i iv' ts s s') \<and>
     (\<forall>e. r = Err e \<longrightarrow> link_error (view (kv_db s)) p n i e) \<and>
     (\<not> is_ok r \<longrightarrow> quiet view 4 s s')) s"
  unfolding link_txn_def batch_defs
  by (auto simp: wp_simps andthen_case Let_def simp del: delta_writes.simps intro!: server_rules
      split: option.split outcome.split)
    (auto simp: link_error_def linked_def link_writes_def quiet_simps lookup_simps
      simp del: delta_writes.simps elim: seqs_grown_mono)

lemma wp_rmdir_txn:
  "wp (rmdir_txn R L p n) (\<lambda>r s'.
     (\<forall>ts. r = Ok ts \<longrightarrow> (\<exists>c. rmdired view L p n c ts s s')) \<and>
     (\<forall>e. r = Err e \<longrightarrow> entry_error (view (kv_db s)) p n e \<or>
        (\<exists>c m. dirent (view (kv_db s)) p n = Some (c, m) \<and>
           (e = NotADirectory \<and> \<not> is_dir m \<or> e = DirectoryNotEmpty \<and> \<not> dir_empty (view (kv_db s)) c))) \<and>
     (\<not> is_ok r \<longrightarrow> quiet view 4 s s')) s"
  unfolding rmdir_txn_def batch_defs
  by (auto simp: wp_simps andthen_case Let_def simp del: delta_writes.simps intro!: server_rules wp_clear_deltas
      split: option.split outcome.split prod.split)
    (auto simp: entry_error_def rmdired_def rmdir_writes_def quiet_simps lookup_simps cleared_def dir_empty_def
      simp del: delta_writes.simps elim: seqs_grown_mono)

end

end
