(* ===== verification/Server_Rename.thy ===== *)
theory Server_Rename
  imports Server_Specs
begin

text \<open>The contract of the \<^verbatim>\<open>rename\<close> transaction of \<^verbatim>\<open>src/server/src/lib.rs\<close>.\<close>

section \<open>Deltas for several parents\<close>

fun group_writes ::
  "(inode \<Rightarrow> u64) \<Rightarrow> (inode \<times> DeltaOp list) list \<Rightarrow> (cf \<times> bytes \<times> bytes option) list" where
  "group_writes sq [] = []"
| "group_writes sq ((i, ds) # gs) =
     delta_writes i (sq i) (map serialize_delta ds) @ group_writes (sq(i := sq i + of_nat (length ds))) gs"

fun group_seqs :: "(inode \<Rightarrow> u64) \<Rightarrow> (inode \<times> DeltaOp list) list \<Rightarrow> inode \<Rightarrow> u64" where
  "group_seqs sq [] = sq"
| "group_seqs sq ((i, ds) # gs) = group_seqs (sq(i := sq i + of_nat (length ds))) gs"

text \<open>The deltas a rename adds, parent by parent in the order of the code.\<close>

definition rename_groups :: "inode \<Rightarrow> inode \<Rightarrow> bool \<Rightarrow> bool \<Rightarrow> u64 \<Rightarrow> (inode \<times> DeltaOp list) list" where
  "rename_groups p p' sdir dwas ts =
     (if dwas then [(p', [IncrementNlink (- 1)])] else []) @
     (if sdir \<and> p \<noteq> p' then [(p, [IncrementNlink (- 1)]), (p', [IncrementNlink 1])] else []) @
     [(p, [SetMtime ts, SetCtime ts])] @
     (if p \<noteq> p' then [(p', [SetMtime ts, SetCtime ts])] else [])"

lemma seqs_grown_group: "seqs_grown (sum_list (map (length \<circ> snd) gs)) sq (group_seqs sq gs)"
proof (induction gs arbitrary: sq)
  case (Cons g gs)
  obtain i ds where g: "g = (i, ds)" by (cases g)
  show ?case
    using seqs_grown_trans [OF seqs_grown_upd [OF order_refl, of "length ds" sq i] Cons.IH]
    by (simp add: g comp_def del: fun_upd_apply)
qed simp

lemma seqs_grown_rename: "seqs_grown 7 sq (group_seqs sq (rename_groups p p' sdir dwas ts))"
  by (rule seqs_grown_mono [OF seqs_grown_group]) (simp add: rename_groups_def)

text \<open>
  The target of the rename: absent, an empty directory, a file that keeps other links, or a file
  whose last link it is. For each, the writes on the target's inode and the inode to delete.
\<close>

definition dst_effect ::
  "view \<Rightarrow> bool \<Rightarrow> (inode \<times> u32) option \<Rightarrow> u64 \<Rightarrow> (cf \<times> bytes \<times> bytes option) list \<Rightarrow> inode option \<Rightarrow> bool \<Rightarrow> bool" where
  "dst_effect V sdir dst ts ws doomed dwas \<longleftrightarrow>
     (case dst of
        None \<Rightarrow> ws = [] \<and> doomed = None \<and> \<not> dwas
      | Some (d, dm) \<Rightarrow>
          is_dir dm = sdir \<and>
          (if sdir then dir_empty V d \<and> ws = [] \<and> doomed = None \<and> dwas
           else \<not> dwas \<and> (\<exists>iv. stored V d = Some iv \<and>
             (if iv_nlink iv > 1
              then ws = [(CF_INODES, encode_inode_key d,
                     Some (serialize (iv\<lparr>iv_nlink := iv_nlink iv - 1, iv_ctime := ts\<rparr>)))] \<and> doomed = None
              else ws = [] \<and> doomed = Some d))))"

definition rename_writes ::
  "inode \<Rightarrow> str \<Rightarrow> inode \<Rightarrow> str \<Rightarrow> inode \<Rightarrow> InodeValue \<Rightarrow> (inode \<times> u32) option \<Rightarrow> inode option \<Rightarrow> u64
   \<Rightarrow> (cf \<times> bytes \<times> bytes option) list" where
  "rename_writes p n p' n' src iv dst doomed ts =
     (case dst of
        Some (d, _) \<Rightarrow> (CF_DIR_ENTRIES, encode_dir_entry_key p' n', None) #
          (if doomed \<noteq> None
           then [(CF_INODES, encode_inode_key d, None), (CF_INODES, encode_data_location_key d, None)] else [])
      | None \<Rightarrow> []) @
     [(CF_DIR_ENTRIES, encode_dir_entry_key p n, None),
      (CF_DIR_ENTRIES, encode_dir_entry_key p' n', Some (encode_dir_value src (iv_mode iv))),
      (CF_INODES, encode_inode_key src, Some (serialize (iv\<lparr>iv_ctime := ts\<rparr>)))]"

definition renamed ::
  "('db \<Rightarrow> view) \<Rightarrow> 'c lru \<Rightarrow> inode \<Rightarrow> str \<Rightarrow> inode \<Rightarrow> str \<Rightarrow> RenameResult
   \<Rightarrow> ('db, 'txn, 'c, 'z) server_scheme \<Rightarrow> ('db, 'txn, 'c, 'z) server_scheme \<Rightarrow> bool" where
  "renamed view L p n p' n' res s s' \<longleftrightarrow>
     (\<exists>src m iv dst ws. dirent (view (kv_db s)) p n = Some (src, m) \<and>
        stored (view (kv_db s)) src = Some iv \<and> rn_src_is_dir res = is_dir (iv_mode iv) \<and>
        dirent (view (kv_db s)) p' n' = dst \<and>
        (dst = None \<longrightarrow> view (kv_db s) CF_DIR_ENTRIES (encode_dir_entry_key p' n') = None) \<and>
        dst_effect (view (kv_db s)) (rn_src_is_dir res) dst (rn_ts res) ws (rn_delete_inode res) (rn_dst_was_dir res) \<and>
        (let gs = rename_groups p p' (rn_src_is_dir res) (rn_dst_was_dir res) (rn_ts res);
             V' = apply_writes (ws @ rename_writes p n p' n' src iv dst (rn_delete_inode res) (rn_ts res)
                    @ group_writes (seq_of s) gs) (view (kv_db s));
             sq' = group_seqs (seq_of s) gs
         in (case dst of
               None \<Rightarrow> view (kv_db s') = V' \<and> seq_of s' = sq' \<and>
                 cw_cache s' = cache_put L src (iv\<lparr>iv_ctime := rn_ts res\<rparr>) (cw_cache s)
             | Some (d, _) \<Rightarrow> cleared d V' sq' (view (kv_db s')) (seq_of s') \<and>
                 cw_cache s' = cache_put L src (iv\<lparr>iv_ctime := rn_ts res\<rparr>) (cache_invalidate L d (cw_cache s))))) \<and>
     same_rest s s' \<and> sv_alloc s' = sv_alloc s"

text \<open>Some stored inode value does not parse.\<close>

definition unreadable :: "view \<Rightarrow> bool" where
  "unreadable V \<longleftrightarrow> (\<exists>i. V CF_INODES (encode_inode_key i) \<noteq> None \<and> stored V i = None)"

lemma unreadableI: "V CF_INODES (encode_inode_key i) = Some b \<Longrightarrow> deserialize b = Err e \<Longrightarrow> unreadable V"
  unfolding unreadable_def by (rule exI [of _ i]) (simp add: stored_def)

text \<open>When a rename is refused.\<close>

definition rename_error :: "view \<Rightarrow> inode \<Rightarrow> str \<Rightarrow> inode \<Rightarrow> str \<Rightarrow> FsError \<Rightarrow> bool" where
  "rename_error V p n p' n' e \<longleftrightarrow>
     entry_error V p n e \<or>
     V CF_DIR_ENTRIES (encode_dir_entry_key p' n') \<noteq> None \<and> dirent V p' n' = None \<or>
     unreadable V \<or>
     (\<exists>src m iv d dm. dirent V p n = Some (src, m) \<and> stored V src = Some iv \<and> dirent V p' n' = Some (d, dm) \<and>
        (e = NotADirectory \<and> is_dir (iv_mode iv) \<and> \<not> is_dir dm \<or>
         e = IsADirectory \<and> \<not> is_dir (iv_mode iv) \<and> is_dir dm \<or>
         e = DirectoryNotEmpty \<and> is_dir dm \<and> \<not> dir_empty V d \<or>
         e = NotFound \<and> stored V d = None))"

lemma set_rename_lock_order:
  "src \<in> set (rename_lock_order src dst p p')"
  "dst = Some (d, m) \<Longrightarrow> d \<in> set (rename_lock_order src dst p p')"
  by (auto simp: rename_lock_order_def Let_def)

definition rename_ops ::
  "inode \<Rightarrow> str \<Rightarrow> inode \<Rightarrow> str \<Rightarrow> inode \<Rightarrow> InodeValue \<Rightarrow> (inode \<times> u32) option \<Rightarrow> inode option \<Rightarrow> u64
   \<Rightarrow> BatchOp list" where
  "rename_ops p n p' n' src iv dst doomed ts =
     (case dst of
        Some (d, _) \<Rightarrow> DeleteDirEntry (encode_dir_entry_key p' n') #
          (if doomed \<noteq> None
           then [DeleteInode (encode_inode_key d), DeleteDataLocation (encode_data_location_key d)] else [])
      | None \<Rightarrow> []) @
     [DeleteDirEntry (encode_dir_entry_key p n),
      PutDirEntry (encode_dir_entry_key p' n') (encode_dir_value src (iv_mode iv)),
      PutInode (encode_inode_key src) (serialize (iv\<lparr>iv_ctime := ts\<rparr>))]"

lemma rename_ops_writes:
  "map batch_write (rename_ops p n p' n' src iv dst doomed ts) = rename_writes p n p' n' src iv dst doomed ts"
  by (simp add: rename_ops_def rename_writes_def split: option.split)

context rocksdb
begin

lemma wp_lock_inodes:
  assumes pend: "pend (kv_txn s) = no_writes"
    and "\<And>m' t d. view d = view (kv_db s) \<Longrightarrow> pend t = no_writes \<Longrightarrow>
      (\<forall>i. m' i = (if i \<in> set inos \<and> stored (view (kv_db s)) i \<noteq> None then stored (view (kv_db s)) i else m i)) \<Longrightarrow>
      Q (Ok m') (s\<lparr>kv_db := d, kv_txn := t\<rparr>)"
    and "\<And>e t d. view d = view (kv_db s) \<Longrightarrow>
      txn_error e \<or> unreadable (view (kv_db s)) \<Longrightarrow>
      Q (Err e) (s\<lparr>kv_db := d, kv_txn := t\<rparr>)"
  shows "wp (lock_inodes R inos m) Q s"
  using assms
proof (induction inos arbitrary: s m)
  case Nil
  have "Q (Ok m) (s\<lparr>kv_db := kv_db s, kv_txn := kv_txn s\<rparr>)"
    by (rule Nil.prems(2)) (simp_all add: Nil.prems(1))
  then show ?case by (simp add: wp_simps)
next
  case (Cons ino inos)
  have rest: "wp (lock_inodes R inos m1) Q (s\<lparr>kv_db := d, kv_txn := t\<rparr>)"
    if d: "view d = view (kv_db s)" and t: "pend t = no_writes"
      and m1: "m1 = (if stored (view (kv_db s)) ino \<noteq> None then m(ino := stored (view (kv_db s)) ino) else m)" for d t m1
    by (rule Cons.IH) (use d t m1 in \<open>auto intro!: Cons.prems(2,3) simp: split: if_splits\<close>)
  show ?case
    unfolding lock_inodes.simps
    by (auto simp: wp_simps andthen_case Cons.prems(1) intro!: wp_get_for_update_inode rest Cons.prems(3)
        split: option.split outcome.split)
      (auto simp: stored_def intro: unreadableI)
qed

lemma wp_rename_check_dst:
  assumes pend: "pend (kv_txn s) = no_writes"
    and vals: "\<And>d m. dst = Some (d, m) \<Longrightarrow> vals d = stored (view (kv_db s)) d"
    and "\<And>t d ws doomed dwas. view d = view (kv_db s) \<Longrightarrow> pend t = add_writes ws no_writes \<Longrightarrow>
      dst_effect (view (kv_db s)) sdir dst ts ws doomed dwas \<Longrightarrow>
      Q (Ok (doomed, dwas)) (s\<lparr>kv_db := d, kv_txn := t\<rparr>)"
    and "\<And>e t d x m. view d = view (kv_db s) \<Longrightarrow> txn_error e \<or> dst = Some (x, m) \<and>
        (e = NotADirectory \<and> sdir \<and> \<not> is_dir m \<or> e = IsADirectory \<and> \<not> sdir \<and> is_dir m \<or>
         e = DirectoryNotEmpty \<and> is_dir m \<and> \<not> dir_empty (view (kv_db s)) x \<or>
         e = NotFound \<and> stored (view (kv_db s)) x = None) \<Longrightarrow>
      Q (Err e) (s\<lparr>kv_db := d, kv_txn := t\<rparr>)"
    and "\<And>q t d. view d = view (kv_db s) \<Longrightarrow> Q (Panic q) (s\<lparr>kv_db := d, kv_txn := t\<rparr>)"
  shows "wp (rename_check_dst R vals sdir dst ts) Q s"
proof -
  have self: "s = s\<lparr>kv_db := kv_db s, kv_txn := kv_txn s\<rparr>" by simp
  have err: "Q (Err e) s" if "dst = Some (x, m) \<and>
        (e = NotADirectory \<and> sdir \<and> \<not> is_dir m \<or> e = IsADirectory \<and> \<not> sdir \<and> is_dir m \<or>
         e = DirectoryNotEmpty \<and> is_dir m \<and> \<not> dir_empty (view (kv_db s)) x \<or>
         e = NotFound \<and> stored (view (kv_db s)) x = None)" for e x m
    by (subst self, rule assms(4)) (use that in auto)
  have ok: "Q (Ok (doomed, dwas)) s" if "dst_effect (view (kv_db s)) sdir dst ts [] doomed dwas" for doomed dwas
    by (subst self, rule assms(3)) (use that pend in auto)
  show ?thesis
  proof (cases dst)
    case None
    then show ?thesis
      by (auto simp: rename_check_dst_def wp_simps dst_effect_def intro!: ok)
  next
    case (Some x)
    then obtain d m where dst: "dst = Some (d, m)" by (cases x) auto
    show ?thesis
      unfolding rename_check_dst_def dst batch_defs
      by (auto simp: wp_simps Let_def dst pend vals intro!: wp_is_dir_empty wp_push err ok assms(3-5) split: option.split)
        (auto simp: dst_effect_def dir_empty_def dst)
  qed
qed

lemma wp_groups:
  assumes "\<And>t d seqs. view d = view (kv_db s) \<Longrightarrow>
      pend t = add_writes (group_writes (seq_of s) gs) (pend (kv_txn s)) \<Longrightarrow>
      seq_at seqs = group_seqs (seq_of s) gs \<Longrightarrow> Q (Ok ()) (s\<lparr>kv_db := d, kv_txn := t, kv_seqs := seqs\<rparr>)"
    and "\<And>q t d seqs. view d = view (kv_db s) \<Longrightarrow>
      seqs_grown (sum_list (map (length \<circ> snd) gs)) (seq_of s) (seq_at seqs) \<Longrightarrow>
      Q (Panic q) (s\<lparr>kv_db := d, kv_txn := t, kv_seqs := seqs\<rparr>)"
  shows "wp (for_each gs (\<lambda>(i, ds). batch_parent_deltas R i ds)) Q s"
  using assms
proof (induction gs arbitrary: s)
  case Nil
  have "Q (Ok ()) (s\<lparr>kv_db := kv_db s, kv_txn := kv_txn s, kv_seqs := kv_seqs s\<rparr>)"
    by (rule Nil.prems(1)) simp_all
  then show ?case by (simp add: wp_simps)
next
  case (Cons g gs)
  obtain i ds where g: "g = (i, ds)" by (cases g)
  show ?case
    unfolding wp_for_each_Cons g prod.case
  proof (rule wp_batch_parent_deltas)
    fix t d seqs
    let ?s = "s\<lparr>kv_db := d, kv_txn := t, kv_seqs := seqs\<rparr>"
    assume d: "view d = view (kv_db s)"
      and t: "pend t = add_writes (delta_writes i (seq_of s i) (map serialize_delta ds)) (pend (kv_txn s))"
      and q: "seq_at seqs = (seq_of s)(i := seq_of s i + of_nat (length ds))"
    have grown: "seqs_grown (length ds) (seq_of s) (seq_at seqs)"
      unfolding q by (rule seqs_grown_upd) simp
    have "wp (for_each gs (\<lambda>(i, ds). batch_parent_deltas R i ds)) Q ?s"
    proof (rule Cons.IH)
      fix t' d' seqs'
      assume "view d' = view (kv_db ?s)" "pend t' = add_writes (group_writes (seq_of ?s) gs) (pend (kv_txn ?s))"
        "seq_at seqs' = group_seqs (seq_of ?s) gs"
      with d t show "Q (Ok ()) (?s\<lparr>kv_db := d', kv_txn := t', kv_seqs := seqs'\<rparr>)"
        by simp (rule Cons.prems(1); simp add: g q del: fun_upd_apply)
    next
      fix x t' d' seqs'
      assume "view d' = view (kv_db ?s)"
        "seqs_grown (sum_list (map (length \<circ> snd) gs)) (seq_of ?s) (seq_at seqs')"
      with d show "Q (Panic x) (?s\<lparr>kv_db := d', kv_txn := t', kv_seqs := seqs'\<rparr>)"
        using seqs_grown_trans [OF grown] by simp (rule Cons.prems(2); simp add: g comp_def)
    qed
    then show "andthen (\<lambda>_. for_each gs (\<lambda>(i, ds). batch_parent_deltas R i ds)) Q (Ok ()) ?s" by simp
  next
    fix x t d seqs
    assume "view d = view (kv_db s)" and "seqs_grown (length ds) (seq_of s) (seq_at seqs)"
    then show "andthen (\<lambda>_. for_each gs (\<lambda>(i, ds). batch_parent_deltas R i ds)) Q (Panic x)
        (s\<lparr>kv_db := d, kv_txn := t, kv_seqs := seqs\<rparr>)"
      by simp (rule Cons.prems(2); auto simp: g elim: seqs_grown_mono)
  qed
qed

lemma rename_batch_eq:
  "rename_batch R p n p' n' src iv dst doomed sdir dwas ts =
     bind (for_each (rename_ops p n p' n' src iv dst doomed ts) (push R)) (\<lambda>_.
     for_each (rename_groups p p' sdir dwas ts) (\<lambda>(i, ds). batch_parent_deltas R i ds))"
  unfolding rename_batch_def rename_ops_def rename_groups_def batch_defs when_op_def
  by (simp add: bind_assoc for_each_append encode_dir_value_def split: option.split)

lemma wp_rename_batch:
  assumes "\<And>t d seqs. view d = view (kv_db s) \<Longrightarrow>
      pend t = add_writes (rename_writes p n p' n' src iv dst doomed ts @
        group_writes (seq_of s) (rename_groups p p' sdir dwas ts)) (pend (kv_txn s)) \<Longrightarrow>
      seq_at seqs = group_seqs (seq_of s) (rename_groups p p' sdir dwas ts) \<Longrightarrow>
      Q (Ok ()) (s\<lparr>kv_db := d, kv_txn := t, kv_seqs := seqs\<rparr>)"
    and "\<And>q t d seqs. view d = view (kv_db s) \<Longrightarrow> seqs_grown 7 (seq_of s) (seq_at seqs) \<Longrightarrow>
      Q (Panic q) (s\<lparr>kv_db := d, kv_txn := t, kv_seqs := seqs\<rparr>)"
  shows "wp (rename_batch R p n p' n' src iv dst doomed sdir dwas ts) Q s"
proof -
  have len: "sum_list (map (length \<circ> snd) (rename_groups p p' sdir dwas ts)) \<le> 7"
    by (simp add: rename_groups_def)
  have bad: "Q (Panic q) (s\<lparr>kv_db := d, kv_txn := t\<rparr>)" if "view d = view (kv_db s)" for q d t
    using assms(2) [OF that, of "kv_seqs s"] by simp
  show ?thesis
    unfolding rename_batch_eq wp_bind
    by (rule wp_pushes) (auto simp: rename_ops_writes intro!: wp_groups assms bad seqs_grown_mono [OF _ len])
qed

text \<open>The steps after the batch: commit, drop the replaced inode's deltas and cache entry, cache the source.\<close>

lemma wp_rename_finish:
  assumes "\<And>d t seqs. (case dst of
        None \<Rightarrow> view d = overlay (pend (kv_txn s)) (view (kv_db s)) \<and> seq_at seqs = seq_of s
      | Some (x, _) \<Rightarrow> cleared x (overlay (pend (kv_txn s)) (view (kv_db s))) (seq_of s) (view d) (seq_at seqs)) \<Longrightarrow>
      Q (Ok res) (s\<lparr>kv_db := d, kv_txn := t, kv_seqs := seqs,
        cw_cache := cache_put L src iv (case dst of None \<Rightarrow> cw_cache s | Some (x, _) \<Rightarrow> cache_invalidate L x (cw_cache s))\<rparr>)"
    and "\<And>e d t. txn_error e \<Longrightarrow> view d = view (kv_db s) \<Longrightarrow> Q (Err e) (s\<lparr>kv_db := d, kv_txn := t\<rparr>)"
  shows "wp (bind (commit R) (\<lambda>_.
     bind (case dst of
             Some (dst_inode, _) \<Rightarrow> bind (ignore (clear_deltas R dst_inode)) (\<lambda>_. sc_invalidate L dst_inode)
           | None \<Rightarrow> ret ()) (\<lambda>_.
     bind (when_op (\<not> shares_batch_storage) m) (\<lambda>_.
     bind (sc_put L src iv) (\<lambda>_. ret res))))) Q s"
proof -
  have ok: "Q (Ok res) (s\<lparr>kv_db := d, cw_cache := cache_put L src iv (cw_cache s)\<rparr>)"
    if "dst = None" "view d = overlay (pend (kv_txn s)) (view (kv_db s))" for d
    using assms(1) [of d "kv_seqs s" "kv_txn s"] that by simp
  have ok': "Q (Ok res) (s\<lparr>kv_db := d, kv_seqs := seqs, cw_cache := cache_put L src iv (cache_invalidate L x (cw_cache s))\<rparr>)"
    if "dst = Some (x, y)" "cleared x (overlay (pend (kv_txn s)) (view (kv_db s))) (seq_of s) (view d) (seq_at seqs)" for d seqs x y
    using assms(1) [of d seqs "kv_txn s"] that by simp
  have ok'': "Q (Ok res) (s\<lparr>kv_db := d, cw_cache := cache_put L src iv (cache_invalidate L x (cw_cache s))\<rparr>)"
    if "dst = Some (x, y)" "view d = overlay (pend (kv_txn s)) (view (kv_db s))" for d x y
    using ok' [of x y d "kv_seqs s"] that by (simp add: cleared_def)
  have bad: "Q (Err e) (s\<lparr>kv_db := d\<rparr>)" if "txn_error e" "view d = view (kv_db s)" for e d
    using assms(2) [OF that, of "kv_txn s"] by simp
  show ?thesis
  proof (cases dst)
    case None
    then show ?thesis by (auto simp: wp_simps intro!: wp_commit ok bad)
  next
    case (Some z)
    then obtain x y where "dst = Some (x, y)" by (cases z) auto
    then show ?thesis
      by (auto simp: wp_simps intro!: wp_commit wp_clear_deltas ok' ok'' bad) (auto simp: cleared_def)
  qed
qed

lemma wp_rename_read:
  assumes "\<And>src dst vals t d. view d = view (kv_db s) \<Longrightarrow> pend t = no_writes \<Longrightarrow>
      map_option fst (dirent (view (kv_db s)) p n) = Some src \<Longrightarrow> dirent (view (kv_db s)) p' n' = dst \<Longrightarrow>
      (dst = None \<longrightarrow> view (kv_db s) CF_DIR_ENTRIES (encode_dir_entry_key p' n') = None) \<Longrightarrow>
      (\<forall>i \<in> set (rename_lock_order src dst p p'). vals i = stored (view (kv_db s)) i) \<Longrightarrow>
      Q (Ok (src, dst, vals)) (s\<lparr>kv_db := d, kv_txn := t\<rparr>)"
    and "\<And>e t d. view d = view (kv_db s) \<Longrightarrow> rename_error (view (kv_db s)) p n p' n' e \<Longrightarrow>
      Q (Err e) (s\<lparr>kv_db := d, kv_txn := t\<rparr>)"
  shows "wp (rename_read R p n p' n') Q s"
proof -
  have vals: "\<forall>i \<in> set xs. vals i = stored V i"
    if "\<forall>i. vals i = (if i \<in> set xs \<and> (\<exists>y. stored V i = Some y) then stored V i else None)" for vals xs V
    using that by auto
  have dst: "dirent V p' n' = None" if "V CF_DIR_ENTRIES (encode_dir_entry_key p' n') = None" for V
    using that by (simp add: dirent_def)
  have ent: "dirent V p n = Some x"
    if "V CF_DIR_ENTRIES (encode_dir_entry_key p n) = Some b" "decode_dir_value b = Ok x" for V p n b x
    using that by (simp add: dirent_def)
  have errs: "V CF_DIR_ENTRIES (encode_dir_entry_key p n) = None \<Longrightarrow> rename_error V p n p' n' NotFound"
    "V CF_DIR_ENTRIES (encode_dir_entry_key p n) = Some b \<Longrightarrow> decode_dir_entry_value b = Err e \<Longrightarrow> rename_error V p n p' n' e"
    "V CF_DIR_ENTRIES (encode_dir_entry_key p' n') = Some b \<Longrightarrow> decode_dir_entry_value b = Err e \<Longrightarrow> rename_error V p n p' n' e"
    "txn_error e \<or> unreadable V \<Longrightarrow> rename_error V p n p' n' e" "txn_error e \<Longrightarrow> rename_error V p n p' n' e" for V e b
    by (auto simp: rename_error_def entry_error_def dest: dirent_None)
  show ?thesis
    unfolding rename_read_def
    by (auto simp: wp_simps andthen_case intro!: wp_begin_write wp_get_for_update_dir_entry wp_lock_inodes
        assms vals split: option.split outcome.split prod.split)
      (auto simp: ent dst intro: errs)
qed

lemma wp_rename_apply:
  assumes pend: "pend (kv_txn s) = no_writes"
    and src: "map_option fst (dirent (view (kv_db s)) p n) = Some src"
    and dst: "dirent (view (kv_db s)) p' n' = dst"
      "dst = None \<longrightarrow> view (kv_db s) CF_DIR_ENTRIES (encode_dir_entry_key p' n') = None"
    and vals: "\<forall>i \<in> set (rename_lock_order src dst p p'). vals i = stored (view (kv_db s)) i"
  shows "wp (rename_apply R L p n p' n' (src, dst, vals)) (\<lambda>r s'.
     (\<forall>res. r = Ok res \<longrightarrow> renamed view L p n p' n' res s s') \<and>
     (\<forall>e. r = Err e \<longrightarrow> rename_error (view (kv_db s)) p n p' n' e) \<and>
     (\<not> is_ok r \<longrightarrow> quiet view 7 s s')) s"
    (is "wp _ ?Q s")
proof -
  let ?V = "view (kv_db s)" and ?ts = "sv_clock s (sv_ticks s)"
  obtain m where ent: "dirent ?V p n = Some (src, m)" using src by auto
  have vs: "vals src = stored ?V src" "dst = Some (x, y) \<Longrightarrow> vals x = stored ?V x" for x y
    using vals set_rename_lock_order by blast+
  show ?thesis
  proof (cases "stored ?V src")
    case None
    then show ?thesis
      using ent by (auto simp: rename_apply_def wp_simps vs rename_error_def entry_error_def)
  next
    case (Some iv)
    show ?thesis
      unfolding rename_apply_def Let_def prod.case
      apply (simp only: wp_bind wp_ok_or vs(1) Some option.case andthen.simps wp_now_secs)
      apply (rule wp_rename_check_dst)
          apply (simp add: pend)
         apply (simp add: vs(2))
        apply (simp only: andthen.simps prod.case wp_bind)
        apply (rule wp_rename_batch)
         apply (simp only: andthen.simps)
         apply (rule wp_rename_finish)
          apply (use ent dst Some in \<open>auto simp: renamed_def same_rest_def Let_def split: option.splits\<close>)[1]
         apply (auto simp: rename_error_def entry_error_def quiet_simps seqs_grown_rename)[1]
        apply (simp add: quiet_simps)
       apply (use ent dst Some in \<open>auto simp: rename_error_def entry_error_def quiet_simps\<close>)[1]
      apply (simp add: quiet_simps)
      done
  qed
qed

lemma wp_rename_txn:
  "wp (rename_txn R L p n p' n') (\<lambda>r s'.
     (\<forall>res. r = Ok res \<longrightarrow> renamed view L p n p' n' res s s') \<and>
     (\<forall>e. r = Err e \<longrightarrow> rename_error (view (kv_db s)) p n p' n' e) \<and>
     (\<not> is_ok r \<longrightarrow> quiet view 7 s s')) s"
  unfolding rename_txn_def wp_bind
proof (rule wp_rename_read)
  fix src dst vals t d
  let ?s = "s\<lparr>kv_db := d, kv_txn := t\<rparr>"
  assume d: "view d = view (kv_db s)" "pend t = no_writes"
    and hyps: "map_option fst (dirent (view (kv_db s)) p n) = Some src" "dirent (view (kv_db s)) p' n' = dst"
      "dst = None \<longrightarrow> view (kv_db s) CF_DIR_ENTRIES (encode_dir_entry_key p' n') = None"
      "\<forall>i \<in> set (rename_lock_order src dst p p'). vals i = stored (view (kv_db s)) i"
  have "renamed view L p n p' n' res ?s s' \<Longrightarrow> renamed view L p n p' n' res s s'" for res s'
    using d by (cases "dirent (view (kv_db s)) p' n'") (auto simp: renamed_def same_rest_def Let_def)
  moreover have "quiet view 7 ?s s' \<Longrightarrow> quiet view 7 s s'" for s'
    using d by (simp add: quiet_def same_rest_def)
  ultimately show "andthen (rename_apply R L p n p' n') (\<lambda>r s'.
     (\<forall>res. r = Ok res \<longrightarrow> renamed view L p n p' n' res s s') \<and>
     (\<forall>e. r = Err e \<longrightarrow> rename_error (view (kv_db s)) p n p' n' e) \<and>
     (\<not> is_ok r \<longrightarrow> quiet view 7 s s')) (Ok (src, dst, vals)) ?s"
    using wp_rename_apply [of ?s p n src p' n' dst vals L] hyps d
    by (auto intro: wp_mono)
qed (auto simp: quiet_simps)

end

end
