(* ===== verification/Namespace.thy ===== *)
theory Namespace
  imports Server_Rename
begin

unbundle bit_operations_syntax

text \<open>
  The namespace the metadata server maintains: directory entries, inode values and pending deltas as
  functions of the stored contents, how the writes of the operations change them, and the invariant
  that ties them together: every entry lies in a directory and leads to an inode of the recorded
  kind, link counts cover the entries, and inode numbers come from the allocator.
\<close>

section \<open>Contents under writes\<close>

definition set_entry ::
  "inode \<Rightarrow> str \<Rightarrow> (inode \<times> u32) option \<Rightarrow> (inode \<Rightarrow> str \<Rightarrow> (inode \<times> u32) option)
   \<Rightarrow> inode \<Rightarrow> str \<Rightarrow> (inode \<times> u32) option" where
  "set_entry p n x D = D(p := (D p)(n := x))"

lemma set_entry_apply [simp]: "set_entry p n x D p' n' = (if p' = p \<and> n' = n then x else D p' n')"
  by (simp add: set_entry_def)

lemma dirent_writes [simp]:
  "dirent (upd CF_DIR_ENTRIES (encode_dir_entry_key p n) (Some (encode_dir_value c m)) V) =
     set_entry p n (Some (c, m)) (dirent V)"
  "dirent (upd CF_DIR_ENTRIES (encode_dir_entry_key p n) None V) = set_entry p n None (dirent V)"
  "dirent (upd CF_INODES k x V) = dirent V"
  "dirent (upd CF_DELTA_ENTRIES k x V) = dirent V"
  by (auto simp: fun_eq_iff dirent_def)

lemma stored_writes [simp]:
  "iv_version iv = FORMAT_VERSION \<Longrightarrow>
     stored (upd CF_INODES (encode_inode_key i) (Some (serialize iv)) V) = (stored V)(i \<mapsto> iv)"
  "stored (upd CF_INODES (encode_inode_key i) None V) = (stored V)(i := None)"
  "stored (upd CF_INODES (encode_data_location_key i) x V) = stored V"
  "stored (upd CF_INODES (encode_symlink_key i) x V) = stored V"
  "stored (upd CF_INODES NEXT_INODE_KEY x V) = stored V"
  "stored (upd CF_DIR_ENTRIES k x V) = stored V"
  "stored (upd CF_DELTA_ENTRIES k x V) = stored V"
  by (auto simp: fun_eq_iff stored_def)

lemma pending_writes [simp]: "c \<noteq> CF_DELTA_ENTRIES \<Longrightarrow> pending (upd c k x V) = pending V"
  by (simp add: fun_eq_iff pending_def)

lemma delta_writes_frame [simp]:
  "dirent (apply_writes (delta_writes i q vs) V) = dirent V"
  "stored (apply_writes (delta_writes i q vs) V) = stored V"
  by (auto simp: fun_eq_iff dirent_def stored_def)

lemma group_writes_other_cf [simp]:
  "c \<noteq> CF_DELTA_ENTRIES \<Longrightarrow> apply_writes (group_writes sq gs) V c = V c"
  by (induction sq gs arbitrary: V rule: group_writes.induct) simp_all

lemma finite_group_writes [simp]:
  "finite (dom (apply_writes (group_writes sq gs) V c)) = finite (dom (V c))"
  by (induction sq gs arbitrary: V rule: group_writes.induct) simp_all

lemma group_writes_frame [simp]:
  "dirent (apply_writes (group_writes sq gs) V) = dirent V"
  "stored (apply_writes (group_writes sq gs) V) = stored V"
  by (auto simp: fun_eq_iff dirent_def stored_def)

lemma drop_deltas_frame [simp]:
  "dirent (drop_deltas i V) = dirent V" "stored (drop_deltas i V) = stored V"
  by (auto simp: fun_eq_iff dirent_def stored_def drop_deltas_def)

lemma delta_inv_upd [simp]: "c \<noteq> CF_DELTA_ENTRIES \<Longrightarrow> delta_inv (upd c k x V) sq = delta_inv V sq"
  by (simp add: delta_inv_def)

lemma delta_inv_drop: "delta_inv V sq \<Longrightarrow> delta_inv (drop_deltas i V) (sq(i := q))"
  unfolding delta_inv_def drop_deltas_def
  by (metis (full_types) fun_upd_apply option.distinct(1) prefix_delta_key)

text \<open>The deltas of a list of groups that go to one inode.\<close>

definition deltas_for :: "inode \<Rightarrow> (inode \<times> DeltaOp list) list \<Rightarrow> DeltaOp list" where
  "deltas_for j gs = concat (map snd (filter (\<lambda>(i, _). i = j) gs))"

lemma deltas_for_simps [simp]:
  "deltas_for j [] = []"
  "deltas_for j ((i, ds) # gs) = (if i = j then ds else []) @ deltas_for j gs"
  "deltas_for j (gs @ gs') = deltas_for j gs @ deltas_for j gs'"
  by (simp_all add: deltas_for_def)

definition group_size :: "(inode \<times> DeltaOp list) list \<Rightarrow> nat" where
  "group_size gs = sum_list (map (length \<circ> snd) gs)"

lemma group_size_simps [simp]:
  "group_size [] = 0" "group_size ((i, ds) # gs) = length ds + group_size gs"
  "group_size (gs @ gs') = group_size gs + group_size gs'"
  by (simp_all add: group_size_def)

lemma pending_group_writes:
  assumes "finite (dom (V CF_DELTA_ENTRIES))" and "delta_inv V sq"
    and "\<And>i. unat (sq i) + group_size gs < 2 ^ 64"
  shows "pending (apply_writes (group_writes sq gs) V) j = pending V j @ map serialize_delta (deltas_for j gs) \<and>
    delta_inv (apply_writes (group_writes sq gs) V) (group_seqs sq gs)"
  using assms
proof (induction sq gs arbitrary: V rule: group_writes.induct)
  case (2 sq i ds gs)
  let ?V = "apply_writes (delta_writes i (sq i) (map serialize_delta ds)) V"
  let ?sq = "sq(i := sq i + of_nat (length ds))"
  have room: "unat (sq i) + length (map serialize_delta ds) < 2 ^ 64" using "2.prems"(3) [of i] by simp
  have p: "pending ?V j = (if j = i then pending V i @ map serialize_delta ds else pending V j)"
    and inv: "delta_inv ?V ?sq"
    using pending_delta_writes [OF "2.prems"(1,2) room, of j] by simp_all
  have "unat (?sq k) + group_size gs < 2 ^ 64" for k
    using "2.prems"(3) [of k] by (auto simp: unat_word_ariths unat_of_nat)
  then show ?case using "2.IH" [of ?V] "2.prems"(1) p inv by (simp del: fun_upd_apply)
qed simp

section \<open>The invariant of the namespace\<close>

type_synonym entries = "inode \<Rightarrow> str \<Rightarrow> (inode \<times> u32) option"
type_synonym inodes = "inode \<Rightarrow> InodeValue option"

definition refs :: "entries \<Rightarrow> inode \<Rightarrow> (inode \<times> str) set" where
  "refs D c = {(p, n). \<exists>m. D p n = Some (c, m)}"

definition dir_at :: "inodes \<Rightarrow> inode \<Rightarrow> bool" where
  "dir_at S i \<longleftrightarrow> (case S i of None \<Rightarrow> False | Some iv \<Rightarrow> is_dir (iv_mode iv))"

text \<open>How many entries may lead to an inode: one for a directory, its link count for a file.\<close>

definition max_refs :: "InodeValue \<Rightarrow> nat" where
  "max_refs iv = (if is_dir (iv_mode iv) then 1 else unat (iv_nlink iv))"

definition target_ok :: "entries \<Rightarrow> inodes \<Rightarrow> inode \<Rightarrow> u32 \<Rightarrow> bool" where
  "target_ok D S c m \<longleftrightarrow> c \<noteq> ROOT_INODE \<and>
     (\<exists>iv. S c = Some iv \<and> is_dir (iv_mode iv) = is_dir m \<and> card (refs D c) \<le> max_refs iv)"

definition ns_ok :: "entries \<Rightarrow> inodes \<Rightarrow> u64 \<Rightarrow> inode set \<Rightarrow> bool" where
  "ns_ok D S next pd \<longleftrightarrow>
     (\<forall>c. finite (refs D c)) \<and>
     (\<forall>p n c m. D p n = Some (c, m) \<longrightarrow> dir_at S p \<and> target_ok D S c m) \<and>
     dir_at S ROOT_INODE \<and>
     (\<forall>i. S i \<noteq> None \<longrightarrow> i < next) \<and>
     (\<forall>i \<in> pd. i < next \<and> refs D i = {} \<and> \<not> dir_at S i)"

lemma refs_set_entry [simp]:
  "refs (set_entry p n None D) c = refs D c - {(p, n)}"
  "refs (set_entry p n (Some (c', m)) D) c = (if c = c' then insert (p, n) (refs D c) else refs D c - {(p, n)})"
  by (auto simp: refs_def)

lemma ns_okD:
  assumes "ns_ok D S next pd" and "D p n = Some (c, m)"
  obtains iv where "dir_at S p" "c \<noteq> ROOT_INODE" "S c = Some iv" "is_dir (iv_mode iv) = is_dir m"
    "card (refs D c) \<le> max_refs iv" "(p, n) \<in> refs D c" "finite (refs D c)" "c < next" "c \<notin> pd"
proof -
  have "(p, n) \<in> refs D c" using assms(2) by (auto simp: refs_def)
  moreover from this have "c \<notin> pd" using assms(1) by (auto simp: ns_ok_def)
  moreover have "dir_at S p \<and> target_ok D S c m" "finite (refs D c)"
    using assms unfolding ns_ok_def by blast+
  moreover from this have "c < next" using assms(1) unfolding ns_ok_def target_ok_def by auto
  ultimately show thesis using that unfolding target_ok_def by blast
qed

lemma ns_okI:
  assumes "\<And>c. finite (refs D c)"
    and "\<And>p n c m. D p n = Some (c, m) \<Longrightarrow> dir_at S p \<and> target_ok D S c m"
    and "dir_at S ROOT_INODE" and "\<And>i. S i \<noteq> None \<Longrightarrow> i < next"
    and "\<And>i. i \<in> pd \<Longrightarrow> i < next \<and> refs D i = {} \<and> \<not> dir_at S i"
  shows "ns_ok D S next pd"
  using assms unfolding ns_ok_def by blast

lemma ns_ok_simps:
  assumes "ns_ok D S next pd"
  shows "finite (refs D c)" "dir_at S ROOT_INODE" "S i \<noteq> None \<Longrightarrow> i < next"
    "i \<in> pd \<Longrightarrow> i < next" "i \<in> pd \<Longrightarrow> refs D i = {}" "i \<in> pd \<Longrightarrow> \<not> dir_at S i"
  using assms unfolding ns_ok_def by blast+

lemma dir_at_upd [simp]:
  "dir_at (S(i \<mapsto> iv)) j = (if j = i then is_dir (iv_mode iv) else dir_at S j)"
  "dir_at (S(i := None)) j = (j \<noteq> i \<and> dir_at S j)"
  by (simp_all add: dir_at_def)

text \<open>A new entry for a new inode.\<close>

lemma ns_ok_create:
  assumes ok: "ns_ok D S next pd" and free: "D p n = None" and p: "dir_at S p"
    and iv: "iv_inode iv = next" "1 \<le> max_refs iv" and room: "next < next'"
  shows "ns_ok (set_entry p n (Some (next, iv_mode iv)) D) (S(next \<mapsto> iv)) next' pd"
proof -
  have new: "S next = None" "next \<notin> pd" using ok by (auto simp: ns_ok_def)
  have noref: "refs D next = {}"
    using ok new by (fastforce simp: refs_def ns_ok_def target_ok_def)
  have root: "ROOT_INODE \<noteq> next" using ok new by (auto simp: ns_ok_def dir_at_def)
  have pne: "p \<noteq> next" using p new by (auto simp: dir_at_def)
  show ?thesis
  proof (rule ns_okI)
    fix q x c m
    assume e: "set_entry p n (Some (next, iv_mode iv)) D q x = Some (c, m)"
    show "dir_at (S(next \<mapsto> iv)) q \<and> target_ok (set_entry p n (Some (next, iv_mode iv)) D) (S(next \<mapsto> iv)) c m"
    proof (cases "q = p \<and> x = n")
      case True
      with e p iv noref pne root show ?thesis by (auto simp: target_ok_def)
    next
      case False
      with e have "D q x = Some (c, m)" by (simp split: if_splits)
      then show ?thesis
      proof (rule ns_okD [OF ok])
        fix cv
        assume c: "dir_at S q" "c \<noteq> ROOT_INODE" "S c = Some cv" "is_dir (iv_mode cv) = is_dir m"
          "card (refs D c) \<le> max_refs cv"
        then have "c \<noteq> next" "q \<noteq> next" using new by (auto simp: dir_at_def)
        moreover have "card (refs D c - {(p, n)}) \<le> card (refs D c)" by (simp add: card_Diff1_le)
        ultimately show ?thesis using c by (simp add: target_ok_def)
      qed
    qed
  next
    fix i assume "i \<in> pd"
    moreover from this have "i < next'" using ns_ok_simps(4) [OF ok] room by (meson less_trans)
    ultimately show "i < next' \<and> refs (set_entry p n (Some (next, iv_mode iv)) D) i = {} \<and> \<not> dir_at (S(next \<mapsto> iv)) i"
      using new(2) ns_ok_simps(5,6) [OF ok] by auto
  qed (use ns_ok_simps [OF ok] root room in \<open>auto split: if_splits dest: less_trans\<close>)
qed

text \<open>An entry disappears: its inode keeps enough links, or it had no other entry and goes too.\<close>

definition count_ok :: "entries \<Rightarrow> inodes \<Rightarrow> inode \<Rightarrow> bool" where
  "count_ok D S c \<longleftrightarrow> (case S c of None \<Rightarrow> refs D c = {} | Some iv \<Rightarrow> card (refs D c) \<le> max_refs iv)"

text \<open>The general rule: entries only move between directories, inodes keep their kind.\<close>

lemma ns_ok_change:
  assumes ok: "ns_ok D S next pd"
    and fin: "\<And>c. finite (refs D' c)"
    and D': "\<And>p n c m. D' p n = Some (c, m) \<Longrightarrow> dir_at S' p \<and> c \<noteq> ROOT_INODE \<and>
      (\<exists>iv. S' c = Some iv \<and> is_dir (iv_mode iv) = is_dir m)"
    and count: "\<And>c. refs D' c \<noteq> {} \<Longrightarrow> count_ok D' S' c"
    and root: "dir_at S' ROOT_INODE" and dom: "\<And>i. S' i \<noteq> None \<Longrightarrow> S i \<noteq> None"
    and pd: "\<And>i. i \<in> pd' \<Longrightarrow> i < next \<and> refs D' i = {} \<and> \<not> dir_at S' i"
  shows "ns_ok D' S' next pd'"
proof (rule ns_okI)
  fix p n c m
  assume e: "D' p n = Some (c, m)"
  then have "refs D' c \<noteq> {}" by (auto simp: refs_def)
  from D' [OF e] count [OF this] show "dir_at S' p \<and> target_ok D' S' c m"
    by (auto simp: target_ok_def count_ok_def)
qed (use fin root dom pd ns_ok_simps(3) [OF ok] in blast)+

text \<open>An inode value changes, its kind and number of links stay.\<close>

lemma ns_ok_update:
  assumes ok: "ns_ok D S next pd" and i: "S i = Some iv"
    and iv': "is_dir (iv_mode iv') = is_dir (iv_mode iv)" "max_refs iv \<le> max_refs iv'"
  shows "ns_ok D (S(i \<mapsto> iv')) next pd"
proof (rule ns_ok_change [OF ok])
  have dir: "dir_at (S(i \<mapsto> iv')) j = dir_at S j" for j using i iv'(1) by (auto simp: dir_at_def)
  then show "dir_at (S(i \<mapsto> iv')) ROOT_INODE" using ns_ok_simps(2) [OF ok] by simp
  show "j < next \<and> refs D j = {} \<and> \<not> dir_at (S(i \<mapsto> iv')) j" if "j \<in> pd" for j
    using that ns_ok_simps [OF ok] dir by blast
  fix p n c m
  assume e: "D p n = Some (c, m)"
  show "dir_at (S(i \<mapsto> iv')) p \<and> c \<noteq> ROOT_INODE \<and> (\<exists>iv. (S(i \<mapsto> iv')) c = Some iv \<and> is_dir (iv_mode iv) = is_dir m)"
    by (rule ns_okD [OF ok e]) (use i iv' dir in auto)
next
  fix c
  assume "refs D c \<noteq> {}"
  then obtain p n m where e: "D p n = Some (c, m)" by (auto simp: refs_def)
  show "count_ok D (S(i \<mapsto> iv')) c"
    by (rule ns_okD [OF ok e]) (use i iv' in \<open>auto simp: count_ok_def\<close>)
qed (use ns_ok_simps [OF ok] i in \<open>auto split: if_splits\<close>)

text \<open>An entry goes; its inode keeps enough links, or goes with its last entry.\<close>

lemma ns_ok_remove:
  assumes ok: "ns_ok D S next pd" and e: "D p n = Some (c, m)" and civ: "S c = Some iv"
    and S': "\<And>i. i \<noteq> c \<Longrightarrow> S' i = S i"
    and kept: "\<And>iv'. S' c = Some iv' \<Longrightarrow> is_dir (iv_mode iv') = is_dir (iv_mode iv) \<and> max_refs iv - 1 \<le> max_refs iv'"
    and gone: "S' c = None \<Longrightarrow> max_refs iv \<le> 1 \<and> (\<forall>n. D c n = None)"
    and pd: "\<And>i. i \<in> pd' \<Longrightarrow> i \<in> pd \<or> i = c \<and> max_refs iv \<le> 1 \<and> \<not> is_dir (iv_mode iv)"
  shows "ns_ok (set_entry p n None D) S' next pd'"
proof -
  have card: "card (refs D c) \<le> max_refs iv" and fin: "finite (refs D c)" and inr: "(p, n) \<in> refs D c"
    and cpd: "c \<notin> pd" and root: "c \<noteq> ROOT_INODE" and cn: "c < next"
    using ns_okD [OF ok e] civ by (metis option.inject)+
  have one: "refs D c - {(p, n)} = {}" if "max_refs iv \<le> 1"
    using card fin inr that by (metis card_Diff_singleton card_eq_0_iff diff_is_0_eq finite_Diff le_trans)
  have less: "card (refs D c - {(p, n)}) \<le> max_refs iv - 1" using card fin inr by simp
  have dir: "dir_at S' i \<longleftrightarrow> dir_at S i" if "i = c \<longrightarrow> S' c \<noteq> None" for i
    using S' [of i] kept that civ by (cases "i = c") (auto simp: dir_at_def split: option.splits)
  show ?thesis
  proof (rule ns_ok_change [OF ok])
    show "dir_at S' ROOT_INODE" using dir ns_ok_simps(2) [OF ok] root by metis
    show "i < next \<and> refs (set_entry p n None D) i = {} \<and> \<not> dir_at S' i" if "i \<in> pd'" for i
    proof (cases "i = c")
      case True
      with pd [OF that] cpd have "max_refs iv \<le> 1" "\<not> is_dir (iv_mode iv)" by auto
      then show ?thesis using True one cn kept by (auto simp: dir_at_def split: option.splits)
    next
      case False
      with pd [OF that] have "i \<in> pd" by blast
      then show ?thesis using ns_ok_simps [OF ok] dir False by auto
    qed
    fix q x d k
    assume x: "set_entry p n None D q x = Some (d, k)"
    then have old: "D q x = Some (d, k)" and ne: "(q, x) \<noteq> (p, n)" by (auto split: if_splits)
    have "d \<noteq> c" if "S' c = None"
      using gone [OF that] one old ne by (auto simp: refs_def)
    moreover have "q \<noteq> c" if "S' c = None" using gone [OF that] old by auto
    ultimately show "dir_at S' q \<and> d \<noteq> ROOT_INODE \<and> (\<exists>iv. S' d = Some iv \<and> is_dir (iv_mode iv) = is_dir k)"
      using ns_okD [OF ok old] dir S' kept civ by (metis not_None_eq option.inject)
  next
    fix d
    assume "refs (set_entry p n None D) d \<noteq> {}"
    then obtain q x k where old: "D q x = Some (d, k)" "(q, x) \<noteq> (p, n)" by (auto simp: refs_def split: if_splits)
    show "count_ok (set_entry p n None D) S' d"
    proof (cases "d = c")
      case True
      show ?thesis
      proof (cases "S' c")
        case None
        with gone one True show ?thesis by (simp add: count_ok_def)
      next
        case (Some cv)
        then have "max_refs iv - 1 \<le> max_refs cv" using kept by blast
        with Some less True show ?thesis by (simp add: count_ok_def)
      qed
    next
      case False
      have "card (refs D d - {(p, n)}) \<le> card (refs D d)" by (simp add: card_Diff1_le)
      then show ?thesis
        by - (rule ns_okD [OF ok old(1)], use S' [OF False] in \<open>simp add: count_ok_def\<close>)
    qed
  qed (use ns_ok_simps [OF ok] S' civ in \<open>auto, metis\<close>)
qed

text \<open>A new entry for an existing file.\<close>

lemma ns_ok_link:
  assumes ok: "ns_ok D S next pd" and free: "D p n = None" and p: "dir_at S p"
    and i: "S i = Some iv" "\<not> is_dir (iv_mode iv)" "i \<notin> pd"
    and iv': "iv_mode iv' = iv_mode iv" "unat (iv_nlink iv') = Suc (unat (iv_nlink iv))"
  shows "ns_ok (set_entry p n (Some (i, iv_mode iv')) D) (S(i \<mapsto> iv')) next pd"
proof (rule ns_ok_change [OF ok])
  have dir: "dir_at (S(i \<mapsto> iv')) j = dir_at S j" for j using i(1) iv'(1) by (auto simp: dir_at_def)
  then show "dir_at (S(i \<mapsto> iv')) ROOT_INODE" using ns_ok_simps(2) [OF ok] by simp
  show "j < next \<and> refs (set_entry p n (Some (i, iv_mode iv')) D) j = {} \<and> \<not> dir_at (S(i \<mapsto> iv')) j" if "j \<in> pd" for j
    using that ns_ok_simps [OF ok] dir i(3) by auto
  have root: "i \<noteq> ROOT_INODE" using i ns_ok_simps(2) [OF ok] by (auto simp: dir_at_def)
  fix q x c m
  assume e: "set_entry p n (Some (i, iv_mode iv')) D q x = Some (c, m)"
  show "dir_at (S(i \<mapsto> iv')) q \<and> c \<noteq> ROOT_INODE \<and> (\<exists>iv. (S(i \<mapsto> iv')) c = Some iv \<and> is_dir (iv_mode iv) = is_dir m)"
  proof (cases "q = p \<and> x = n")
    case True
    with e p dir root show ?thesis by auto
  next
    case False
    with e have "D q x = Some (c, m)" by (simp split: if_splits)
    then show ?thesis by (rule ns_okD [OF ok]) (use i(1) iv'(1) dir in auto)
  qed
next
  fix c
  assume r: "refs (set_entry p n (Some (i, iv_mode iv')) D) c \<noteq> {}"
  have bound: "card (refs D i) \<le> unat (iv_nlink iv)"
  proof (cases "refs D i = {}")
    case False
    then obtain q x m where "D q x = Some (i, m)" by (auto simp: refs_def)
    from ns_okD [OF ok this] show ?thesis using i(1,2) by (metis max_refs_def option.inject)
  qed simp
  show "count_ok (set_entry p n (Some (i, iv_mode iv')) D) (S(i \<mapsto> iv')) c"
  proof (cases "c = i")
    case True
    have "card (insert (p, n) (refs D i)) \<le> Suc (card (refs D i))" by (rule card_insert_le_m1) auto
    with True bound iv' i(2) show ?thesis by (simp add: count_ok_def max_refs_def)
  next
    case False
    with r obtain q x m where e: "D q x = Some (c, m)" by (auto simp: refs_def split: if_splits)
    have "card (refs D c - {(p, n)}) \<le> card (refs D c)" by (simp add: card_Diff1_le)
    with False show ?thesis by - (rule ns_okD [OF ok e], auto simp: count_ok_def)
  qed
qed (use ns_ok_simps [OF ok] i in \<open>auto split: if_splits\<close>)

text \<open>An inode loses a link: it stays with enough links, or it was a file with one link and is gone.\<close>

definition loses_link :: "inodes \<Rightarrow> inodes \<Rightarrow> inode \<Rightarrow> bool" where
  "loses_link S S' d \<longleftrightarrow> (\<exists>dv. S d = Some dv \<and> (case S' d of
     Some dv' \<Rightarrow> is_dir (iv_mode dv') = is_dir (iv_mode dv) \<and> max_refs dv - 1 \<le> max_refs dv'
   | None \<Rightarrow> max_refs dv \<le> 1 \<and> \<not> is_dir (iv_mode dv)))"

lemma loses_linkD:
  assumes "loses_link S S' d"
  shows "S d \<noteq> None" "dir_at S' d = dir_at S d"
    "S d = Some dv \<Longrightarrow> S' d = Some dv' \<Longrightarrow> is_dir (iv_mode dv') = is_dir (iv_mode dv) \<and> max_refs dv - 1 \<le> max_refs dv'"
    "S d = Some dv \<Longrightarrow> S' d = None \<Longrightarrow> max_refs dv \<le> 1"
  using assms by (auto simp: loses_link_def dir_at_def split: option.splits)

lemma card_le_1_singleton: "finite A \<Longrightarrow> card A \<le> 1 \<Longrightarrow> x \<in> A \<Longrightarrow> A - {x} = {}"
  by (metis One_nat_def card_le_Suc0_iff_eq insertE insert_Diff Diff_eq_empty_iff subsetI singletonI)

text \<open>An entry moves, over an existing one or not; the inode at the target loses a link.\<close>

lemma ns_ok_rename:
  assumes ok: "ns_ok D S next pd" and e: "D p n = Some (src, m)" and src: "S src = Some iv"
    and p': "dir_at S p'" and iv': "iv_mode iv' = iv_mode iv" "iv_nlink iv' = iv_nlink iv" "S' src = Some iv'"
    and S': "\<And>i. i \<noteq> src \<Longrightarrow> S' i = S i \<or> loses_link S S' i \<and> (\<exists>k. D p' n' = Some (i, k))"
  shows "ns_ok (set_entry p' n' (Some (src, iv_mode iv)) (set_entry p n None (set_entry p' n' None D))) S' next pd"
proof -
  let ?D = "set_entry p' n' None D"
  let ?D' = "set_entry p' n' (Some (src, iv_mode iv)) (set_entry p n None ?D)"
  have srcs: "is_dir (iv_mode iv) = is_dir m" "card (refs D src) \<le> max_refs iv" "src \<noteq> ROOT_INODE" "src \<notin> pd"
    and fin: "finite (refs D c)" and inr: "(p, n) \<in> refs D src" for c
    using ns_okD [OF ok e] src ns_ok_simps(1) [OF ok] by (metis option.inject)+
  have same: "max_refs iv' = max_refs iv" using iv' by (simp add: max_refs_def)
  have dir: "dir_at S' i = dir_at S i" for i
  proof (cases "i = src")
    case True
    then show ?thesis using iv' src by (simp add: dir_at_def)
  next
    case False
    with S' [OF this] show ?thesis by (auto dest: loses_linkD(2)) (simp_all add: dir_at_def)
  qed
  have card_src: "card (insert (p', n') (refs D src - {(p', n')} - {(p, n)})) \<le> card (refs D src)"
  proof -
    have "card (insert (p', n') (refs D src - {(p', n')} - {(p, n)})) \<le> Suc (card (refs D src - {(p', n')} - {(p, n)}))"
      by (rule card_insert_le_m1) auto
    also have "\<dots> \<le> Suc (card (refs D src - {(p, n)}))" using fin [of src] by (auto intro: card_mono)
    also have "\<dots> = card (refs D src)" using inr fin [of src] by (metis card_Suc_Diff1)
    finally show ?thesis .
  qed
  have left: "\<exists>cv'. S' c = Some cv' \<and> is_dir (iv_mode cv') = is_dir k \<and> card (refs D c - {(p', n')} - {(p, n)}) \<le> max_refs cv'"
    if c: "D q x = Some (c, k)" "(q, x) \<noteq> (p', n')" "c \<noteq> src" for q x c k
  proof (rule ns_okD [OF ok c(1)])
    fix cv
    assume cv: "S c = Some cv" "is_dir (iv_mode cv) = is_dir k" "card (refs D c) \<le> max_refs cv" "(q, x) \<in> refs D c"
    have le: "card (refs D c - {(p', n')} - {(p, n)}) \<le> card (refs D c - {(p', n')})" by (rule card_Diff1_le)
    show ?thesis
    proof (cases "S' c = S c")
      case True
      with cv le card_Diff1_le [of "refs D c" "(p', n')"] show ?thesis by auto
    next
      case False
      with S' [OF c(3)] obtain k' where l: "loses_link S S' c" and d: "D p' n' = Some (c, k')" by blast
      have in': "(p', n') \<in> refs D c" using d by (auto simp: refs_def)
      show ?thesis
      proof (cases "S' c")
        case None
        then have "refs D c - {(p', n')} = {}"
          using card_le_1_singleton [OF fin [of c] _ in'] loses_linkD(4) [OF l cv(1)] cv(3) by linarith
        with cv(4) c(2) show ?thesis by blast
      next
        case (Some cv')
        then have "is_dir (iv_mode cv') = is_dir k" "max_refs cv - 1 \<le> max_refs cv'"
          using loses_linkD(3) [OF l cv(1) Some] cv(2) by simp_all
        moreover have "card (refs D c - {(p', n')}) = card (refs D c) - 1" using in' fin [of c] by simp
        ultimately show ?thesis using Some cv(3) le by auto
      qed
    qed
  qed
  show ?thesis
  proof (rule ns_ok_change [OF ok])
    show "dir_at S' ROOT_INODE" using dir ns_ok_simps(2) [OF ok] by simp
    show "i < next \<and> refs ?D' i = {} \<and> \<not> dir_at S' i" if "i \<in> pd" for i
      using that ns_ok_simps(4-6) [OF ok] dir srcs(4) by auto
    show "S i \<noteq> None" if "S' i \<noteq> None" for i
      using S' [of i] that src loses_linkD(1) by (cases "i = src") auto
    fix c
    assume r: "refs ?D' c \<noteq> {}"
    show "count_ok ?D' S' c"
    proof (cases "c = src")
      case True
      with card_src srcs(2) same show ?thesis by (simp add: count_ok_def iv'(3))
    next
      case False
      with r obtain q x k where "D q x = Some (c, k)" "(q, x) \<noteq> (p', n')" by (auto simp: refs_def split: if_splits)
      from left [OF this False] False show ?thesis by (auto simp: count_ok_def)
    qed
  next
    fix q x c k
    assume x: "?D' q x = Some (c, k)"
    show "dir_at S' q \<and> c \<noteq> ROOT_INODE \<and> (\<exists>iv. S' c = Some iv \<and> is_dir (iv_mode iv) = is_dir k)"
    proof (cases "(q, x) = (p', n')")
      case True
      with x dir p' srcs(3) iv' show ?thesis by auto
    next
      case False
      with x have old: "D q x = Some (c, k)" by (auto split: if_splits)
      have "\<exists>iv. S' c = Some iv \<and> is_dir (iv_mode iv) = is_dir k"
      proof (cases "c = src")
        case True
        with ns_okD [OF ok old] iv' src show ?thesis by (metis option.inject)
      next
        case False
        with left [OF old \<open>(q, x) \<noteq> (p', n')\<close>] show ?thesis by blast
      qed
      then show ?thesis using ns_okD [OF ok old] dir by metis
    qed
  qed (use fin in auto)
qed

end
