(* ===== verification/Server_Inv.thy ===== *)
theory Server_Inv
  imports Namespace
begin

unbundle bit_operations_syntax

text \<open>
  The invariant of the metadata server and its preservation: what every operation does to the
  namespace of \<open>Namespace\<close>, to the attributes a client sees, and to the coherence of the cache.
\<close>

section \<open>Abstract view of the stored contents\<close>

text \<open>
  What a client can see: names, attributes (with the pending deltas folded in) and symlink targets.
\<close>

record afs =
  af_names :: entries
  af_attrs :: inodes
  af_target :: "inode \<Rightarrow> bytes option"

definition abs_fs :: "view \<Rightarrow> afs" where
  "abs_fs V = \<lparr>af_names = dirent V, af_attrs = effective V,
     af_target = (\<lambda>i. V CF_INODES (encode_symlink_key i))\<rparr>"

text \<open>Applying a group of deltas to one inode.\<close>

definition touch :: "inode \<Rightarrow> DeltaOp list \<Rightarrow> inodes \<Rightarrow> inodes" where
  "touch p ds S = S(p := map_option (\<lambda>b. fold_deltas b ds) (S p))"

section \<open>The invariant\<close>

definition contents_ok :: "view \<Rightarrow> (inode \<Rightarrow> u64) \<Rightarrow> u64 \<Rightarrow> inode set \<Rightarrow> bool" where
  "contents_ok V sq next pd \<longleftrightarrow>
     ns_ok (dirent V) (stored V) next pd \<and> delta_inv V sq \<and>
     (\<forall>i. pending V i \<noteq> [] \<longrightarrow> i < next \<and> (stored V i = None \<or> dir_at (stored V) i))"

definition server_inv :: "('db \<Rightarrow> view) \<Rightarrow> ('db, 'txn, 'c, 'z) server_scheme \<Rightarrow> bool" where
  "server_inv view s \<longleftrightarrow>
     contents_ok (view (kv_db s)) (seq_of s) (ia_next (sv_alloc s)) (sv_pending_deletes s)"

text \<open>The counters are far from wrapping around.\<close>

definition room :: "nat \<Rightarrow> ('db, 'txn, 'c, 'z) server_scheme \<Rightarrow> bool" where
  "room n s \<longleftrightarrow> (\<forall>i. unat (seq_of s i) + n < 2 ^ 64) \<and> unat (ia_next (sv_alloc s)) + n < 2 ^ 64"

lemma room_mono: "room n s \<Longrightarrow> m \<le> n \<Longrightarrow> room m s"
  unfolding room_def by (meson add_left_mono le_less_trans)

lemma word_add_room:
  fixes a :: u64
  assumes "unat a + n < 2 ^ 64" and "k \<le> n"
  shows "unat (a + of_nat k) = unat a + k"
  using assms by (simp add: unat_word_ariths unat_of_nat)

lemma room_quiet:
  assumes "quiet view k s s'" and "room (k + n) s"
  shows "room n s'"
  unfolding room_def
proof
  show "\<forall>i. unat (seq_of s' i) + n < 2 ^ 64"
  proof
    fix i
    obtain l where "l \<le> k" "seq_of s' i = seq_of s i + of_nat l"
      using assms(1) unfolding quiet_def seqs_grown_def by blast
    moreover have "unat (seq_of s i) + (k + n) < 2 ^ 64" using assms(2) by (simp add: room_def)
    ultimately show "unat (seq_of s' i) + n < 2 ^ 64"
      using word_add_room [of "seq_of s i" "k + n" l] by simp
  qed
  obtain l where "l \<le> k" "ia_next (sv_alloc s') = ia_next (sv_alloc s) + of_nat l"
    using assms(1) unfolding quiet_def alloc_grown_def by blast
  with word_add_room [of "ia_next (sv_alloc s)" "k + n" l] assms(2)
  show "unat (ia_next (sv_alloc s')) + n < 2 ^ 64"
    unfolding room_def by simp
qed

lemma ns_ok_mono:
  assumes "ns_ok D S next pd" and "next \<le> next'"
  shows "ns_ok D S next' pd"
  using assms unfolding ns_ok_def by (meson less_le_trans)

lemma server_inv_quiet:
  assumes inv: "server_inv view s" and q: "quiet view k s s'" and r: "room k s"
  shows "server_inv view s'"
proof -
  obtain l where l: "l \<le> k" "ia_next (sv_alloc s') = ia_next (sv_alloc s) + of_nat l"
    using q unfolding quiet_def alloc_grown_def by blast
  have "unat (ia_next (sv_alloc s')) = unat (ia_next (sv_alloc s)) + l"
    unfolding l(2) by (rule word_add_room [OF _ l(1)]) (use r in \<open>simp add: room_def\<close>)
  then have le: "ia_next (sv_alloc s) \<le> ia_next (sv_alloc s')" by (simp add: word_le_nat_alt)
  have "delta_inv (view (kv_db s)) (seq_of s')"
    by (rule delta_inv_grown) (use inv q r in \<open>auto simp: server_inv_def contents_ok_def quiet_def room_def\<close>)
  moreover have "i < ia_next (sv_alloc s')" if "i < ia_next (sv_alloc s)" for i using that le by (rule less_le_trans)
  moreover have "view (kv_db s') = view (kv_db s)" "sv_pending_deletes s' = sv_pending_deletes s"
    using q by (simp_all add: quiet_def same_rest_def)
  ultimately show ?thesis
    using inv ns_ok_mono [OF _ le] unfolding server_inv_def contents_ok_def by simp
qed

section \<open>Contents after a transaction\<close>

text \<open>
  The writes of a transaction: some records outside the delta column family (\<open>V1\<close> is the contents
  with them), then deltas for directories.
\<close>

definition base_writes :: "view \<Rightarrow> view \<Rightarrow> bool" where
  "base_writes V V1 \<longleftrightarrow> V1 CF_DELTA_ENTRIES = V CF_DELTA_ENTRIES"

lemma base_writes_pending:
  assumes "base_writes V V1"
  shows "pending V1 = pending V" "delta_inv V1 sq = delta_inv V sq"
  using assms unfolding base_writes_def pending_def delta_inv_def by simp_all

lemma contents_ok_groups:
  assumes ok: "contents_ok V sq next pd" and fin: "finite (dom (V CF_DELTA_ENTRIES))"
    and room: "\<And>i. unat (sq i) + group_size gs < 2 ^ 64"
    and base: "base_writes V V1" and ns: "ns_ok (dirent V1) (stored V1) next' pd'" and le: "next \<le> next'"
    and dirs: "\<And>i. deltas_for i gs \<noteq> [] \<Longrightarrow> dir_at (stored V1) i"
    and old: "\<And>i. pending V i \<noteq> [] \<Longrightarrow> stored V1 i = None \<or> dir_at (stored V1) i"
  shows "contents_ok (apply_writes (group_writes sq gs) V1) (group_seqs sq gs) next' pd'"
    and "effective (apply_writes (group_writes sq gs) V1) j =
      map_option (\<lambda>b. fold_deltas b (decode_deltas (pending V j) @ deltas_for j gs)) (stored V1 j)"
proof -
  have fin1: "finite (dom (V1 CF_DELTA_ENTRIES))" and inv1: "delta_inv V1 sq"
    using fin ok base base_writes_pending(2) [OF base] by (simp_all add: base_writes_def contents_ok_def)
  note p = pending_group_writes [OF fin1 inv1 room, unfolded base_writes_pending(1) [OF base]]
  show "effective (apply_writes (group_writes sq gs) V1) j =
      map_option (\<lambda>b. fold_deltas b (decode_deltas (pending V j) @ deltas_for j gs)) (stored V1 j)"
    using p by (simp add: effective_def)
  have "i < next' \<and> (stored V1 i = None \<or> dir_at (stored V1) i)" if "pending V i \<noteq> [] \<or> deltas_for i gs \<noteq> []" for i
  proof (cases "pending V i = []")
    case True
    then have "dir_at (stored V1) i" using dirs that by blast
    then show ?thesis using ns_ok_simps(3) [OF ns, of i] by (auto simp: dir_at_def split: option.splits)
  next
    case False
    then show ?thesis using ok old le unfolding contents_ok_def by (meson less_le_trans)
  qed
  then show "contents_ok (apply_writes (group_writes sq gs) V1) (group_seqs sq gs) next' pd'"
    using ns p unfolding contents_ok_def by auto
qed

lemma contents_ok_cleared:
  assumes "contents_ok V sq next pd" and "finite (dom (V CF_DELTA_ENTRIES))" and "cleared c V sq V' sq'"
  shows "contents_ok V' sq' next pd"
    and "effective V' j = (if j = c then effective V' c else effective V j)"
    and "stored V c = None \<Longrightarrow> effective V' = effective V"
    and "dirent V' = dirent V" and "stored V' = stored V"
proof -
  note p = pending_drop_deltas [where V = V, OF assms(2), of c]
  show "dirent V' = dirent V" "stored V' = stored V" using assms(3) by (auto simp: cleared_def)
  show "contents_ok V' sq' next pd"
    using assms(1,3) p delta_inv_drop [of V sq c 0] by (auto simp: cleared_def contents_ok_def simp del: fun_upd_apply split: if_splits)
  show "effective V' j = (if j = c then effective V' c else effective V j)"
    using assms(3) p by (auto simp: cleared_def effective_def)
  show "effective V' = effective V" if none: "stored V c = None"
  proof
    fix j
    show "effective V' j = effective V j" using none assms(3) p by (auto simp: cleared_def effective_def)
  qed
qed

lemma contents_ok_system:
  "contents_ok (upd CF_INODES NEXT_INODE_KEY x V) sq next pd = contents_ok V sq next pd"
  "effective (upd CF_INODES NEXT_INODE_KEY x V) = effective V"
  "abs_fs (upd CF_INODES NEXT_INODE_KEY x V) = abs_fs V"
  by (simp_all add: contents_ok_def effective_def abs_fs_def fun_eq_iff)

section \<open>Effects of the transactions\<close>

definition side_writes :: "(cf \<times> bytes \<times> bytes option) list \<Rightarrow> bool" where
  "side_writes ws \<longleftrightarrow> (\<forall>w \<in> set ws. \<exists>j x.
     w = (CF_INODES, encode_data_location_key j, x) \<or> w = (CF_INODES, encode_symlink_key j, x))"

lemma side_writes_frame:
  assumes "side_writes ws"
  shows "dirent (apply_writes ws V) = dirent V" "stored (apply_writes ws V) = stored V"
    "base_writes V (apply_writes ws V)"
  using assms
  by (induction ws arbitrary: V) (auto simp: side_writes_def base_writes_def)

lemma side_writes_simps [simp]:
  "side_writes []" "side_writes [(CF_INODES, encode_data_location_key j, x)]"
  "side_writes [(CF_INODES, encode_symlink_key j, x)]"
  by (auto simp: side_writes_def)

lemma next_less: "unat (a :: u64) + 1 < 2 ^ 64 \<Longrightarrow> a < a + 1"
  by (simp add: word_less_nat_alt unat_word_ariths)

context rocksdb
begin

lemma inv_created:
  assumes c: "created view p n iv extra ds s s'" and inv: "server_inv view s" and room: "room (length ds + 1) s"
    and p: "dir_at (stored (view (kv_db s))) p" and refs: "1 \<le> max_refs iv" and side: "side_writes extra"
  shows "server_inv view s'"
    and "effective (view (kv_db s')) = touch p ds ((effective (view (kv_db s)))(iv_inode iv \<mapsto> iv))"
    and "dirent (view (kv_db s')) = set_entry p n (Some (iv_inode iv, iv_mode iv)) (dirent (view (kv_db s)))"
proof -
  let ?V = "view (kv_db s)" and ?i = "ia_next (sv_alloc s)"
  define V0 where "V0 = upd CF_DIR_ENTRIES (encode_dir_entry_key p n) (Some (encode_dir_value ?i (iv_mode iv)))
    (upd CF_INODES (encode_inode_key ?i) (Some (serialize iv)) ?V)"
  define V1 where "V1 = apply_writes extra V0"
  note created = c [unfolded created_def]
  have V0: "dirent V0 = set_entry p n (Some (?i, iv_mode iv)) (dirent ?V)" "stored V0 = (stored ?V)(?i \<mapsto> iv)"
    using created by (simp_all add: V0_def del: fun_upd_apply)
  have V1: "dirent V1 = set_entry p n (Some (?i, iv_mode iv)) (dirent ?V)" "stored V1 = (stored ?V)(?i \<mapsto> iv)"
    unfolding V1_def side_writes_frame [OF side] by (fact V0)+
  have base: "base_writes ?V V1"
    using side_writes_frame(3) [OF side, of V0] by (simp add: base_writes_def V1_def V0_def)
  have V': "view (kv_db s') = apply_writes (group_writes (seq_of s) [(p, ds)]) V1"
    "seq_of s' = group_seqs (seq_of s) [(p, ds)]"
    using created by (simp_all add: entry_writes_def V1_def V0_def del: fun_upd_apply)
  have ok: "contents_ok ?V (seq_of s) ?i (sv_pending_deletes s)" using inv by (simp add: server_inv_def)
  then have ns: "ns_ok (dirent ?V) (stored ?V) ?i (sv_pending_deletes s)" by (simp add: contents_ok_def)
  have less: "?i < ia_next (sv_alloc s')"
    using room created by (simp add: room_def next_less)
  have free: "dirent ?V p n = None" using created by (simp add: dirent_def)
  have same: "sv_pending_deletes s' = sv_pending_deletes s" using created by (simp add: same_rest_def)
  have none: "stored ?V ?i = None" using ns_ok_simps(3) [OF ns, of ?i] by (cases "stored ?V ?i") auto
  then have pi: "p \<noteq> ?i" using p by (auto simp: dir_at_def)
  have ns': "ns_ok (dirent V1) (stored V1) (ia_next (sv_alloc s')) (sv_pending_deletes s')"
    unfolding V1 same by (rule ns_ok_create [OF ns free p]) (use created refs less in auto)
  have nodelta: "pending ?V ?i = []" using ok by (auto simp: contents_ok_def)
  note g = contents_ok_groups [where V = ?V and gs = "[(p, ds)]", OF ok finite_view _ base ns' less_imp_le [OF less]]
  have cond: "unat (seq_of s i) + group_size [(p, ds)] < 2 ^ 64" "deltas_for i [(p, ds)] \<noteq> [] \<Longrightarrow> dir_at (stored V1) i"
    "pending ?V i \<noteq> [] \<Longrightarrow> stored V1 i = None \<or> dir_at (stored V1) i" for i
  proof -
    have "unat (seq_of s i) + (length ds + 1) < 2 ^ 64" using room unfolding room_def by blast
    then show "unat (seq_of s i) + group_size [(p, ds)] < 2 ^ 64" by simp
    show "deltas_for i [(p, ds)] \<noteq> [] \<Longrightarrow> dir_at (stored V1) i"
      using p pi by (auto simp: V1 split: if_splits)
    show "pending ?V i \<noteq> [] \<Longrightarrow> stored V1 i = None \<or> dir_at (stored V1) i"
      using ok nodelta by (auto simp: V1 contents_ok_def)
  qed
  show "server_inv view s'" unfolding server_inv_def V' using g(1) cond by blast
  show "effective (view (kv_db s')) = touch p ds ((effective ?V)(iv_inode iv \<mapsto> iv))"
    using g(2) [OF cond] created none pi nodelta
    by (auto simp: V' V1 touch_def effective_def fun_eq_iff fold_deltas_append option.map_comp comp_def
        simp del: group_writes.simps)
  show "dirent (view (kv_db s')) = set_entry p n (Some (iv_inode iv, iv_mode iv)) (dirent ?V)"
    unfolding V' group_writes_frame V1 using created by simp
qed

text \<open>
  A transaction that allocates no inode and keeps the kinds: from the entries \<open>D1\<close> and inodes \<open>S1\<close>
  its writes establish, the invariant and the visible attributes follow. Clearing the deltas of a
  deleted inode after the commit changes neither.
\<close>

lemma inv_txn:
  assumes inv: "server_inv view s" and room: "room (group_size gs) s"
    and V1: "base_writes (view (kv_db s)) V1" "dirent V1 = D1" "stored V1 = S1"
    and ns: "ns_ok D1 S1 (ia_next (sv_alloc s)) pd'"
    and dirs: "\<And>i. deltas_for i gs \<noteq> [] \<Longrightarrow> dir_at S1 i"
    and kind: "\<And>i. S1 i = None \<or> dir_at S1 i = dir_at (stored (view (kv_db s))) i \<and> stored (view (kv_db s)) i \<noteq> None"
    and W: "W = apply_writes (group_writes (seq_of s) gs) V1"
    and out: "cleared c W (group_seqs (seq_of s) gs) V' sq'"
  shows "contents_ok V' sq' (ia_next (sv_alloc s)) pd'" and "dirent V' = D1" and "stored V' = S1"
    and "V' = W \<or> j \<noteq> c \<or> S1 c = None \<Longrightarrow> effective V' j =
      map_option (\<lambda>b. fold_deltas b (decode_deltas (pending (view (kv_db s)) j) @ deltas_for j gs)) (S1 j)"
proof -
  let ?V = "view (kv_db s)"
  have ok: "contents_ok ?V (seq_of s) (ia_next (sv_alloc s)) (sv_pending_deletes s)" using inv by (simp add: server_inv_def)
  have r: "unat (seq_of s i) + group_size gs < 2 ^ 64" for i using room by (simp add: room_def)
  have old: "stored V1 i = None \<or> dir_at (stored V1) i" if "pending ?V i \<noteq> []" for i
  proof -
    have "stored ?V i = None \<or> dir_at (stored ?V) i" using ok that by (simp add: contents_ok_def)
    with kind [of i] V1(3) show ?thesis by auto
  qed
  have fin: "finite (dom (W CF_DELTA_ENTRIES))"
    using V1(1) finite_view [of "kv_db s" CF_DELTA_ENTRIES] by (simp add: W base_writes_def)
  note g = contents_ok_groups [where V = ?V, OF ok finite_view r V1(1) _ order_refl _ old,
      unfolded V1(2,3), OF ns dirs, folded W]
  note cl = contents_ok_cleared [where V = W, OF g(1) fin out]
  have frame: "dirent W = D1" "stored W = S1" by (simp_all add: W V1)
  show "contents_ok V' sq' (ia_next (sv_alloc s)) pd'" by (rule cl(1))
  show "dirent V' = D1" "stored V' = S1" using cl(4,5) frame by simp_all
  show "effective V' j = map_option (\<lambda>b. fold_deltas b (decode_deltas (pending ?V j) @ deltas_for j gs)) (S1 j)"
    if "V' = W \<or> j \<noteq> c \<or> S1 c = None"
  proof -
    have "effective V' j = effective W j" using that cl(2) [of j] cl(3) frame(2) by auto
    with g(2) show ?thesis by simp
  qed
qed

lemma cleared_refl [simp]: "cleared c V sq V sq"
  by (simp add: cleared_def)

lemma server_inv_ns: "server_inv view s \<Longrightarrow>
  ns_ok (dirent (view (kv_db s))) (stored (view (kv_db s))) (ia_next (sv_alloc s)) (sv_pending_deletes s)"
  by (simp add: server_inv_def contents_ok_def)

text \<open>Files have no pending deltas, so that their stored value is what a client sees.\<close>

lemma server_inv_file:
  assumes "server_inv view s" and "stored (view (kv_db s)) i = Some iv" and "\<not> is_dir (iv_mode iv)"
  shows "pending (view (kv_db s)) i = []" and "effective (view (kv_db s)) i = Some iv"
proof -
  show p: "pending (view (kv_db s)) i = []"
    using assms by (auto simp: server_inv_def contents_ok_def dir_at_def)
  show "effective (view (kv_db s)) i = Some iv" using assms(2) p by (simp add: effective_def)
qed

lemma inv_updated:
  assumes u: "updated view L i iv iv' s s'" and inv: "server_inv view s" and room: "room 0 s"
    and iv': "iv_version iv' = FORMAT_VERSION" "is_dir (iv_mode iv') = is_dir (iv_mode iv)" "iv_nlink iv' = iv_nlink iv"
  shows "server_inv view s'"
    and "effective (view (kv_db s')) = (effective (view (kv_db s)))
      (i \<mapsto> fold_deltas iv' (decode_deltas (pending (view (kv_db s)) i)))"
    and "dirent (view (kv_db s')) = dirent (view (kv_db s))"
proof -
  let ?V = "view (kv_db s)" and ?V' = "view (kv_db s')"
  note u = u [unfolded updated_def]
  have ns: "ns_ok (dirent ?V) ((stored ?V)(i \<mapsto> iv')) (ia_next (sv_alloc s)) (sv_pending_deletes s)"
    by (rule ns_ok_update [OF server_inv_ns [OF inv]]) (use u iv' in \<open>auto simp: max_refs_def\<close>)
  have kind: "((stored ?V)(i \<mapsto> iv')) j = None \<or>
      dir_at ((stored ?V)(i \<mapsto> iv')) j = dir_at (stored ?V) j \<and> stored ?V j \<noteq> None" for j
    using u iv' by (cases "j = i") (auto simp: dir_at_def)
  have r: "room (group_size []) s" using room by simp
  have base: "base_writes ?V ?V'" "dirent ?V' = dirent ?V" "stored ?V' = (stored ?V)(i \<mapsto> iv')"
    using u iv' by (simp_all add: base_writes_def del: fun_upd_apply)
  have out: "cleared i ?V' (group_seqs (seq_of s) []) ?V' (seq_of s')" using u by (simp add: cleared_def)
  note t = inv_txn [OF inv r base ns _ kind _ out]
  show "server_inv view s'" using t(1) u by (simp add: server_inv_def same_rest_def)
  show "dirent ?V' = dirent ?V" by (fact base(2))
  show "effective ?V' = (effective ?V)(i \<mapsto> fold_deltas iv' (decode_deltas (pending ?V i)))"
    using t(4) by (auto simp: fun_eq_iff effective_def [of ?V])
qed

lemma unat_sat_dec: "unat (sat_dec n) = unat n - 1"
  by (cases "n = 0") (auto simp: sat_dec_def unat_minus_one)

lemma sat_dec_0: "sat_dec n = 0 \<longleftrightarrow> unat n \<le> 1"
  using unat_sat_dec [of n] by (metis diff_is_0_eq unat_eq_zero)

text \<open>A transaction with one group of deltas, for the parent of the entry it changes.\<close>

lemma touch_effective:
  assumes "\<And>j. effective V' j = map_option (\<lambda>b. fold_deltas b (decode_deltas (pending V j) @
      deltas_for j [(p, ds)])) (((stored V)(i := x)) j)"
    and "pending V i = [] \<or> x = None" and "p \<noteq> i"
  shows "effective V' = touch p ds ((effective V)(i := x))"
proof
  fix j
  show "effective V' j = touch p ds ((effective V)(i := x)) j"
    using assms(2,3)
    unfolding assms(1) by (auto simp: touch_def effective_def [of V] fold_deltas_append option.map_comp comp_def
        option.map_ident)
qed

text \<open>A transaction whose deltas go to one directory \<open>p\<close> and that changes the inode \<open>c\<close>.\<close>

lemma inv_parent_txn:
  assumes inv: "server_inv view s" and room: "room (length ds) s"
    and V1: "base_writes (view (kv_db s)) V1" "dirent V1 = D1" "stored V1 = (stored (view (kv_db s)))(c := x)"
    and ns: "ns_ok D1 ((stored (view (kv_db s)))(c := x)) (ia_next (sv_alloc s)) pd'"
    and p: "dir_at (stored (view (kv_db s))) p" "p \<noteq> c"
    and c: "stored (view (kv_db s)) c \<noteq> None" "\<And>iv. x = Some iv \<Longrightarrow> is_dir (iv_mode iv) = dir_at (stored (view (kv_db s))) c"
    and plain: "pending (view (kv_db s)) c = [] \<or> x = None"
    and out: "cleared c (apply_writes (group_writes (seq_of s) [(p, ds)]) V1) (group_seqs (seq_of s) [(p, ds)]) V' sq'"
      "x \<noteq> None \<Longrightarrow> V' = apply_writes (group_writes (seq_of s) [(p, ds)]) V1"
  shows "contents_ok V' sq' (ia_next (sv_alloc s)) pd'" and "dirent V' = D1"
    and "effective V' = touch p ds ((effective (view (kv_db s)))(c := x))"
proof -
  let ?V = "view (kv_db s)"
  have r: "room (group_size [(p, ds)]) s" using room by simp
  have "deltas_for i [(p, ds)] \<noteq> [] \<Longrightarrow> dir_at ((stored ?V)(c := x)) i" for i
    using p by (auto simp: dir_at_def split: if_splits)
  moreover have "((stored ?V)(c := x)) i = None \<or>
      dir_at ((stored ?V)(c := x)) i = dir_at (stored ?V) i \<and> stored ?V i \<noteq> None" for i
    using c by (cases "i = c"; cases x) (auto simp: dir_at_def)
  ultimately have t: "contents_ok V' sq' (ia_next (sv_alloc s)) pd'" "dirent V' = D1"
    "effective V' j = map_option (\<lambda>b. fold_deltas b (decode_deltas (pending ?V j) @ deltas_for j [(p, ds)]))
       (((stored ?V)(c := x)) j)" for j
    using inv_txn [OF inv r V1 ns _ _ refl out(1)] out(2) by (blast, blast, metis fun_upd_same)
  then show "contents_ok V' sq' (ia_next (sv_alloc s)) pd'" "dirent V' = D1" by blast+
  show "effective V' = touch p ds ((effective ?V)(c := x))"
    by (rule touch_effective [OF t(3)]) (use plain p(2) in auto)
qed

end

subsection \<open>Unlink\<close>

definition unlink_base :: "inode \<Rightarrow> str \<Rightarrow> inode \<Rightarrow> InodeValue option \<Rightarrow> view \<Rightarrow> view" where
  "unlink_base p n c keep V = apply_writes ((CF_DIR_ENTRIES, encode_dir_entry_key p n, None) #
     (case keep of
        Some iv \<Rightarrow> [(CF_INODES, encode_inode_key c, Some (serialize iv))]
      | None \<Rightarrow> [(CF_INODES, encode_inode_key c, None), (CF_INODES, encode_data_location_key c, None)])) V"

lemma unlink_base_frame:
  assumes "\<And>iv. keep = Some iv \<Longrightarrow> iv_version iv = FORMAT_VERSION"
  shows "base_writes V (unlink_base p n c keep V)"
    and "dirent (unlink_base p n c keep V) = set_entry p n None (dirent V)"
    and "stored (unlink_base p n c keep V) = (stored V)(c := keep)"
  using assms by (auto simp: unlink_base_def base_writes_def split: option.split)

text \<open>What is kept of the inode of a removed entry.\<close>

definition unlink_keep :: "InodeValue \<Rightarrow> u64 \<Rightarrow> bool \<Rightarrow> InodeValue option" where
  "unlink_keep iv t open = (if sat_dec (iv_nlink iv) \<noteq> 0 \<or> open
     then Some (iv\<lparr>iv_nlink := sat_dec (iv_nlink iv), iv_ctime := t\<rparr>) else None)"

context rocksdb
begin

lemma unlinkedE:
  assumes "unlinked view L p n c result ts s s'"
  obtains m iv t where "dirent (view (kv_db s)) p n = Some (c, m)" "\<not> is_dir m" "stored (view (kv_db s)) c = Some iv"
    "result = (if sat_dec (iv_nlink iv) \<noteq> 0 then None else Some (c, open_count s c > 0))"
    "cleared c (apply_writes (group_writes (seq_of s) [(p, [SetMtime ts, SetCtime ts])])
         (unlink_base p n c (unlink_keep iv t (open_count s c > 0)) (view (kv_db s))))
       (group_seqs (seq_of s) [(p, [SetMtime ts, SetCtime ts])]) (view (kv_db s')) (seq_of s')"
    "unlink_keep iv t (open_count s c > 0) \<noteq> None \<Longrightarrow> view (kv_db s') =
       apply_writes (group_writes (seq_of s) [(p, [SetMtime ts, SetCtime ts])])
         (unlink_base p n c (unlink_keep iv t (open_count s c > 0)) (view (kv_db s)))"
    "cw_cache s' = (case unlink_keep iv t (open_count s c > 0) of
        Some iv' \<Rightarrow> cache_put L c iv' (cw_cache s) | None \<Rightarrow> cache_invalidate L c (cw_cache s))"
    "same_rest s s'" "sv_alloc s' = sv_alloc s"
proof -
  have w: "apply_writes (unlink_writes p n c keep q ts) V =
      apply_writes (delta_writes p q (map serialize_delta [SetMtime ts, SetCtime ts])) (unlink_base p n c keep V)"
    for keep q V by (cases keep) (simp_all add: unlink_writes_def unlink_base_def del: delta_writes.simps)
  from assms show thesis
    unfolding unlinked_def w
  proof (elim exE conjE)
    fix m iv t
    assume "dirent (view (kv_db s)) p n = Some (c, m)" "\<not> is_dir m" "stored (view (kv_db s)) c = Some iv"
      "same_rest s s'" "sv_alloc s' = sv_alloc s"
      "let nl = sat_dec (iv_nlink iv); iv' = iv\<lparr>iv_nlink := nl, iv_ctime := t\<rparr>; keep = (nl \<noteq> 0 \<or> open_count s c > 0);
          V' = apply_writes (delta_writes p (seq_of s p) (map serialize_delta [SetMtime ts, SetCtime ts]))
            (unlink_base p n c (if keep then Some iv' else None) (view (kv_db s)));
          sq' = (seq_of s)(p := seq_of s p + 2)
       in result = (if nl \<noteq> 0 then None else Some (c, keep)) \<and>
          (if keep then view (kv_db s') = V' \<and> seq_of s' = sq' \<and> cw_cache s' = cache_put L c iv' (cw_cache s)
           else cleared c V' sq' (view (kv_db s')) (seq_of s') \<and> cw_cache s' = cache_invalidate L c (cw_cache s))"
    then show thesis
      by (intro that [of m iv t])
        (auto simp: Let_def unlink_keep_def simp del: fun_upd_apply delta_writes.simps split: if_splits)
  qed
qed

lemma ns_ok_unlink:
  assumes ns: "ns_ok D S next pd" and e: "D p n = Some (c, m)" "\<not> is_dir m" and iv: "S c = Some iv"
  shows "ns_ok (set_entry p n None D) (S(c := unlink_keep iv t open)) next
    (pd \<union> (if sat_dec (iv_nlink iv) = 0 \<and> open then {c} else {}))"
proof -
  have kind: "is_dir (iv_mode iv) = is_dir m" using ns_okD [OF ns e(1)] iv by (metis option.inject)
  have one: "sat_dec (iv_nlink iv) = 0 \<Longrightarrow> max_refs iv \<le> 1"
    using sat_dec_0 e(2) kind by (simp add: max_refs_def)
  have no_entries: "D c x = None" for x
  proof (cases "D c x")
    case (Some y)
    then obtain d k where "D c x = Some (d, k)" by (cases y) auto
    from ns_okD [OF ns this] have "dir_at S c" by metis
    with iv e(2) kind show ?thesis by (simp add: dir_at_def)
  qed
  show ?thesis
    by (rule ns_ok_remove [OF ns e(1) iv])
      (use e(2) kind one no_entries unat_sat_dec [of "iv_nlink iv"] in
        \<open>auto simp: unlink_keep_def max_refs_def split: if_splits\<close>)
qed

lemma inv_unlinked:
  assumes u: "unlinked view L p n c result ts s s'" and inv: "server_inv view s" and room: "room 2 s"
  obtains m iv t where "dirent (view (kv_db s)) p n = Some (c, m)" "\<not> is_dir m"
    "effective (view (kv_db s)) c = Some iv"
    "result = (if sat_dec (iv_nlink iv) \<noteq> 0 then None else Some (c, open_count s c > 0))"
    "dirent (view (kv_db s')) = set_entry p n None (dirent (view (kv_db s)))"
    "effective (view (kv_db s')) = touch p [SetMtime ts, SetCtime ts]
       ((effective (view (kv_db s)))(c := unlink_keep iv t (open_count s c > 0)))"
    "contents_ok (view (kv_db s')) (seq_of s') (ia_next (sv_alloc s))
       (sv_pending_deletes s \<union> (if result = Some (c, True) then {c} else {}))"
    "cw_cache s' = (case unlink_keep iv t (open_count s c > 0) of
        Some iv' \<Rightarrow> cache_put L c iv' (cw_cache s) | None \<Rightarrow> cache_invalidate L c (cw_cache s))"
    "same_rest s s'" "sv_alloc s' = sv_alloc s"
  using u
proof (rule unlinkedE)
  let ?V = "view (kv_db s)" and ?gs = "[(p, [SetMtime ts, SetCtime ts])]"
  fix m iv t
  let ?keep = "unlink_keep iv t (open_count s c > 0)"
  assume e: "dirent ?V p n = Some (c, m)" "\<not> is_dir m" and iv: "stored ?V c = Some iv"
    and result: "result = (if sat_dec (iv_nlink iv) \<noteq> 0 then None else Some (c, open_count s c > 0))"
    and out: "cleared c (apply_writes (group_writes (seq_of s) ?gs) (unlink_base p n c ?keep ?V))
       (group_seqs (seq_of s) ?gs) (view (kv_db s')) (seq_of s')"
    and kept: "?keep \<noteq> None \<Longrightarrow> view (kv_db s') = apply_writes (group_writes (seq_of s) ?gs) (unlink_base p n c ?keep ?V)"
    and rest: "cw_cache s' = (case ?keep of
        Some iv' \<Rightarrow> cache_put L c iv' (cw_cache s) | None \<Rightarrow> cache_invalidate L c (cw_cache s))"
      "same_rest s s'" "sv_alloc s' = sv_alloc s"
  have dirs: "is_dir (iv_mode iv) = is_dir m" "dir_at (stored ?V) p"
    using ns_okD [OF server_inv_ns [OF inv] e(1)] iv by (metis option.inject)+
  then have pc: "p \<noteq> c" using e(2) iv by (auto simp: dir_at_def)
  have ver: "iv_version iv'' = FORMAT_VERSION" if "?keep = Some iv''" for iv''
    using that iv deserialize_version by (auto simp: unlink_keep_def stored_Some split: if_splits)
  have plain: "pending ?V c = []" "effective ?V c = Some iv" using server_inv_file [OF inv iv] e(2) dirs(1) by auto
  have r: "room (length [SetMtime ts, SetCtime ts]) s" using room by (simp add: numeral_2_eq_2)
  have ns: "ns_ok (set_entry p n None (dirent ?V)) ((stored ?V)(c := ?keep)) (ia_next (sv_alloc s))
      (sv_pending_deletes s \<union> (if result = Some (c, True) then {c} else {}))"
    using ns_ok_unlink [OF server_inv_ns [OF inv] e iv, of t "open_count s c > 0"] result
    by (auto split: if_splits)
  have c: "stored ?V c \<noteq> None" "is_dir (iv_mode iv'') = dir_at (stored ?V) c" if "?keep = Some iv''" for iv''
    using iv that by (auto simp: dir_at_def unlink_keep_def split: if_splits)
  note t = inv_parent_txn [OF inv r unlink_base_frame [OF ver] ns dirs(2) pc _ c(2) _ out kept]
  show thesis
    by (rule that [OF e plain(2) result _ _ _ rest]) (use t iv plain(1) in auto)
qed

end

subsection \<open>Rmdir, link, release\<close>

lemma dir_empty_dirent: "dir_empty V c \<Longrightarrow> dirent V c n = None"
  by (simp add: dir_empty_def dirent_def)

context rocksdb
begin

lemma inv_rmdired:
  assumes u: "rmdired view L p n c ts s s'" and inv: "server_inv view s" and room: "room 3 s"
  shows "server_inv view s'"
    and "dirent (view (kv_db s')) = set_entry p n None (dirent (view (kv_db s)))"
    and "effective (view (kv_db s')) = touch p [IncrementNlink (- 1), SetMtime ts, SetCtime ts]
      ((effective (view (kv_db s)))(c := None))"
proof -
  let ?V = "view (kv_db s)" and ?ds = "[IncrementNlink (- 1), SetMtime ts, SetCtime ts]"
  let ?V1 = "upd CF_INODES (encode_inode_key c) None (upd CF_DIR_ENTRIES (encode_dir_entry_key p n) None ?V)"
  from u obtain m where e: "dirent ?V p n = Some (c, m)" and m: "is_dir m" and empty: "dir_empty ?V c"
    and out: "cleared c (apply_writes (group_writes (seq_of s) [(p, ?ds)]) ?V1) (group_seqs (seq_of s) [(p, ?ds)])
      (view (kv_db s')) (seq_of s')" and same: "same_rest s s'" "sv_alloc s' = sv_alloc s"
    unfolding rmdired_def rmdir_writes_def by (auto simp del: fun_upd_apply delta_writes.simps)
  note ns = server_inv_ns [OF inv]
  obtain iv where iv: "stored ?V c = Some iv" "is_dir (iv_mode iv)" and p: "dir_at (stored ?V) p"
    using ns_okD [OF ns e] m by metis
  have no_entries: "dirent ?V c x = None" for x using empty by (rule dir_empty_dirent)
  have pc: "p \<noteq> c" using e no_entries by auto
  have ns': "ns_ok (set_entry p n None (dirent ?V)) ((stored ?V)(c := None)) (ia_next (sv_alloc s)) (sv_pending_deletes s)"
    by (rule ns_ok_remove [OF ns e iv(1)]) (use iv(2) no_entries in \<open>auto simp: max_refs_def\<close>)
  have V1: "base_writes ?V ?V1" "dirent ?V1 = set_entry p n None (dirent ?V)" "stored ?V1 = (stored ?V)(c := None)"
    by (simp_all add: base_writes_def del: fun_upd_apply)
  have r: "room (length ?ds) s" using room by (simp add: numeral_3_eq_3)
  note t = inv_parent_txn [OF inv r V1 ns' p pc _ _ _ out]
  show "server_inv view s'" using t(1) iv same by (simp add: server_inv_def same_rest_def)
  show "dirent (view (kv_db s')) = set_entry p n None (dirent ?V)" using t(2) iv by simp
  show "effective (view (kv_db s')) = touch p ?ds ((effective ?V)(c := None))" using t(3) iv by simp
qed

lemma inv_linked:
  assumes u: "linked view L p n i iv' ts s s'" and inv: "server_inv view s" and room: "room 2 s"
    and i: "i \<notin> sv_pending_deletes s" "iv_nlink iv' \<noteq> 0"
  shows "server_inv view s'"
    and "dirent (view (kv_db s')) = set_entry p n (Some (i, iv_mode iv')) (dirent (view (kv_db s)))"
    and "effective (view (kv_db s')) = touch p [SetMtime ts, SetCtime ts] ((effective (view (kv_db s)))(i \<mapsto> iv'))"
proof -
  let ?V = "view (kv_db s)" and ?ds = "[SetMtime ts, SetCtime ts]"
  let ?V1 = "upd CF_DIR_ENTRIES (encode_dir_entry_key p n) (Some (encode_dir_value i (iv_mode iv')))
    (upd CF_INODES (encode_inode_key i) (Some (serialize iv')) ?V)"
  from u obtain iv t piv where iv: "stored ?V i = Some iv" "\<not> is_dir (iv_mode iv)"
    and p: "stored ?V p = Some piv" "is_dir (iv_mode piv)"
    and iv': "iv' = iv\<lparr>iv_nlink := iv_nlink iv + 1, iv_ctime := t\<rparr>"
    and free: "?V CF_DIR_ENTRIES (encode_dir_entry_key p n) = None"
    and out: "cleared i (apply_writes (group_writes (seq_of s) [(p, ?ds)]) ?V1) (group_seqs (seq_of s) [(p, ?ds)])
      (view (kv_db s')) (seq_of s')" "view (kv_db s') = apply_writes (group_writes (seq_of s) [(p, ?ds)]) ?V1"
    and same: "same_rest s s'" "sv_alloc s' = sv_alloc s"
    unfolding linked_def link_writes_def by (auto simp del: fun_upd_apply delta_writes.simps)
  note ns = server_inv_ns [OF inv]
  have pd: "dir_at (stored ?V) p" "p \<noteq> i" using p iv by (auto simp: dir_at_def)
  have free': "dirent ?V p n = None" using free by (simp add: dirent_def)
  have suc: "unat (iv_nlink iv') = Suc (unat (iv_nlink iv))"
    using unatSuc [of "iv_nlink iv"] i(2) by (simp add: iv' add.commute)
  have ver: "iv_version iv' = FORMAT_VERSION" using iv(1) deserialize_version unfolding stored_Some iv' by auto
  have ns': "ns_ok (set_entry p n (Some (i, iv_mode iv')) (dirent ?V)) ((stored ?V)(i \<mapsto> iv')) (ia_next (sv_alloc s)) (sv_pending_deletes s)"
    by (rule ns_ok_link [OF ns free' pd(1) iv i(1) _ suc]) (simp add: iv')
  have V1: "base_writes ?V ?V1" "dirent ?V1 = set_entry p n (Some (i, iv_mode iv')) (dirent ?V)"
    "stored ?V1 = (stored ?V)(i \<mapsto> iv')"
    using ver by (simp_all add: base_writes_def del: fun_upd_apply)
  have r: "room (length ?ds) s" using room by (simp add: numeral_2_eq_2)
  have some: "stored ?V i \<noteq> None" using iv by simp
  have c: "is_dir (iv_mode x) = dir_at (stored ?V) i" if "Some iv' = Some x" for x
    using iv that by (auto simp: iv' dir_at_def)
  note t = inv_parent_txn [OF inv r V1 ns' pd some c _ out]
  have plain: "pending ?V i = []" by (rule server_inv_file [OF inv iv])
  show "server_inv view s'" using t(1) plain c same by (simp add: server_inv_def same_rest_def)
  show "dirent (view (kv_db s')) = set_entry p n (Some (i, iv_mode iv')) (dirent ?V)" using t(2) plain c by simp
  show "effective (view (kv_db s')) = touch p ?ds ((effective ?V)(i \<mapsto> iv'))" using t(3) plain c by simp
qed

end

subsection \<open>Rename\<close>

definition rename_entries :: "inode \<Rightarrow> str \<Rightarrow> inode \<Rightarrow> str \<Rightarrow> inode \<Rightarrow> u32 \<Rightarrow> entries \<Rightarrow> entries" where
  "rename_entries p n p' n' src mode D =
     set_entry p' n' (Some (src, mode)) (set_entry p n None (set_entry p' n' None D))"

text \<open>The inodes after the target of a rename lost its entry.\<close>

definition dst_inodes :: "bool \<Rightarrow> (inode \<times> u32) option \<Rightarrow> u64 \<Rightarrow> inodes \<Rightarrow> inodes" where
  "dst_inodes sdir dst ts S =
     (case dst of
        None \<Rightarrow> S
      | Some (d, _) \<Rightarrow>
          (if sdir then S
           else (case S d of
              None \<Rightarrow> S
            | Some dv \<Rightarrow> S(d := (if iv_nlink dv > 1 then Some (dv\<lparr>iv_nlink := iv_nlink dv - 1, iv_ctime := ts\<rparr>) else None)))))"

lemma stored_version: "stored V i = Some iv \<Longrightarrow> iv_version iv = FORMAT_VERSION"
  unfolding stored_def by (auto split: option.splits elim!: ok_value.elims dest: deserialize_version)

lemma rename_base:
  assumes dst: "dst_effect V sdir dst ts ws doomed dwas" and none: "dst = None \<Longrightarrow> dirent V p' n' = None"
    and iv: "iv_version iv = FORMAT_VERSION"
  shows "base_writes V (apply_writes (ws @ rename_writes p n p' n' src iv dst doomed ts) V)"
    and "dirent (apply_writes (ws @ rename_writes p n p' n' src iv dst doomed ts) V) =
      rename_entries p n p' n' src (iv_mode iv) (dirent V)"
    and "stored (apply_writes (ws @ rename_writes p n p' n' src iv dst doomed ts) V) =
      (dst_inodes sdir dst ts (stored V))(src \<mapsto> iv\<lparr>iv_ctime := ts\<rparr>)"
proof -
  let ?W = "apply_writes (ws @ rename_writes p n p' n' src iv dst doomed ts) V"
  have "base_writes V ?W \<and> dirent ?W = rename_entries p n p' n' src (iv_mode iv) (dirent V) \<and>
      stored ?W = (dst_inodes sdir dst ts (stored V))(src \<mapsto> iv\<lparr>iv_ctime := ts\<rparr>)"
  proof (cases dst)
    case None
    with dst none iv show ?thesis
      by (auto simp: dst_effect_def rename_writes_def base_writes_def rename_entries_def dst_inodes_def fun_eq_iff)
  next
    case (Some x)
    then obtain d dm where d: "dst = Some (d, dm)" by (cases x) auto
    have ver: "iv_version x = FORMAT_VERSION" if "stored V d = Some x" for x using that by (rule stored_version)
    from dst iv d show ?thesis
      by (auto simp: dst_effect_def rename_writes_def base_writes_def rename_entries_def dst_inodes_def ver
          split: if_splits)
  qed
  then show "base_writes V ?W" "dirent ?W = rename_entries p n p' n' src (iv_mode iv) (dirent V)"
    "stored ?W = (dst_inodes sdir dst ts (stored V))(src \<mapsto> iv\<lparr>iv_ctime := ts\<rparr>)" by blast+
qed

lemma dst_inodes_effect:
  assumes ns: "ns_ok D S next pd" and dst: "D p' n' = dst"
    and kind: "\<forall>d dm. dst = Some (d, dm) \<longrightarrow> is_dir dm = sdir"
  shows "dst_inodes sdir dst ts S i = S i \<or> loses_link S (dst_inodes sdir dst ts S) i \<and> (\<exists>k. D p' n' = Some (i, k))"
proof (cases "dst = None \<or> sdir")
  case True
  then show ?thesis by (auto simp: dst_inodes_def split: option.split)
next
  case False
  then obtain d dm where d: "dst = Some (d, dm)" by auto
  then obtain dv where dv: "S d = Some dv" "\<not> is_dir (iv_mode dv)"
    using ns_okD [OF ns, of p' n' d dm] dst kind False by metis
  have "iv_nlink dv > 1 \<Longrightarrow> unat (iv_nlink dv - 1) = unat (iv_nlink dv) - 1"
    by (metis unat_minus_one word_gt_0_no word_not_simps(1) less_trans zero_less_one not_less_iff_gr_or_eq)
  moreover have "\<not> iv_nlink dv > 1 \<Longrightarrow> unat (iv_nlink dv) \<le> 1"
    by (simp add: word_less_nat_alt)
  ultimately show ?thesis
    using d dv False dst by (cases "i = d") (auto simp: dst_inodes_def loses_link_def max_refs_def)
qed

lemma dir_at_dst_inodes:
  assumes ns: "ns_ok D S next pd" and dst: "D p' n' = dst"
    and kind: "\<forall>d dm. dst = Some (d, dm) \<longrightarrow> is_dir dm = sdir"
  shows "dir_at (dst_inodes sdir dst ts S) i = dir_at S i"
  using dst_inodes_effect [OF assms, where ts = ts and i = i] by (auto dest: loses_linkD(2)) (simp_all add: dir_at_def)

context rocksdb
begin

lemma renamedE:
  assumes "renamed view L p n p' n' res s s'"
  obtains src m iv dst ws c where "dirent (view (kv_db s)) p n = Some (src, m)"
    "stored (view (kv_db s)) src = Some iv" "rn_src_is_dir res = is_dir (iv_mode iv)"
    "dirent (view (kv_db s)) p' n' = dst"
    "dst_effect (view (kv_db s)) (rn_src_is_dir res) dst (rn_ts res) ws (rn_delete_inode res) (rn_dst_was_dir res)"
    "cleared c (apply_writes (group_writes (seq_of s)
          (rename_groups p p' (rn_src_is_dir res) (rn_dst_was_dir res) (rn_ts res)))
        (apply_writes (ws @ rename_writes p n p' n' src iv dst (rn_delete_inode res) (rn_ts res)) (view (kv_db s))))
      (group_seqs (seq_of s) (rename_groups p p' (rn_src_is_dir res) (rn_dst_was_dir res) (rn_ts res)))
      (view (kv_db s')) (seq_of s')"
    "dst = None \<Longrightarrow> view (kv_db s') = apply_writes (group_writes (seq_of s)
          (rename_groups p p' (rn_src_is_dir res) (rn_dst_was_dir res) (rn_ts res)))
        (apply_writes (ws @ rename_writes p n p' n' src iv dst (rn_delete_inode res) (rn_ts res)) (view (kv_db s)))"
    "\<And>d dm. dst = Some (d, dm) \<Longrightarrow> c = d"
    "cw_cache s' = cache_put L src (iv\<lparr>iv_ctime := rn_ts res\<rparr>)
       (case dst of None \<Rightarrow> cw_cache s | Some (d, _) \<Rightarrow> cache_invalidate L d (cw_cache s))"
    "same_rest s s'" "sv_alloc s' = sv_alloc s"
proof -
  from assms obtain src m iv dst ws where r: "dirent (view (kv_db s)) p n = Some (src, m)"
    "stored (view (kv_db s)) src = Some iv" "rn_src_is_dir res = is_dir (iv_mode iv)"
    "dirent (view (kv_db s)) p' n' = dst"
    "dst_effect (view (kv_db s)) (rn_src_is_dir res) dst (rn_ts res) ws (rn_delete_inode res) (rn_dst_was_dir res)"
    "same_rest s s'" "sv_alloc s' = sv_alloc s"
    and out: "let gs = rename_groups p p' (rn_src_is_dir res) (rn_dst_was_dir res) (rn_ts res);
             V' = apply_writes (ws @ rename_writes p n p' n' src iv dst (rn_delete_inode res) (rn_ts res)
                    @ group_writes (seq_of s) gs) (view (kv_db s));
             sq' = group_seqs (seq_of s) gs
         in (case dst of
               None \<Rightarrow> view (kv_db s') = V' \<and> seq_of s' = sq' \<and>
                 cw_cache s' = cache_put L src (iv\<lparr>iv_ctime := rn_ts res\<rparr>) (cw_cache s)
             | Some (d, _) \<Rightarrow> cleared d V' sq' (view (kv_db s')) (seq_of s') \<and>
                 cw_cache s' = cache_put L src (iv\<lparr>iv_ctime := rn_ts res\<rparr>) (cache_invalidate L d (cw_cache s)))"
    unfolding renamed_def by blast
  show thesis
  proof (cases dst)
    case None
    with out show ?thesis by (intro that [OF r(1-5) _ _ _ _ r(6,7), of src]) (simp_all add: Let_def)
  next
    case (Some x)
    then obtain d dm where d: "dst = Some (d, dm)" by (cases x) auto
    with out show ?thesis by (intro that [OF r(1-5) _ _ _ _ r(6,7), of d]) (simp_all add: Let_def)
  qed
qed

lemma rename_groups_dirs: "deltas_for i (rename_groups p p' sdir dwas ts) \<noteq> [] \<Longrightarrow> i = p \<or> i = p'"
  by (auto simp: rename_groups_def split: if_splits)

lemma rename_groups_size: "group_size (rename_groups p p' sdir dwas ts) \<le> 7"
  by (simp add: rename_groups_def)

lemma inv_renamed:
  assumes u: "renamed view L p n p' n' res s s'" and inv: "server_inv view s" and room: "room 7 s"
    and p': "dir_at (stored (view (kv_db s))) p'"
  obtains src m iv where "dirent (view (kv_db s)) p n = Some (src, m)" "stored (view (kv_db s)) src = Some iv"
    "server_inv view s'"
    "dirent (view (kv_db s')) = rename_entries p n p' n' src (iv_mode iv) (dirent (view (kv_db s)))"
    "stored (view (kv_db s')) = (dst_inodes (is_dir (iv_mode iv)) (dirent (view (kv_db s)) p' n') (rn_ts res)
       (stored (view (kv_db s))))(src \<mapsto> iv\<lparr>iv_ctime := rn_ts res\<rparr>)"
    "\<And>j. \<not> (\<exists>dm. dirent (view (kv_db s)) p' n' = Some (j, dm)) \<or> pending (view (kv_db s)) j = [] \<and>
         deltas_for j (rename_groups p p' (is_dir (iv_mode iv)) (rn_dst_was_dir res) (rn_ts res)) = [] \<Longrightarrow>
       effective (view (kv_db s')) j =
       map_option (\<lambda>b. fold_deltas b (decode_deltas (pending (view (kv_db s)) j) @
         deltas_for j (rename_groups p p' (is_dir (iv_mode iv)) (rn_dst_was_dir res) (rn_ts res))))
       (stored (view (kv_db s')) j)"
  using u
proof (rule renamedE)
  let ?V = "view (kv_db s)"
  fix src m iv dst ws c
  let ?gs = "rename_groups p p' (rn_src_is_dir res) (rn_dst_was_dir res) (rn_ts res)"
  let ?V1 = "apply_writes (ws @ rename_writes p n p' n' src iv dst (rn_delete_inode res) (rn_ts res)) ?V"
  let ?S = "dst_inodes (rn_src_is_dir res) dst (rn_ts res) (stored ?V)"
  assume e: "dirent ?V p n = Some (src, m)" and iv: "stored ?V src = Some iv" and sdir: "rn_src_is_dir res = is_dir (iv_mode iv)"
    and dst: "dirent ?V p' n' = dst"
    and eff: "dst_effect ?V (rn_src_is_dir res) dst (rn_ts res) ws (rn_delete_inode res) (rn_dst_was_dir res)"
    and out: "cleared c (apply_writes (group_writes (seq_of s) ?gs) ?V1) (group_seqs (seq_of s) ?gs) (view (kv_db s')) (seq_of s')"
      "dst = None \<Longrightarrow> view (kv_db s') = apply_writes (group_writes (seq_of s) ?gs) ?V1"
      "\<And>d dm. dst = Some (d, dm) \<Longrightarrow> c = d"
    and same: "same_rest s s'" "sv_alloc s' = sv_alloc s"
  note ns = server_inv_ns [OF inv]
  have kind: "\<forall>d dm. dst = Some (d, dm) \<longrightarrow> is_dir dm = rn_src_is_dir res"
    using eff by (cases dst) (auto simp: dst_effect_def)
  have none: "dst = None \<Longrightarrow> dirent ?V p' n' = None" using dst by simp
  have p: "dir_at (stored ?V) p" using ns_okD [OF ns e] by metis
  have dir: "dir_at (?S(src \<mapsto> iv\<lparr>iv_ctime := rn_ts res\<rparr>)) i = dir_at (stored ?V) i" for i
    using dir_at_dst_inodes [OF ns dst kind] iv by (auto simp: dir_at_def)
  have ns': "ns_ok (rename_entries p n p' n' src (iv_mode iv) (dirent ?V)) (?S(src \<mapsto> iv\<lparr>iv_ctime := rn_ts res\<rparr>))
      (ia_next (sv_alloc s)) (sv_pending_deletes s)"
    unfolding rename_entries_def
    by (rule ns_ok_rename [OF ns e iv p', where iv' = "iv\<lparr>iv_ctime := rn_ts res\<rparr>"])
      (use dst_inodes_effect [OF ns dst kind, where ts = "rn_ts res"] in \<open>auto simp: loses_link_def split: option.splits\<close>)
  have r: "room (group_size ?gs) s" by (rule room_mono [OF room rename_groups_size])
  have targets: "deltas_for i ?gs \<noteq> [] \<Longrightarrow> dir_at (?S(src \<mapsto> iv\<lparr>iv_ctime := rn_ts res\<rparr>)) i" for i
    unfolding dir using rename_groups_dirs p p' by blast
  have kept: "(?S(src \<mapsto> iv\<lparr>iv_ctime := rn_ts res\<rparr>)) i = None \<or>
      dir_at (?S(src \<mapsto> iv\<lparr>iv_ctime := rn_ts res\<rparr>)) i = dir_at (stored ?V) i \<and> stored ?V i \<noteq> None" for i
    using dir dst_inodes_effect [OF ns dst kind, where ts = "rn_ts res" and i = i] iv
    by (auto dest: loses_linkD(1))
  note t = inv_txn [OF inv r rename_base [OF eff none stored_version [OF iv]] ns' targets kept refl out(1)]
  show thesis
  proof (rule that [OF e iv])
    show "server_inv view s'" using t(1) same by (simp add: server_inv_def same_rest_def)
    show "effective (view (kv_db s')) j = map_option (\<lambda>b. fold_deltas b (decode_deltas (pending ?V j) @
         deltas_for j (rename_groups p p' (is_dir (iv_mode iv)) (rn_dst_was_dir res) (rn_ts res))))
       (stored (view (kv_db s')) j)" if j: "\<not> (\<exists>dm. dirent ?V p' n' = Some (j, dm)) \<or> pending ?V j = [] \<and>
         deltas_for j (rename_groups p p' (is_dir (iv_mode iv)) (rn_dst_was_dir res) (rn_ts res)) = []" for j
    proof -
      have st: "stored (view (kv_db s')) = ?S(src \<mapsto> iv\<lparr>iv_ctime := rn_ts res\<rparr>)" by (intro t(3))
      define W where "W = apply_writes (group_writes (seq_of s) ?gs) ?V1"
      have fin: "finite (dom (W CF_DELTA_ENTRIES))"
        using rename_base(1) [OF eff none stored_version [OF iv], of p n src] finite_view [of "kv_db s" CF_DELTA_ENTRIES]
        by (simp add: W_def base_writes_def del: apply_writes_append)
      note out = out [folded W_def]
      have "effective (view (kv_db s')) j = map_option (\<lambda>b. fold_deltas b (decode_deltas (pending ?V j) @
          deltas_for j ?gs)) ((?S(src \<mapsto> iv\<lparr>iv_ctime := rn_ts res\<rparr>)) j)"
      proof (cases "view (kv_db s') = W \<or> j \<noteq> c")
        case True
        then show ?thesis unfolding W_def by (intro t(4)) blast+
      next
        case False
        then have "view (kv_db s') = drop_deltas c W" "j = c" using out(1) unfolding cleared_def by blast+
        moreover obtain d dm where "dst = Some (d, dm)" using False out(2) by (cases dst) auto
        moreover from this have "d = j" using out(3) \<open>j = c\<close> by blast
        ultimately have "pending (view (kv_db s')) j = []" "pending ?V j = []" "deltas_for j ?gs = []"
          using j dst sdir pending_drop_deltas [where V = W, OF fin, of c j] by auto
        then show ?thesis by (simp add: effective_def st)
      qed
      with st sdir show ?thesis by simp
    qed
  qed (use t(2,3) dst sdir in \<open>simp_all del: fun_upd_apply\<close>)
qed

end

subsection \<open>Release\<close>

lemma ns_ok_drop:
  assumes ok: "ns_ok D S next pd" and i: "refs D i = {}" "\<not> dir_at S i"
  shows "ns_ok D (S(i := None)) next pd"
proof (rule ns_ok_change [OF ok])
  have ne: "c \<noteq> i \<and> p \<noteq> i" if "D p n = Some (c, m)" for p n c m
    using that i ns_okD [OF ok that] by (metis empty_iff)
  show "dir_at (S(i := None)) p \<and> c \<noteq> ROOT_INODE \<and> (\<exists>iv. (S(i := None)) c = Some iv \<and> is_dir (iv_mode iv) = is_dir m)"
    if e: "D p n = Some (c, m)" for p n c m
    using ne [OF e] by - (rule ns_okD [OF ok e], auto)
  show "count_ok D (S(i := None)) c" if r: "refs D c \<noteq> {}" for c
  proof -
    from r obtain p n m where e: "D p n = Some (c, m)" by (auto simp: refs_def)
    then show ?thesis using ne [OF e] by - (rule ns_okD [OF ok e], auto simp: count_ok_def)
  qed
qed (use ns_ok_simps [OF ok] i in \<open>auto split: if_splits\<close>)

context rocksdb
begin

lemma inv_released:
  assumes inv: "server_inv view s" and room: "room 0 s"
    and i: "refs (dirent (view (kv_db s))) i = {}" "\<not> dir_at (stored (view (kv_db s))) i"
    and out: "cleared i (apply_writes [(CF_INODES, encode_inode_key i, None), (CF_INODES, encode_data_location_key i, None)]
       (view (kv_db s))) (seq_of s) V' sq'"
  shows "contents_ok V' sq' (ia_next (sv_alloc s)) (sv_pending_deletes s)"
    and "dirent V' = dirent (view (kv_db s))" and "effective V' = (effective (view (kv_db s)))(i := None)"
proof -
  let ?V = "view (kv_db s)"
  let ?V1 = "apply_writes [(CF_INODES, encode_inode_key i, None), (CF_INODES, encode_data_location_key i, None)] ?V"
  have V1: "base_writes ?V ?V1" "dirent ?V1 = dirent ?V" "stored ?V1 = (stored ?V)(i := None)"
    by (simp_all add: base_writes_def del: fun_upd_apply)
  have ns: "ns_ok (dirent ?V) ((stored ?V)(i := None)) (ia_next (sv_alloc s)) (sv_pending_deletes s)"
    by (rule ns_ok_drop [OF server_inv_ns [OF inv] i])
  have r: "room (group_size []) s" using room by simp
  have kind: "((stored ?V)(i := None)) j = None \<or>
      dir_at ((stored ?V)(i := None)) j = dir_at (stored ?V) j \<and> stored ?V j \<noteq> None" for j
    by (auto simp: dir_at_def)
  have out': "cleared i ?V1 (group_seqs (seq_of s) []) V' sq'" using out by simp
  note t = inv_txn [OF inv r V1 ns _ kind _ out', simplified]
  show "contents_ok V' sq' (ia_next (sv_alloc s)) (sv_pending_deletes s)" "dirent V' = dirent ?V" using t(1,2) by simp_all
  show "effective V' = (effective ?V)(i := None)" using t(4) by (auto simp: fun_eq_iff effective_def [of ?V])
qed

end

end
