(* ===== verification/Server_Correct.thy ===== *)
theory Server_Correct
  imports Server_Inv
begin

unbundle bit_operations_syntax

text \<open>
  The operations of the metadata server implement an abstract file system: names, attributes and
  symlink targets. Each operation has an abstract specification; when the operation succeeds, the
  abstraction of the contents changes as specified; when it fails, it does not change. The invariant
  of the namespace is kept in every case, and the cache stays coherent with the stored contents.
\<close>

section \<open>Coherence of the cache\<close>

definition coherent ::
  "('c \<Rightarrow> inode \<Rightarrow> InodeValue option) \<Rightarrow> ('db \<Rightarrow> view) \<Rightarrow> ('db, 'txn, 'c, 'z) server_scheme \<Rightarrow> bool" where
  "coherent entries view s \<longleftrightarrow> length (cw_cache s) = 16 \<and>
     cached entries (cw_cache s) \<subseteq>\<^sub>m effective (view (kv_db s))"

lemma coherentD: "coherent entries view s \<Longrightarrow> cached entries (cw_cache s) i = Some v \<Longrightarrow> effective (view (kv_db s)) i = Some v"
  unfolding coherent_def map_le_def by (metis domI)

context lru_cache
begin

lemma put_le:
  assumes "length c = 16" and "lookup c \<subseteq>\<^sub>m F"
  shows "lookup (cache_put L i v c) \<subseteq>\<^sub>m F(i \<mapsto> v)"
  unfolding map_le_def
proof
  fix j
  assume "j \<in> dom (lookup (cache_put L i v c))"
  then show "lookup (cache_put L i v c) j = (F(i \<mapsto> v)) j"
    using lookup_put(1) [OF assms(1), of i v] lookup_put(2) [OF assms(1), of j i v] assms(2)
    by (auto simp: map_le_def dom_def)
qed

lemma apply_deltas_le:
  assumes "length c = 16" and "lookup c \<subseteq>\<^sub>m F"
  shows "lookup (cache_apply_deltas L p ds c) \<subseteq>\<^sub>m touch p ds F"
  using assms(2) unfolding lookup_apply_deltas(1) [OF assms(1)] touch_def
  by (force simp: map_le_def dom_def split: if_splits)

lemma invalidate_le:
  assumes "length c = 16" and "lookup c \<subseteq>\<^sub>m F"
  shows "lookup (cache_invalidate L i c) \<subseteq>\<^sub>m F(i := x)"
  using assms(2) unfolding lookup_invalidate(1) [OF assms(1)]
  by (auto simp: map_le_def dom_def)

lemmas cache_lengths = lookup_put(3) lookup_apply_deltas(2) lookup_invalidate(2)

end

section \<open>Operations and specifications\<close>

text \<open>
  \<open>implements\<close>: the invariant holds after the operation; a success is allowed by the specification,
  a failure has an allowed error and changes nothing a client can see.
\<close>

definition implements ::
  "('db \<Rightarrow> view) \<Rightarrow> (afs \<Rightarrow> 'a \<Rightarrow> afs \<Rightarrow> bool) \<Rightarrow> (view \<Rightarrow> FsError \<Rightarrow> bool)
   \<Rightarrow> ('db, 'txn, 'c, 'z) server_scheme \<Rightarrow> 'a FsResult \<Rightarrow> ('db, 'txn, 'c, 'z) server_scheme \<Rightarrow> bool" where
  "implements view okp errp s r s' \<longleftrightarrow> server_inv view s' \<and>
     (case r of
        Ok a \<Rightarrow> okp (abs_fs (view (kv_db s))) a (abs_fs (view (kv_db s')))
      | Err e \<Rightarrow> abs_fs (view (kv_db s')) = abs_fs (view (kv_db s)) \<and> errp (view (kv_db s)) e
      | Panic q \<Rightarrow> abs_fs (view (kv_db s')) = abs_fs (view (kv_db s)))"

text \<open>
  Operations that save the inode counter after their transaction can report an I/O error although
  the transaction is done.
\<close>

definition implements_late ::
  "('db \<Rightarrow> view) \<Rightarrow> (afs \<Rightarrow> 'a \<Rightarrow> afs \<Rightarrow> bool) \<Rightarrow> (view \<Rightarrow> FsError \<Rightarrow> bool)
   \<Rightarrow> ('db, 'txn, 'c, 'z) server_scheme \<Rightarrow> 'a FsResult \<Rightarrow> ('db, 'txn, 'c, 'z) server_scheme \<Rightarrow> bool" where
  "implements_late view okp errp s r s' \<longleftrightarrow> implements view okp errp s r s' \<or>
     server_inv view s' \<and> (\<exists>m a. r = Err (Io m) \<and> okp (abs_fs (view (kv_db s))) a (abs_fs (view (kv_db s'))))"

definition keeps_coherent ::
  "('c \<Rightarrow> inode \<Rightarrow> InodeValue option) \<Rightarrow> ('db \<Rightarrow> view)
   \<Rightarrow> ('db, 'txn, 'c, 'z) server_scheme \<Rightarrow> 'a FsResult \<Rightarrow> ('db, 'txn, 'c, 'z) server_scheme \<Rightarrow> bool" where
  "keeps_coherent entries view s r s' \<longleftrightarrow>
     (coherent entries view s \<and> (is_ok r \<or> abs_fs (view (kv_db s')) = abs_fs (view (kv_db s))) \<longrightarrow>
      coherent entries view s')"

text \<open>A new object under a new name.\<close>

definition spec_enter ::
  "inode \<Rightarrow> str \<Rightarrow> (inode \<Rightarrow> u64 \<Rightarrow> InodeValue) \<Rightarrow> (u64 \<Rightarrow> DeltaOp list) \<Rightarrow> bytes option
   \<Rightarrow> afs \<Rightarrow> FileAttr \<Rightarrow> afs \<Rightarrow> bool" where
  "spec_enter p n mk ds target A attr A' \<longleftrightarrow>
     (\<exists>i ts. af_names A p n = None \<and> af_attrs A i = None \<and> attr = to_attr (mk i ts) \<and>
        A' = \<lparr>af_names = set_entry p n (Some (i, iv_mode (mk i ts))) (af_names A),
              af_attrs = touch p (ds ts) ((af_attrs A)(i \<mapsto> mk i ts)),
              af_target = (case target of None \<Rightarrow> af_target A | Some t \<Rightarrow> (af_target A)(i \<mapsto> t))\<rparr>)"

definition spec_create :: "inode \<Rightarrow> str \<Rightarrow> u32 \<Rightarrow> u32 \<Rightarrow> u32 \<Rightarrow> afs \<Rightarrow> FileAttr \<Rightarrow> afs \<Rightarrow> bool" where
  "spec_create p n mode uid gid =
     spec_enter p n (\<lambda>i ts. new_inode_value i 0 (S_IFREG OR (mode AND 0xFFF)) 1 uid gid ts)
       (\<lambda>ts. [SetMtime ts, SetCtime ts]) None"

definition spec_mkdir :: "inode \<Rightarrow> str \<Rightarrow> u32 \<Rightarrow> u32 \<Rightarrow> u32 \<Rightarrow> afs \<Rightarrow> FileAttr \<Rightarrow> afs \<Rightarrow> bool" where
  "spec_mkdir p n mode uid gid =
     spec_enter p n (\<lambda>i ts. new_inode_value i 0 (S_IFDIR OR (mode AND 0xFFF)) 2 uid gid ts)
       (\<lambda>ts. [IncrementNlink 1, SetMtime ts, SetCtime ts]) None"

definition spec_symlink :: "inode \<Rightarrow> str \<Rightarrow> str \<Rightarrow> u32 \<Rightarrow> u32 \<Rightarrow> afs \<Rightarrow> FileAttr \<Rightarrow> afs \<Rightarrow> bool" where
  "spec_symlink p n target uid gid =
     spec_enter p n (\<lambda>i ts. new_inode_value i (of_nat (length target)) (S_IFLNK OR 0x1FF) 1 uid gid ts)
       (\<lambda>ts. [SetMtime ts, SetCtime ts]) (Some target)"

definition enter_error :: "inode \<Rightarrow> str \<Rightarrow> view \<Rightarrow> FsError \<Rightarrow> bool" where
  "enter_error p n V e \<longleftrightarrow>
     e = NameTooLong \<and> NAME_MAX < length n \<or>
     e = AlreadyExists \<and> V CF_DIR_ENTRIES (encode_dir_entry_key p n) \<noteq> None \<or> txn_error e"

lemma implements_quiet:
  assumes "quiet view k s s'" and "server_inv view s" and "room k s" and "\<not> is_ok r"
    and "\<And>e. r = Err e \<Longrightarrow> errp (view (kv_db s)) e"
  shows "implements view okp errp s r s'" and "keeps_coherent entries view s r s'"
proof -
  have "view (kv_db s') = view (kv_db s)" "cw_cache s' = cw_cache s" using assms(1) by (simp_all add: quiet_def)
  then show "implements view okp errp s r s'" "keeps_coherent entries view s r s'"
    using server_inv_quiet [OF assms(2,1,3)] assms(4,5)
    by (auto simp: implements_def keeps_coherent_def coherent_def split: outcome.split)
qed

lemma wp_retry_bind:
  assumes txn: "\<And>s. wp f (T s) s" and bad: "\<And>s r s'. T s r s' \<Longrightarrow> \<not> is_ok r \<Longrightarrow> quiet view n s s'"
    and ok: "\<And>a s1 s2. quiet view (2 * n) s s1 \<Longrightarrow> T s1 (Ok a) s2 \<Longrightarrow> wp (k a) Q s2"
    and err: "\<And>e s1 s2. quiet view (2 * n) s s1 \<Longrightarrow> T s1 (Err e) s2 \<Longrightarrow> quiet view (3 * n) s s2 \<Longrightarrow> Q (Err e) s2"
    and panic: "\<And>q s2. quiet view (3 * n) s s2 \<Longrightarrow> Q (Panic q) s2"
  shows "wp (bind (execute_with_retry f) k) Q s"
proof -
  have "wp f (\<lambda>r s'. T s r s' \<and> (\<not> is_ok r \<longrightarrow> quiet view n s s')) s" for s
    by (rule wp_mono [OF txn]) (use bad in blast)
  note retry = wp_retry_quiet [where T = T, OF this]
  show ?thesis
    unfolding wp_bind
  proof (rule wp_mono [OF retry], elim exE conjE)
    fix r s2 s1
    assume q: "quiet view (2 * n) s s1" and t: "T s1 r s2" and bad: "\<not> is_ok r \<longrightarrow> quiet view n s1 s2"
    have "quiet view (3 * n) s s2" if "\<not> is_ok r"
      using quiet_trans [OF q, of n s2] bad that by (simp add: numeral_3_eq_3 numeral_2_eq_2 add.assoc)
    then show "andthen k Q r s2" using q t by (cases r) (auto intro: ok err panic)
  qed
qed

section \<open>Creating\<close>

text \<open>The inode counter may have been saved.\<close>

definition counter_saved :: "view \<Rightarrow> view \<Rightarrow> bool" where
  "counter_saved V V' \<longleftrightarrow> V' = V \<or> (\<exists>x. V' = upd CF_INODES NEXT_INODE_KEY x V)"

text \<open>The record written beside a new inode: its data location, a symlink target, or nothing.\<close>

definition side_record :: "inode \<Rightarrow> bytes option \<Rightarrow> (cf \<times> bytes \<times> bytes option) list \<Rightarrow> bool" where
  "side_record i target extra \<longleftrightarrow>
     (case target of
        Some t \<Rightarrow> extra = [(CF_INODES, encode_symlink_key i, Some t)]
      | None \<Rightarrow> extra = [] \<or> (\<exists>x. extra = [(CF_INODES, encode_data_location_key i, x)]))"

context rocksdb
begin

lemma wp_sv_maybe_persist:
  assumes "\<And>d. counter_saved (view (kv_db s)) (view d) \<Longrightarrow>
      Q (Ok ()) (s\<lparr>kv_db := d\<rparr>)"
    and "\<And>e d. view d = view (kv_db s) \<Longrightarrow> Q (Err (Io e)) (s\<lparr>kv_db := d\<rparr>)"
  shows "wp (sv_maybe_persist R) Q s"
proof -
  have "Q (Ok ()) (s\<lparr>kv_db := kv_db s\<rparr>)" by (rule assms(1)) (simp add: counter_saved_def)
  then show ?thesis
    unfolding sv_maybe_persist_def maybe_persist_def Let_def
    using assms by (auto simp: wp_simps when_op_def counter_saved_def intro!: wp_meta_put)
qed

lemma created_target:
  assumes "created view p n iv extra ds s s'" and "side_record (iv_inode iv) target extra"
  shows "af_target (abs_fs (view (kv_db s'))) = (case target of
      None \<Rightarrow> af_target (abs_fs (view (kv_db s)))
    | Some t \<Rightarrow> (af_target (abs_fs (view (kv_db s))))(iv_inode iv \<mapsto> t))"
  using assms
  by (auto simp: created_def entry_writes_def abs_fs_def side_record_def fun_eq_iff split: option.splits
      simp del: delta_writes.simps)

lemma side_record_writes: "side_record i target extra \<Longrightarrow> side_writes extra"
  by (auto simp: side_record_def split: option.splits)

text \<open>The state after the transaction of \<^verbatim>\<open>create\<close>, \<^verbatim>\<open>mkdir\<close> or \<^verbatim>\<open>symlink\<close> and the steps that follow it.\<close>

lemma entered:
  assumes q: "quiet view 8 s s1" and c: "created view p n iv extra (ds ts) s1 s2" and inv: "server_inv view s"
    and room: "room 12 s" and p: "dir_at (stored (view (kv_db s))) p" and len: "length (ds ts) \<le> 3"
    and iv: "iv = mk (iv_inode iv) ts" "1 \<le> max_refs iv" and side: "side_record (iv_inode iv) target extra"
  shows "server_inv view s2"
    and "spec_enter p n mk ds target (abs_fs (view (kv_db s))) (to_attr iv) (abs_fs (view (kv_db s2)))"
    and "effective (view (kv_db s2)) = touch p (ds ts) ((effective (view (kv_db s)))(iv_inode iv \<mapsto> iv))"
    and "cw_cache s2 = cw_cache s"
proof -
  have same: "view (kv_db s1) = view (kv_db s)" "cw_cache s1 = cw_cache s" using q by (simp_all add: quiet_def)
  have r8: "room 8 s" by (rule room_mono [OF room]) simp
  have inv1: "server_inv view s1" by (rule server_inv_quiet [OF inv q r8])
  have r1: "room (length (ds ts) + 1) s1"
    by (rule room_quiet [OF q]) (rule room_mono [OF room], use len in simp)
  have p1: "dir_at (stored (view (kv_db s1))) p" using p same by simp
  note i = inv_created [OF c inv1 r1 p1 iv(2) side_record_writes [OF side], unfolded same]
  show "server_inv view s2" by (fact i(1))
  show eff: "effective (view (kv_db s2)) = touch p (ds ts) ((effective (view (kv_db s)))(iv_inode iv \<mapsto> iv))"
    by (fact i(2))
  show "cw_cache s2 = cw_cache s" using c same by (simp add: created_def)
  have new: "effective (view (kv_db s)) (iv_inode iv) = None" "dirent (view (kv_db s)) p n = None"
    using c same ns_ok_simps(3) [OF server_inv_ns [OF inv1], of "iv_inode iv"]
    by (auto simp: created_def effective_def dirent_def simp del: not_None_eq)
  show "spec_enter p n mk ds target (abs_fs (view (kv_db s))) (to_attr iv) (abs_fs (view (kv_db s2)))"
    unfolding spec_enter_def
  proof (rule exI [of _ "iv_inode iv"], rule exI [of _ ts], intro conjI)
    show "abs_fs (view (kv_db s2)) = \<lparr>af_names = set_entry p n (Some (iv_inode iv, iv_mode (mk (iv_inode iv) ts)))
          (af_names (abs_fs (view (kv_db s)))),
        af_attrs = touch p (ds ts) ((af_attrs (abs_fs (view (kv_db s))))(iv_inode iv \<mapsto> mk (iv_inode iv) ts)),
        af_target = (case target of None \<Rightarrow> af_target (abs_fs (view (kv_db s)))
          | Some t \<Rightarrow> (af_target (abs_fs (view (kv_db s))))(iv_inode iv \<mapsto> t))\<rparr>"
      using i(2,3) created_target [OF c side, unfolded same] iv(1)
      by (cases target) (simp_all add: abs_fs_def del: fun_upd_apply)
  qed (use new iv(1) in \<open>simp_all add: abs_fs_def\<close>)
qed

text \<open>After the transaction: the counter is saved or not, the cache learns the new values.\<close>

lemma enter_done:
  assumes q: "quiet view 8 s s1" and c: "created view p n iv extra (ds ts) s1 s2" and inv: "server_inv view s"
    and room: "room 12 s" and p: "dir_at (stored (view (kv_db s))) p" and len: "length (ds ts) \<le> 3"
    and iv: "iv = mk (iv_inode iv) ts" "1 \<le> max_refs iv" and side: "side_record (iv_inode iv) target extra"
    and L: "lru_cache L entries cap"
    and d: "counter_saved (view (kv_db s2)) (view (kv_db s'))"
    and s': "kv_seqs s' = kv_seqs s2" "sv_alloc s' = sv_alloc s2" "sv_pending_deletes s' = sv_pending_deletes s2"
      "cw_cache s' = cache_apply_deltas L p (ds ts) (cache_put L (iv_inode iv) iv (cw_cache s2))"
  shows "implements_late view (spec_enter p n mk ds target) errp s (Ok (to_attr iv)) s' \<and>
    keeps_coherent entries view s (Ok (to_attr iv)) s'"
proof -
  note e = entered [where mk = mk and ds = ds and ts = ts, OF q c inv room p len iv side]
  have v: "abs_fs (view (kv_db s')) = abs_fs (view (kv_db s2))" "effective (view (kv_db s')) = effective (view (kv_db s2))"
    "contents_ok (view (kv_db s')) sq nx pd = contents_ok (view (kv_db s2)) sq nx pd" for sq nx pd
    using d contents_ok_system by (auto simp: counter_saved_def)
  have "server_inv view s'" using e(1) s' v(3) by (simp add: server_inv_def)
  moreover have "coherent entries view s'" if "coherent entries view s"
    using that s'(4) e(3,4) v(2) lru_cache.apply_deltas_le [OF L] lru_cache.put_le [OF L] lru_cache.cache_lengths [OF L]
    by (simp add: coherent_def del: fun_upd_apply)
  ultimately show ?thesis
    using e(2) v(1) by (simp add: implements_late_def implements_def keeps_coherent_def)
qed

lemma enter_late:
  assumes q: "quiet view 8 s s1" and c: "created view p n iv extra (ds ts) s1 s2" and inv: "server_inv view s"
    and room: "room 12 s" and p: "dir_at (stored (view (kv_db s))) p" and len: "length (ds ts) \<le> 3"
    and iv: "iv = mk (iv_inode iv) ts" "1 \<le> max_refs iv" and side: "side_record (iv_inode iv) target extra"
    and d: "view d = view (kv_db s2)"
  shows "implements_late view (spec_enter p n mk ds target) errp s (Err (Io m)) (s2\<lparr>kv_db := d\<rparr>) \<and>
    keeps_coherent entries view s (Err (Io m)) (s2\<lparr>kv_db := d\<rparr>)"
proof -
  note e = entered [where mk = mk and ds = ds and ts = ts, OF q c inv room p len iv side]
  have "server_inv view (s2\<lparr>kv_db := d\<rparr>)" using e(1) d by (simp add: server_inv_def)
  moreover have "af_names (abs_fs (view d)) p n \<noteq> af_names (abs_fs (view (kv_db s))) p n"
    using e(2) d unfolding spec_enter_def by auto
  ultimately show ?thesis using e(2) d by (auto simp: implements_late_def keeps_coherent_def)
qed

lemma enter_failed:
  assumes "quiet view 12 s s'" and "server_inv view s" and "room 12 s" and "\<not> is_ok r"
    and "\<And>e. r = Err e \<Longrightarrow> errp (view (kv_db s)) e"
  shows "implements_late view okp errp s r s' \<and> keeps_coherent entries view s r s'"
  using implements_quiet [where errp = errp, OF assms] by (simp add: implements_late_def)

lemma max_refs_new:
  "1 \<le> max_refs (new_inode_value i sz (S_IFREG OR (m AND 0xFFF)) 1 uid gid ts)"
  "1 \<le> max_refs (new_inode_value i sz (S_IFDIR OR (m AND 0xFFF)) 2 uid gid ts)"
  "1 \<le> max_refs (new_inode_value i sz (S_IFLNK OR 0x1FF) 1 uid gid ts)"
  by (simp_all add: max_refs_def new_inode_value_def)

lemma new_inode_times:
  "iv_mtime (new_inode_value i sz m nl uid gid ts) = ts" "iv_ctime (new_inode_value i sz m nl uid gid ts) = ts"
  by (simp_all add: new_inode_value_def)

text \<open>The common form of \<^verbatim>\<open>create\<close>, \<^verbatim>\<open>mkdir\<close> and \<^verbatim>\<open>symlink\<close>: a closure, and the steps after its commit.\<close>

lemma wp_enter_op:
  assumes L: "lru_cache L entries cap" and inv: "server_inv view s" and room: "room 12 s"
    and p: "dir_at (stored (view (kv_db s))) p"
    and txn: "\<And>s. wp f (\<lambda>r s'.
      (\<forall>iv i. r = Ok (iv, i) \<longrightarrow> (\<exists>ts. i = iv_inode iv \<and> iv = mk i ts \<and> created view p n iv (extra s i) (ds ts) s s')) \<and>
      entry_exists_error (view (kv_db s)) p n r \<and> (\<not> is_ok r \<longrightarrow> quiet view 4 s s')) s"
    and mk: "\<And>i ts. 1 \<le> max_refs (mk i ts)" "\<And>i ts. length (ds ts) \<le> 3" "\<And>i s. side_record i target (extra s i)"
      "\<And>i ts. iv_mtime (mk i ts) = ts \<and> iv_ctime (mk i ts) = ts"
    and tail: "\<And>iv ts Q s2. iv_mtime iv = ts \<Longrightarrow> iv_ctime iv = ts \<Longrightarrow>
      (\<And>s'. counter_saved (view (kv_db s2)) (view (kv_db s')) \<Longrightarrow>
        kv_seqs s' = kv_seqs s2 \<Longrightarrow> sv_alloc s' = sv_alloc s2 \<Longrightarrow> sv_pending_deletes s' = sv_pending_deletes s2 \<Longrightarrow>
        cw_cache s' = cache_apply_deltas L p (ds ts) (cache_put L (iv_inode iv) iv (cw_cache s2)) \<Longrightarrow>
        Q (Ok (to_attr iv)) s') \<Longrightarrow>
      (\<And>m d. view d = view (kv_db s2) \<Longrightarrow> Q (Err (Io m)) (s2\<lparr>kv_db := d\<rparr>)) \<Longrightarrow>
      wp (k (iv, iv_inode iv)) Q s2"
  shows "wp (bind (validate_name n) (\<lambda>_. bind (execute_with_retry f) k)) (\<lambda>r s'.
    implements_late view (spec_enter p n mk ds target) (enter_error p n) s r s' \<and> keeps_coherent entries view s r s') s"
proof (cases "NAME_MAX < length n")
  case True
  then show ?thesis
    by (simp add: wp_bind [of "validate_name n"] wp_validate_name)
      (rule enter_failed [OF quiet_refl inv room], simp_all add: enter_error_def)
next
  case False
  let ?Q = "\<lambda>r s'. implements_late view (spec_enter p n mk ds target) (enter_error p n) s r s' \<and> keeps_coherent entries view s r s'"
  define T where "T = (\<lambda>s r s'. (\<forall>iv i. r = Ok (iv, i) \<longrightarrow> (\<exists>ts. i = iv_inode iv \<and> iv = mk i ts \<and>
      created view p n iv (extra s i) (ds ts) s s')) \<and>
      entry_exists_error (view (kv_db s)) p n r \<and> (\<not> is_ok r \<longrightarrow> quiet view 4 s s'))"
  have "wp (bind (execute_with_retry f) k) ?Q s"
  proof (rule wp_retry_bind [where view = view and T = T and n = 4])
    show "wp f (T s0) s0" for s0 unfolding T_def by (rule txn)
    show "?Q (Panic q) s2" if "quiet view (3 * 4) s s2" for q s2
      by (rule enter_failed [OF _ inv room]) (use that in simp_all)
    fix a s1 s2
    assume q: "quiet view (2 * 4) s s1" and t: "T s1 (Ok a) s2"
    obtain iv i where a: "a = (iv, i)" by (cases a)
    from t a obtain ts where i: "i = iv_inode iv" "iv = mk i ts" and c: "created view p n iv (extra s1 i) (ds ts) s1 s2"
      unfolding T_def by blast
    have q8: "quiet view 8 s s1" using q by simp
    have iv: "iv = mk (iv_inode iv) ts" "1 \<le> max_refs iv" "iv_mtime iv = ts" "iv_ctime iv = ts" using i mk(1,4) by metis+
    have side: "side_record (iv_inode iv) target (extra s1 i)" unfolding i(1) by (rule mk(3))
    note enter = q8 c inv room p mk(2) iv(1,2) side
    show "wp (k a) ?Q s2"
      unfolding a i(1)
      by (rule tail [OF iv(3,4)])
        (rule enter_done [where ts = ts and ds = ds and mk = mk, OF enter L], assumption+,
          rule enter_late [where ts = ts and ds = ds and mk = mk, OF enter], assumption)
  next
    fix e s1 s2
    assume "quiet view (2 * 4) s s1" "quiet view (3 * 4) s s2" "T s1 (Err e) s2"
    then show "?Q (Err e) s2"
      by (intro enter_failed inv room) (auto simp: quiet_def T_def entry_exists_error_def enter_error_def)
  qed (simp add: T_def)
  with False show ?thesis by (simp add: wp_bind [of "validate_name n"] wp_validate_name)
qed

lemma wp_create:
  assumes "lru_cache L entries cap" and "server_inv view s" and "room 12 s" and "dir_at (stored (view (kv_db s))) p"
  shows "wp (create R L p n mode uid gid) (\<lambda>r s'.
    implements_late view (spec_create p n mode uid gid) (enter_error p n) s r s' \<and> keeps_coherent entries view s r s') s"
  unfolding create_def spec_create_def
  by (rule wp_enter_op [OF assms wp_create_txn])
    (auto simp: wp_simps max_refs_new [simplified] new_inode_times side_record_def intro!: wp_sv_maybe_persist)

lemma wp_mkdir:
  assumes "lru_cache L entries cap" and "server_inv view s" and "room 12 s" and "dir_at (stored (view (kv_db s))) p"
  shows "wp (mkdir R L p n mode uid gid) (\<lambda>r s'.
    implements_late view (spec_mkdir p n mode uid gid) (enter_error p n) s r s' \<and> keeps_coherent entries view s r s') s"
  unfolding mkdir_def spec_mkdir_def
  by (rule wp_enter_op [OF assms wp_mkdir_txn])
    (auto simp: wp_simps max_refs_new [simplified] new_inode_times side_record_def intro!: wp_sv_maybe_persist)

lemma wp_symlink:
  assumes "lru_cache L entries cap" and "server_inv view s" and "room 12 s" and "dir_at (stored (view (kv_db s))) p"
  shows "wp (symlink R L p n target uid gid) (\<lambda>r s'.
    implements_late view (spec_symlink p n target uid gid) (enter_error p n) s r s' \<and> keeps_coherent entries view s r s') s"
  unfolding symlink_def spec_symlink_def
  by (rule wp_enter_op [OF assms wp_symlink_txn])
    (auto simp: wp_simps max_refs_new [simplified] new_inode_times side_record_def intro!: wp_sv_maybe_persist)

end

section \<open>Changing attributes\<close>

text \<open>
  An update writes a new base value for the inode. For a file that is the value a client sees; for a
  directory the deltas \<open>ds\<close> that are pending are applied on top of it, while the reply and the cache
  show the base value.
\<close>

definition spec_update ::
  "inode \<Rightarrow> (u64 \<Rightarrow> InodeValue \<Rightarrow> InodeValue \<Rightarrow> 'a \<Rightarrow> bool) \<Rightarrow> afs \<Rightarrow> 'a \<Rightarrow> afs \<Rightarrow> bool" where
  "spec_update i g A a A' \<longleftrightarrow>
     (\<exists>iv iv' ts ds. af_attrs A i = Some (fold_deltas iv ds) \<and> (\<not> is_dir (iv_mode iv) \<longrightarrow> ds = []) \<and> g ts iv iv' a \<and>
        A' = A\<lparr>af_attrs := (af_attrs A)(i \<mapsto> fold_deltas iv' ds)\<rparr>)"

definition spec_setattr :: "inode \<Rightarrow> SetAttrRequest \<Rightarrow> afs \<Rightarrow> SetAttrResponse \<Rightarrow> afs \<Rightarrow> bool" where
  "spec_setattr i req = spec_update i (\<lambda>ts iv iv' a. \<exists>trunc. apply_setattr req ts iv = (iv', trunc) \<and>
     a = \<lparr>sr_attr = to_attr iv', sr_needs_truncate = (if trunc then sa_size req else None)\<rparr>)"

definition spec_report_write :: "inode \<Rightarrow> u64 \<Rightarrow> u64 \<Rightarrow> afs \<Rightarrow> unit \<Rightarrow> afs \<Rightarrow> bool" where
  "spec_report_write i sz mt = spec_update i (\<lambda>ts iv iv' a.
     iv' = iv\<lparr>iv_size := max sz (iv_size iv), iv_mtime := mt, iv_ctime := mt\<rparr>)"

definition update_error :: "inode \<Rightarrow> view \<Rightarrow> FsError \<Rightarrow> bool" where
  "update_error i V e \<longleftrightarrow>
     e = NotFound \<and> V CF_INODES (encode_inode_key i) = None \<or>
     V CF_INODES (encode_inode_key i) \<noteq> None \<and> stored V i = None \<or> txn_error e"

lemma is_dir_masked: "is_dir ((m AND 0xF000) OR (x AND 0xFFF)) = is_dir m"
proof -
  have "((m AND 0xF000) OR (x AND 0xFFF)) AND 0x4000 = m AND 0x4000" for m x :: u32
    by (simp add: bit.conj_disj_distrib2 and.assoc)
  then show ?thesis by (simp add: is_dir_def S_IFDIR_def)
qed

lemma optional_update:
  "(\<And>x. f (g x) = f iv) \<Longrightarrow> f (case v of None \<Rightarrow> iv | Some x \<Rightarrow> g x) = f iv"
  by (cases v) simp_all

lemmas optional_updates =
  optional_update [where f = iv_version] optional_update [where f = iv_nlink]
  optional_update [where f = "\<lambda>iv. is_dir (iv_mode iv)"]

lemma apply_setattr_keeps:
  assumes "apply_setattr req ts iv = (iv', trunc)"
  shows "iv_version iv' = iv_version iv" "is_dir (iv_mode iv') = is_dir (iv_mode iv)" "iv_nlink iv' = iv_nlink iv"
proof -
  obtain iv1 where iv1: "iv_version iv1 = iv_version iv" "is_dir (iv_mode iv1) = is_dir (iv_mode iv)"
    "iv_nlink iv1 = iv_nlink iv" "iv' = (case sa_size req of
      Some new_size \<Rightarrow> (if new_size \<noteq> iv_size iv1 then iv1\<lparr>iv_size := new_size, iv_mtime := ts\<rparr> else iv1)
    | None \<Rightarrow> iv1)\<lparr>iv_ctime := ts\<rparr>"
  proof
    let ?iv = "case sa_mode req of Some mode \<Rightarrow> iv\<lparr>iv_mode := (iv_mode iv AND 0xF000) OR (mode AND 0xFFF)\<rparr> | None \<Rightarrow> iv"
    let ?iv = "case sa_uid req of Some uid \<Rightarrow> ?iv\<lparr>iv_uid := uid\<rparr> | None \<Rightarrow> ?iv"
    let ?iv = "case sa_gid req of Some gid \<Rightarrow> ?iv\<lparr>iv_gid := gid\<rparr> | None \<Rightarrow> ?iv"
    let ?iv = "case sa_atime req of Some atime \<Rightarrow> ?iv\<lparr>iv_atime := atime\<rparr> | None \<Rightarrow> ?iv"
    let ?iv = "case sa_mtime req of Some mtime \<Rightarrow> ?iv\<lparr>iv_mtime := mtime\<rparr> | None \<Rightarrow> ?iv"
    show "iv_version ?iv = iv_version iv" "is_dir (iv_mode ?iv) = is_dir (iv_mode iv)" "iv_nlink ?iv = iv_nlink iv"
      by (simp_all add: optional_updates is_dir_masked)
    show "iv' = (case sa_size req of
        Some new_size \<Rightarrow> (if new_size \<noteq> iv_size ?iv then ?iv\<lparr>iv_size := new_size, iv_mtime := ts\<rparr> else ?iv)
      | None \<Rightarrow> ?iv)\<lparr>iv_ctime := ts\<rparr>"
      using assms unfolding apply_setattr_def Let_def by (cases "sa_size req") (simp_all split: if_splits)
  qed
  show "iv_version iv' = iv_version iv" "is_dir (iv_mode iv') = is_dir (iv_mode iv)" "iv_nlink iv' = iv_nlink iv"
    unfolding iv1(4) by (cases "sa_size req"; simp add: iv1(1-3))+
qed

context rocksdb
begin

lemma updated_correct:
  assumes q: "quiet view 8 s s1" and u: "updated view L i iv iv' s1 s2" and inv: "server_inv view s" and room: "room 12 s"
    and iv': "iv_version iv' = iv_version iv" "is_dir (iv_mode iv') = is_dir (iv_mode iv)" "iv_nlink iv' = iv_nlink iv"
    and g: "g ts iv iv' a" and L: "lru_cache L entries cap"
  shows "implements view (spec_update i g) errp s (Ok a) s2"
    and "pending (view (kv_db s)) i = [] \<Longrightarrow> keeps_coherent entries view s (Ok a) s2"
proof -
  have same: "view (kv_db s1) = view (kv_db s)" "cw_cache s1 = cw_cache s" using q by (simp_all add: quiet_def)
  have inv1: "server_inv view s1" by (rule server_inv_quiet [OF inv q room_mono [OF room]]) simp
  have r0: "room 0 s1" by (rule room_quiet [OF q], rule room_mono [OF room]) simp
  have st: "stored (view (kv_db s)) i = Some iv" using u same by (simp add: updated_def)
  have ver: "iv_version iv' = FORMAT_VERSION" using stored_version [OF st] iv'(1) by simp
  note i = inv_updated [OF u inv1 r0 ver iv'(2,3), unfolded same]
  let ?ds = "decode_deltas (pending (view (kv_db s)) i)"
  have tgt: "af_target (abs_fs (view (kv_db s2))) = af_target (abs_fs (view (kv_db s)))"
    using u same by (simp add: updated_def abs_fs_def)
  have "spec_update i g (abs_fs (view (kv_db s))) a (abs_fs (view (kv_db s2)))"
    unfolding spec_update_def
  proof (intro exI conjI)
    show "g ts iv iv' a" by (fact g)
    show "af_attrs (abs_fs (view (kv_db s))) i = Some (fold_deltas iv ?ds)" using st by (simp add: abs_fs_def effective_def)
    show "\<not> is_dir (iv_mode iv) \<longrightarrow> ?ds = []" using server_inv_file(1) [OF inv st] by simp
    show "abs_fs (view (kv_db s2)) = (abs_fs (view (kv_db s)))
        \<lparr>af_attrs := (af_attrs (abs_fs (view (kv_db s))))(i \<mapsto> fold_deltas iv' ?ds)\<rparr>"
      using i(2,3) tgt by (simp add: abs_fs_def del: fun_upd_apply)
  qed
  with i(1) show "implements view (spec_update i g) errp s (Ok a) s2" by (simp add: implements_def)
  assume "pending (view (kv_db s)) i = []"
  then show "keeps_coherent entries view s (Ok a) s2"
    using i(2) u same lru_cache.put_le [OF L] lru_cache.cache_lengths(1) [OF L]
    by (auto simp: keeps_coherent_def coherent_def updated_def simp del: fun_upd_apply)
qed

text \<open>The common form of the updates: a closure with the contract of one inode's update.\<close>

lemma wp_update_op:
  assumes L: "lru_cache L entries cap" and inv: "server_inv view s" and room: "room 12 s"
    and txn: "\<And>s. wp f (T s) s"
    and quiet: "\<And>s r s'. T s r s' \<Longrightarrow> \<not> is_ok r \<Longrightarrow> quiet view 4 s s'"
    and err: "\<And>s r s'. T s r s' \<Longrightarrow> inode_error (view (kv_db s)) i r"
    and ok: "\<And>s1 a s2. T s1 (Ok a) s2 \<Longrightarrow> \<exists>iv iv' ts. updated view L i iv iv' s1 s2 \<and> g ts iv iv' (h a)"
    and g: "\<And>ts iv iv' a. g ts iv iv' a \<Longrightarrow> iv_version iv' = iv_version iv \<and>
      is_dir (iv_mode iv') = is_dir (iv_mode iv) \<and> iv_nlink iv' = iv_nlink iv"
    and k: "\<And>a Q s. wp (k a) Q s = Q (Ok (h a)) s"
  shows "wp (bind (execute_with_retry f) k) (\<lambda>r s'. implements view (spec_update i g) (update_error i) s r s' \<and>
    (pending (view (kv_db s)) i = [] \<longrightarrow> keeps_coherent entries view s r s')) s"
proof (rule wp_retry_bind [where view = view and T = T and n = 4, OF txn quiet])
  fix a s1 s2
  assume q: "quiet view (2 * 4) s s1" and t: "T s1 (Ok a) s2"
  from ok [OF t] obtain iv iv' ts where u: "updated view L i iv iv' s1 s2" and ga: "g ts iv iv' (h a)" by blast
  have q8: "quiet view 8 s s1" using q by simp
  note c = updated_correct [where g = g, OF q8 u inv room _ _ _ ga L]
  show "wp (k a) (\<lambda>r s'. implements view (spec_update i g) (update_error i) s r s' \<and>
      (pending (view (kv_db s)) i = [] \<longrightarrow> keeps_coherent entries view s r s')) s2"
    unfolding k using c g [OF ga] by blast
next
  fix e s1 s2
  assume q: "quiet view (2 * 4) s s1" "quiet view (3 * 4) s s2" and t: "T s1 (Err e) s2"
  have "update_error i (view (kv_db s)) e"
    using err [OF t] q(1) by (auto simp: inode_error_def update_error_def quiet_def)
  then show "implements view (spec_update i g) (update_error i) s (Err e) s2 \<and>
      (pending (view (kv_db s)) i = [] \<longrightarrow> keeps_coherent entries view s (Err e) s2)"
    by (intro conjI impI implements_quiet [where errp = "update_error i", OF q(2) inv]) (use room in auto)
next
  fix q s2
  assume "quiet view (3 * 4) s s2"
  then show "implements view (spec_update i g) (update_error i) s (Panic q) s2 \<and>
      (pending (view (kv_db s)) i = [] \<longrightarrow> keeps_coherent entries view s (Panic q) s2)"
    by (intro conjI impI implements_quiet [where errp = "update_error i", OF _ inv]) (use room in auto)
qed

lemma wp_setattr:
  assumes L: "lru_cache L entries cap" and inv: "server_inv view s" and room: "room 12 s"
  shows "wp (setattr R L i req) (\<lambda>r s'. implements view (spec_setattr i req) (update_error i) s r s' \<and>
    (pending (view (kv_db s)) i = [] \<longrightarrow> keeps_coherent entries view s r s')) s"
  unfolding setattr_def spec_setattr_def
proof (rule wp_update_op [OF L inv room wp_setattr_txn,
      where h = "\<lambda>(attr, t). \<lparr>sr_attr = attr, sr_needs_truncate = (if t then sa_size req else None)\<rparr>"])
  fix s1 a s2
  assume t: "(\<forall>attr trunc. Ok a = Ok (attr, trunc) \<longrightarrow> (\<exists>iv ts iv'. apply_setattr req ts iv = (iv', trunc) \<and>
      attr = to_attr iv' \<and> updated view L i iv iv' s1 s2)) \<and> inode_error (view (kv_db s1)) i (Ok a) \<and>
      (\<not> is_ok (Ok a) \<longrightarrow> quiet view 4 s1 s2)"
  obtain attr trunc where a: "a = (attr, trunc)" by (cases a)
  from t a obtain iv ts iv' where "apply_setattr req ts iv = (iv', trunc)" "attr = to_attr iv'" "updated view L i iv iv' s1 s2"
    by blast
  with a show "\<exists>iv iv' ts. updated view L i iv iv' s1 s2 \<and> (\<exists>trunc. apply_setattr req ts iv = (iv', trunc) \<and>
      (case a of (attr, t) \<Rightarrow> \<lparr>sr_attr = attr, sr_needs_truncate = (if t then sa_size req else None)\<rparr>) =
      \<lparr>sr_attr = to_attr iv', sr_needs_truncate = (if trunc then sa_size req else None)\<rparr>)"
    by - (rule exI [of _ iv], rule exI [of _ iv'], rule exI [of _ ts], auto)
qed (auto simp: wp_simps dest: apply_setattr_keeps split: prod.splits)

lemma wp_report_write:
  assumes L: "lru_cache L entries cap" and inv: "server_inv view s" and room: "room 12 s"
  shows "wp (report_write R L i sz mt) (\<lambda>r s'. implements view (spec_report_write i sz mt) (update_error i) s r s' \<and>
    (pending (view (kv_db s)) i = [] \<longrightarrow> keeps_coherent entries view s r s')) s"
  unfolding report_write_def spec_report_write_def
  by (subst bind_ret_right [symmetric], rule wp_update_op [OF L inv room wp_report_write_txn, where h = "\<lambda>u. u"])
    (auto simp: wp_simps)

end

section \<open>Reading\<close>

text \<open>Nothing changes but the handle of the database and the recency order of the cache.\<close>

definition reads ::
  "('db \<Rightarrow> view) \<Rightarrow> ('db, 'txn, 'c, 'z) server_scheme \<Rightarrow> ('db, 'txn, 'c, 'z) server_scheme \<Rightarrow> bool" where
  "reads view s s' \<longleftrightarrow> (\<exists>d c. s' = s\<lparr>kv_db := d, cw_cache := c\<rparr> \<and> view d = view (kv_db s))"

definition load_error :: "inode \<Rightarrow> view \<Rightarrow> FsError \<Rightarrow> bool" where
  "load_error i V e \<longleftrightarrow>
     e = NotFound \<and> V CF_INODES (encode_inode_key i) = None \<or>
     V CF_INODES (encode_inode_key i) \<noteq> None \<and> stored V i = None \<or> (\<exists>m. e = Io m)"

lemma readsI [intro]: "view d = view (kv_db s) \<Longrightarrow> reads view s (s\<lparr>kv_db := d, cw_cache := c\<rparr>)"
  by (auto simp: reads_def)

lemma reads_cache [intro]: "reads view s (s\<lparr>cw_cache := c\<rparr>)"
  unfolding reads_def by (rule exI [of _ "kv_db s"], rule exI [of _ c]) simp

lemma reads_db [intro]: "reads view s s1 \<Longrightarrow> view d = view (kv_db s) \<Longrightarrow> reads view s (s1\<lparr>kv_db := d\<rparr>)"
proof -
  assume "reads view s s1" and d: "view d = view (kv_db s)"
  then obtain c where "s1\<lparr>kv_db := d\<rparr> = s\<lparr>kv_db := d, cw_cache := c\<rparr>" by (auto simp: reads_def)
  with readsI [OF d] show ?thesis by simp
qed

lemma reads_view: "reads view s s' \<Longrightarrow> view (kv_db s') = view (kv_db s)"
  by (auto simp: reads_def)

lemma server_inv_reads: "reads view s s' \<Longrightarrow> server_inv view s' = server_inv view s"
  by (auto simp: reads_def server_inv_def)

lemma coherent_db: "view d = view (kv_db s) \<Longrightarrow> coherent entries view (s\<lparr>kv_db := d\<rparr>) = coherent entries view s"
  by (simp add: coherent_def)

context rocksdb
begin

lemma wp_load_inode:
  assumes L: "lru_cache L entries cap"
    and ok: "\<And>iv s'. reads view s s' \<Longrightarrow>
      (coherent entries view s \<longrightarrow> effective (view (kv_db s)) i = Some iv \<and> coherent entries view s') \<Longrightarrow> Q (Ok iv) s'"
    and err: "\<And>e s'. reads view s s' \<Longrightarrow> load_error i (view (kv_db s)) e \<Longrightarrow>
      (coherent entries view s \<longrightarrow> coherent entries view s') \<Longrightarrow> Q (Err e) s'"
  shows "wp (load_inode R L i) Q s"
proof -
  let ?V = "view (kv_db s)"
  obtain hit c where g: "cache_get L i (cw_cache s) = (hit, c)" by fastforce
  have get: "hit = cached entries (cw_cache s) i" "cached entries c = cached entries (cw_cache s)" "length c = 16"
    if "coherent entries view s"
    using lru_cache.lookup_get [OF L g] that by (simp_all add: coherent_def)
  have miss: "coherent entries view s \<longrightarrow> coherent entries view (s\<lparr>kv_db := d, cw_cache := c\<rparr>)" if "view d = ?V" for d
    using get that by (auto simp: coherent_def)
  show ?thesis
  proof (cases hit)
    case (Some v)
    have "coherent entries view s \<longrightarrow> effective ?V i = Some v \<and> coherent entries view (s\<lparr>cw_cache := c\<rparr>)"
      using get Some coherentD [of entries view s i v] by (auto simp: coherent_def)
    with ok [OF reads_cache] show ?thesis by (simp add: load_inode_def wp_simps g Some)
  next
    case None
    have put: "coherent entries view s \<longrightarrow> effective ?V i = Some iv \<and>
        coherent entries view (s\<lparr>kv_db := d, cw_cache := cache_put L i iv c\<rparr>)"
      if "view d = ?V" "stored ?V i = Some b" "iv = fold_deltas b (decode_deltas (pending ?V i))" for d b iv
    proof
      assume co: "coherent entries view s"
      have eff: "effective ?V i = Some iv" using that(2,3) by (simp add: effective_def)
      then have "(effective ?V)(i \<mapsto> iv) = effective ?V" by auto
      with lru_cache.put_le [OF L get(3) [OF co], of "effective ?V" i iv] get [OF co] co that(1) eff
      show "effective ?V i = Some iv \<and> coherent entries view (s\<lparr>kv_db := d, cw_cache := cache_put L i iv c\<rparr>)"
        using lru_cache.cache_lengths(1) [OF L get(3) [OF co]] by (auto simp: coherent_def)
    qed
    show ?thesis
      by (auto simp: load_inode_def wp_simps g None andthen_case Let_def
          intro!: wp_meta_get wp_scan_deltas err ok readsI miss put
          split: option.splits outcome.splits)
        (use put [unfolded pending_def stored_Some] in \<open>auto simp: load_error_def stored_None\<close>)
  qed
qed

end

section \<open>Removing and linking\<close>

definition spec_unlink :: "inode \<Rightarrow> str \<Rightarrow> (inode \<Rightarrow> bool) \<Rightarrow> afs \<Rightarrow> UnlinkResponse \<Rightarrow> afs \<Rightarrow> bool" where
  "spec_unlink p n opened A a A' \<longleftrightarrow>
     (\<exists>c m iv t ts. af_names A p n = Some (c, m) \<and> \<not> is_dir m \<and> af_attrs A c = Some iv \<and>
        a = \<lparr>ur_purged_inodes = (if unlink_keep iv t (opened c) = None then [c] else [])\<rparr> \<and>
        A' = A\<lparr>af_names := set_entry p n None (af_names A),
               af_attrs := touch p [SetMtime ts, SetCtime ts] ((af_attrs A)(c := unlink_keep iv t (opened c)))\<rparr>)"

definition unlink_error :: "inode \<Rightarrow> str \<Rightarrow> view \<Rightarrow> FsError \<Rightarrow> bool" where
  "unlink_error p n V e \<longleftrightarrow> e = NameTooLong \<and> NAME_MAX < length n \<or> entry_error V p n e \<or>
     e = IsADirectory \<and> (\<exists>c m. dirent V p n = Some (c, m) \<and> is_dir m)"

definition spec_rmdir :: "inode \<Rightarrow> str \<Rightarrow> afs \<Rightarrow> unit \<Rightarrow> afs \<Rightarrow> bool" where
  "spec_rmdir p n A a A' \<longleftrightarrow>
     (\<exists>c m ts. af_names A p n = Some (c, m) \<and> is_dir m \<and> (\<forall>x. af_names A c x = None) \<and>
        A' = A\<lparr>af_names := set_entry p n None (af_names A),
               af_attrs := touch p [IncrementNlink (- 1), SetMtime ts, SetCtime ts] ((af_attrs A)(c := None))\<rparr>)"

definition rmdir_error :: "inode \<Rightarrow> str \<Rightarrow> view \<Rightarrow> FsError \<Rightarrow> bool" where
  "rmdir_error p n V e \<longleftrightarrow> e = NameTooLong \<and> NAME_MAX < length n \<or> entry_error V p n e \<or>
     (\<exists>c m. dirent V p n = Some (c, m) \<and>
        (e = NotADirectory \<and> \<not> is_dir m \<or> e = DirectoryNotEmpty \<and> \<not> dir_empty V c))"

definition spec_link :: "inode \<Rightarrow> str \<Rightarrow> inode \<Rightarrow> afs \<Rightarrow> FileAttr \<Rightarrow> afs \<Rightarrow> bool" where
  "spec_link p n i A a A' \<longleftrightarrow>
     (\<exists>iv t ts. af_names A p n = None \<and> af_attrs A i = Some iv \<and> \<not> is_dir (iv_mode iv) \<and>
        (let iv' = iv\<lparr>iv_nlink := iv_nlink iv + 1, iv_ctime := t\<rparr>
         in a = to_attr iv' \<and>
            A' = A\<lparr>af_names := set_entry p n (Some (i, iv_mode iv)) (af_names A),
                   af_attrs := touch p [SetMtime ts, SetCtime ts] ((af_attrs A)(i \<mapsto> iv'))\<rparr>))"

definition link_refused :: "inode \<Rightarrow> str \<Rightarrow> inode \<Rightarrow> view \<Rightarrow> FsError \<Rightarrow> bool" where
  "link_refused p n i V e \<longleftrightarrow> e = NameTooLong \<and> NAME_MAX < length n \<or> link_error V p n i e"

lemma unlink_base_target: "(unlink_base p n c keep V) CF_INODES (encode_symlink_key i) = V CF_INODES (encode_symlink_key i)"
  by (simp add: unlink_base_def split: option.split)

lemma cleared_other_cf: "cleared c V sq V' sq' \<Longrightarrow> cf \<noteq> CF_DELTA_ENTRIES \<Longrightarrow> V' cf = V cf"
  by (auto simp: cleared_def drop_deltas_def fun_eq_iff)

context rocksdb
begin

text \<open>The common form of an operation on a name: checks, a closure, the steps after its commit.\<close>

lemma wp_named_op:
  assumes inv: "server_inv view s" and room: "room 12 s"
    and txn: "\<And>s. wp f (T s) s"
    and quiet: "\<And>s r s'. T s r s' \<Longrightarrow> \<not> is_ok r \<Longrightarrow> quiet view 4 s s'"
    and name: "NAME_MAX < length n \<Longrightarrow> errp (view (kv_db s)) NameTooLong"
    and err: "\<And>s1 e s2. T s1 (Err e) s2 \<Longrightarrow> view (kv_db s1) = view (kv_db s) \<Longrightarrow> errp (view (kv_db s)) e"
    and ok: "\<And>s1 a s2. quiet view 8 s s1 \<Longrightarrow> server_inv view s1 \<Longrightarrow> room 4 s1 \<Longrightarrow> T s1 (Ok a) s2 \<Longrightarrow>
      wp (k a) (\<lambda>r s'. implements view okp errp s r s' \<and> keeps_coherent entries view s r s') s2"
  shows "wp (bind (validate_name n) (\<lambda>_. bind (execute_with_retry f) k))
    (\<lambda>r s'. implements view okp errp s r s' \<and> keeps_coherent entries view s r s') s"
proof (cases "NAME_MAX < length n")
  case True
  then show ?thesis
    by (simp add: wp_bind [of "validate_name n"] wp_validate_name)
      (intro conjI implements_quiet [where errp = errp, OF quiet_refl inv room], use name in auto)
next
  case False
  have "wp (bind (execute_with_retry f) k) (\<lambda>r s'. implements view okp errp s r s' \<and> keeps_coherent entries view s r s') s"
  proof (rule wp_retry_bind [where view = view and T = T and n = 4, OF txn quiet])
    fix a s1 s2
    assume "quiet view (2 * 4) s s1" and t: "T s1 (Ok a) s2"
    then have q: "quiet view 8 s s1" by simp
    show "wp (k a) (\<lambda>r s'. implements view okp errp s r s' \<and> keeps_coherent entries view s r s') s2"
    proof (rule ok [OF q _ _ t])
      show "server_inv view s1" by (rule server_inv_quiet [OF inv q room_mono [OF room]]) simp
      show "room 4 s1" by (rule room_quiet [OF q], rule room_mono [OF room]) simp
    qed
  next
    fix e s1 s2
    assume q: "quiet view (2 * 4) s s1" "quiet view (3 * 4) s s2" and t: "T s1 (Err e) s2"
    have "errp (view (kv_db s)) e" by (rule err [OF t]) (use q in \<open>simp add: quiet_def\<close>)
    then show "implements view okp errp s (Err e) s2 \<and> keeps_coherent entries view s (Err e) s2"
      by (intro conjI implements_quiet [where errp = errp, OF q(2) inv]) (use room in auto)
  next
    fix q s2
    assume "quiet view (3 * 4) s s2"
    then show "implements view okp errp s (Panic q) s2 \<and> keeps_coherent entries view s (Panic q) s2"
      by (intro conjI implements_quiet [where errp = errp, OF _ inv]) (use room in auto)
  qed
  with False show ?thesis by (simp add: wp_bind [of "validate_name n"] wp_validate_name)
qed

lemma target_after:
  assumes "cleared c (apply_writes (group_writes sq gs) V1) sq' V' sq''"
    and "\<And>i. V1 CF_INODES (encode_symlink_key i) = V CF_INODES (encode_symlink_key i)"
  shows "af_target (abs_fs V') = af_target (abs_fs V)"
  using cleared_other_cf [OF assms(1), of CF_INODES] assms(2) by (simp add: abs_fs_def)

lemma unlinked_target: "unlinked view L p n c result ts s s' \<Longrightarrow>
  af_target (abs_fs (view (kv_db s'))) = af_target (abs_fs (view (kv_db s)))"
  by (erule unlinkedE) (erule target_after, simp add: unlink_base_target)

lemma rmdired_target: "rmdired view L p n c ts s s' \<Longrightarrow>
  af_target (abs_fs (view (kv_db s'))) = af_target (abs_fs (view (kv_db s)))"
  by (auto simp: rmdired_def rmdir_writes_def abs_fs_def dest!: cleared_other_cf [where cf = CF_INODES]
      simp del: delta_writes.simps)

lemma linked_target: "linked view L p n i iv ts s s' \<Longrightarrow>
  af_target (abs_fs (view (kv_db s'))) = af_target (abs_fs (view (kv_db s)))"
  by (auto simp: linked_def link_writes_def abs_fs_def simp del: delta_writes.simps)

lemma unlink_done:
  assumes L: "lru_cache L entries cap" and q: "quiet view 8 s s1" and inv: "server_inv view s1" and room: "room 4 s1"
    and u: "unlinked view L p n c result ts s1 s2"
    and s': "kv_db s' = kv_db s2" "kv_seqs s' = kv_seqs s2" "sv_alloc s' = sv_alloc s2"
      "sv_pending_deletes s' = sv_pending_deletes s2 \<union> (if result = Some (c, True) then {c} else {})"
      "cw_cache s' = cache_apply_deltas L p [SetMtime ts, SetCtime ts] (cw_cache s2)"
  shows "implements view (spec_unlink p n (\<lambda>i. open_count s i > 0)) errp s
      (Ok \<lparr>ur_purged_inodes = (if result = Some (c, False) then [c] else [])\<rparr>) s'"
    and "keeps_coherent entries view s (Ok (a :: UnlinkResponse)) s'"
proof -
  have same: "view (kv_db s1) = view (kv_db s)" "cw_cache s1 = cw_cache s" "open_count s1 = open_count s"
    using q by (simp_all add: quiet_def same_rest_def open_count_def fun_eq_iff)
  have r2: "room 2 s1" by (rule room_mono [OF room]) simp
  show "implements view (spec_unlink p n (\<lambda>i. open_count s i > 0)) errp s
      (Ok \<lparr>ur_purged_inodes = (if result = Some (c, False) then [c] else [])\<rparr>) s'" and "keeps_coherent entries view s (Ok a) s'"
  proof (atomize (full), rule inv_unlinked [OF u inv r2, unfolded same])
    fix m iv t
    let ?keep = "unlink_keep iv t (open_count s c > 0)"
    assume e: "dirent (view (kv_db s)) p n = Some (c, m)" "\<not> is_dir m" "effective (view (kv_db s)) c = Some iv"
      and result: "result = (if sat_dec (iv_nlink iv) \<noteq> 0 then None else Some (c, open_count s c > 0))"
      and d: "dirent (view (kv_db s2)) = set_entry p n None (dirent (view (kv_db s)))"
      and f: "effective (view (kv_db s2)) = touch p [SetMtime ts, SetCtime ts] ((effective (view (kv_db s)))(c := ?keep))"
      and ok: "contents_ok (view (kv_db s2)) (seq_of s2) (ia_next (sv_alloc s1))
         (sv_pending_deletes s1 \<union> (if result = Some (c, True) then {c} else {}))"
      and cache: "cw_cache s2 = (case ?keep of
          Some iv' \<Rightarrow> cache_put L c iv' (cw_cache s) | None \<Rightarrow> cache_invalidate L c (cw_cache s))"
      and rest: "same_rest s1 s2" "sv_alloc s2 = sv_alloc s1"
    have "server_inv view s'" using ok s' rest by (simp add: server_inv_def same_rest_def)
    moreover have purged: "result = Some (c, False) \<longleftrightarrow> ?keep = None"
      using result by (auto simp: unlink_keep_def)
    moreover have "abs_fs (view (kv_db s')) = (abs_fs (view (kv_db s)))\<lparr>af_names := set_entry p n None (af_names (abs_fs (view (kv_db s)))),
        af_attrs := touch p [SetMtime ts, SetCtime ts] ((af_attrs (abs_fs (view (kv_db s))))(c := ?keep))\<rparr>"
      using d f unlinked_target [OF u] s'(1) same(1) by (simp add: abs_fs_def del: fun_upd_apply)
    moreover have "coherent entries view s'" if "coherent entries view s"
    proof -
      have "length (cw_cache s2) = 16" "cached entries (cw_cache s2) \<subseteq>\<^sub>m (effective (view (kv_db s)))(c := ?keep)"
        using that lru_cache.put_le [OF L] lru_cache.invalidate_le [OF L] lru_cache.cache_lengths [OF L]
        unfolding cache coherent_def by (auto split: option.split simp del: fun_upd_apply)
      then show ?thesis using lru_cache.apply_deltas_le [OF L] lru_cache.cache_lengths(2) [OF L] s'(1,5) f
        by (simp add: coherent_def del: fun_upd_apply)
    qed
    ultimately show "implements view (spec_unlink p n (\<lambda>i. open_count s i > 0)) errp s
        (Ok \<lparr>ur_purged_inodes = (if result = Some (c, False) then [c] else [])\<rparr>) s' \<and> keeps_coherent entries view s (Ok a) s'"
      using e by (auto simp: implements_def keeps_coherent_def spec_unlink_def abs_fs_def)
  qed
qed

lemma wp_unlink:
  assumes L: "lru_cache L entries cap" and inv: "server_inv view s" and room: "room 12 s"
  shows "wp (unlink R L p n) (\<lambda>r s'. implements view (spec_unlink p n (\<lambda>i. open_count s i > 0)) (unlink_error p n) s r s' \<and>
    keeps_coherent entries view s r s') s"
  unfolding unlink_def
proof (rule wp_named_op [OF inv room wp_unlink_txn])
  fix s1 a s2
  assume q: "quiet view 8 s s1" and inv1: "server_inv view s1" and room1: "room 4 s1"
    and t: "(\<forall>result ts. Ok a = Ok (result, ts) \<longrightarrow> (\<exists>c. unlinked view L p n c result ts s1 s2)) \<and>
      (\<forall>e. Ok a = Err e \<longrightarrow> entry_error (view (kv_db s1)) p n e \<or>
         e = IsADirectory \<and> (\<exists>c m. dirent (view (kv_db s1)) p n = Some (c, m) \<and> is_dir m)) \<and>
      (\<not> is_ok (Ok a) \<longrightarrow> quiet view 4 s1 s2)"
  obtain result ts where a: "a = (result, ts)" by (cases a)
  with t obtain c where u: "unlinked view L p n c result ts s1 s2" by blast
  then have r: "result = None \<or> result = Some (c, True) \<or> result = Some (c, False)"
    by (rule unlinkedE) (auto split: if_splits)
  note fin = unlink_done [OF L q inv1 room1 u]
  show "wp (case a of (need_delete_data, parent_ts) \<Rightarrow>
      bind (case need_delete_data of
          None \<Rightarrow> ret []
        | Some (inode, deferred) \<Rightarrow>
            (if deferred then bind (modify (\<lambda>s. s\<lparr>sv_pending_deletes := insert inode (sv_pending_deletes s)\<rparr>)) (\<lambda>_. ret [])
             else ret [inode])) (\<lambda>purged_inodes.
      bind (sc_apply_deltas L p [SetMtime parent_ts, SetCtime parent_ts]) (\<lambda>_.
      bind (mark_dirty p) (\<lambda>_. ret \<lparr>ur_purged_inodes = purged_inodes\<rparr>))))
    (\<lambda>r s'. implements view (spec_unlink p n (\<lambda>i. open_count s i > 0)) (unlink_error p n) s r s' \<and>
      keeps_coherent entries view s r s') s2"
    using r fin by (elim disjE) (simp_all add: a wp_simps)
qed (auto simp: unlink_error_def)

lemma rmdir_done:
  assumes L: "lru_cache L entries cap" and q: "quiet view 8 s s1" and inv: "server_inv view s1" and room: "room 4 s1"
    and u: "rmdired view L p n c ts s1 s2"
    and s': "kv_db s' = kv_db s2" "kv_seqs s' = kv_seqs s2" "sv_alloc s' = sv_alloc s2"
      "sv_pending_deletes s' = sv_pending_deletes s2"
      "cw_cache s' = cache_apply_deltas L p [IncrementNlink (- 1), SetMtime ts, SetCtime ts] (cw_cache s2)"
  shows "implements view (spec_rmdir p n) errp s (Ok ()) s' \<and> keeps_coherent entries view s (Ok ()) s'"
proof -
  have same: "view (kv_db s1) = view (kv_db s)" "cw_cache s1 = cw_cache s"
    using q by (simp_all add: quiet_def)
  have r3: "room 3 s1" by (rule room_mono [OF room]) simp
  note i = inv_rmdired [OF u inv r3, unfolded same]
  from u obtain m where e: "dirent (view (kv_db s)) p n = Some (c, m)" "is_dir m" "dir_empty (view (kv_db s)) c"
    and cache: "cw_cache s2 = cache_invalidate L c (cw_cache s)"
    unfolding rmdired_def same by blast
  have "abs_fs (view (kv_db s')) = (abs_fs (view (kv_db s)))\<lparr>af_names := set_entry p n None (af_names (abs_fs (view (kv_db s)))),
      af_attrs := touch p [IncrementNlink (- 1), SetMtime ts, SetCtime ts] ((af_attrs (abs_fs (view (kv_db s))))(c := None))\<rparr>"
    using i(2,3) rmdired_target [OF u] s'(1) same(1) by (simp add: abs_fs_def del: fun_upd_apply)
  moreover have "coherent entries view s'" if "coherent entries view s"
    using that i(3) s'(1,5) lru_cache.apply_deltas_le [OF L] lru_cache.invalidate_le [OF L] lru_cache.cache_lengths [OF L]
    by (simp add: coherent_def cache del: fun_upd_apply)
  moreover have "server_inv view s'" using i(1) s' by (simp add: server_inv_def)
  ultimately show ?thesis
    using e dir_empty_dirent [OF e(3)] by (auto simp: implements_def keeps_coherent_def spec_rmdir_def abs_fs_def)
qed

lemma wp_rmdir:
  assumes L: "lru_cache L entries cap" and inv: "server_inv view s" and room: "room 12 s"
  shows "wp (rmdir R L p n) (\<lambda>r s'. implements view (spec_rmdir p n) (rmdir_error p n) s r s' \<and>
    keeps_coherent entries view s r s') s"
  unfolding rmdir_def
proof (rule wp_named_op [OF inv room wp_rmdir_txn])
  fix s1 ts s2
  assume q: "quiet view 8 s s1" and inv1: "server_inv view s1" and room1: "room 4 s1"
    and t: "(\<forall>x. Ok ts = Ok x \<longrightarrow> (\<exists>c. rmdired view L p n c x s1 s2)) \<and>
      (\<forall>e. Ok ts = Err e \<longrightarrow> entry_error (view (kv_db s1)) p n e \<or>
        (\<exists>c m. dirent (view (kv_db s1)) p n = Some (c, m) \<and>
           (e = NotADirectory \<and> \<not> is_dir m \<or> e = DirectoryNotEmpty \<and> \<not> dir_empty (view (kv_db s1)) c))) \<and>
      (\<not> is_ok (Ok ts) \<longrightarrow> quiet view 4 s1 s2)"
  then obtain c where u: "rmdired view L p n c ts s1 s2" by blast
  show "wp (bind (sc_apply_deltas L p [IncrementNlink (- 1), SetMtime ts, SetCtime ts]) (\<lambda>_. mark_dirty p))
    (\<lambda>r s'. implements view (spec_rmdir p n) (rmdir_error p n) s r s' \<and> keeps_coherent entries view s r s') s2"
    by (simp add: wp_simps) (intro rmdir_done [OF L q inv1 room1 u]; simp)
qed (auto simp: rmdir_error_def)

lemma link_done:
  assumes L: "lru_cache L entries cap" and q: "quiet view 8 s s1" and inv: "server_inv view s1" and room: "room 4 s1"
    and u: "linked view L p n i iv' ts s1 s2" and i: "i \<notin> sv_pending_deletes s" "iv_nlink iv' \<noteq> 0"
    and s': "kv_db s' = kv_db s2" "kv_seqs s' = kv_seqs s2" "sv_alloc s' = sv_alloc s2"
      "sv_pending_deletes s' = sv_pending_deletes s2"
      "cw_cache s' = cache_apply_deltas L p [SetMtime ts, SetCtime ts] (cw_cache s2)"
  shows "implements view (spec_link p n i) errp s (Ok (to_attr iv')) s' \<and> keeps_coherent entries view s (Ok (to_attr iv')) s'"
proof -
  have same: "view (kv_db s1) = view (kv_db s)" "cw_cache s1 = cw_cache s" "sv_pending_deletes s1 = sv_pending_deletes s"
    using q by (simp_all add: quiet_def same_rest_def)
  have r2: "room 2 s1" by (rule room_mono [OF room]) simp
  note l = inv_linked [OF u inv r2 i(1) [folded same(3)] i(2), unfolded same]
  from u obtain iv t where iv: "stored (view (kv_db s)) i = Some iv" "\<not> is_dir (iv_mode iv)"
    "iv' = iv\<lparr>iv_nlink := iv_nlink iv + 1, iv_ctime := t\<rparr>" "dirent (view (kv_db s)) p n = None"
    and cache: "cw_cache s2 = cache_put L i iv' (cw_cache s)"
    unfolding linked_def same by (auto simp: dirent_def)
  have eff: "effective (view (kv_db s)) i = Some iv" using server_inv_file(2) [OF inv] iv(1,2) same(1) by simp
  have "abs_fs (view (kv_db s')) = (abs_fs (view (kv_db s)))\<lparr>
      af_names := set_entry p n (Some (i, iv_mode iv)) (af_names (abs_fs (view (kv_db s)))),
      af_attrs := touch p [SetMtime ts, SetCtime ts] ((af_attrs (abs_fs (view (kv_db s))))(i \<mapsto> iv'))\<rparr>"
    using l(2,3) linked_target [OF u] s'(1) same(1) iv(3) by (simp add: abs_fs_def del: fun_upd_apply)
  moreover have "coherent entries view s'" if "coherent entries view s"
    using that l(3) s'(1,5) lru_cache.apply_deltas_le [OF L] lru_cache.put_le [OF L] lru_cache.cache_lengths [OF L]
    by (simp add: coherent_def cache del: fun_upd_apply)
  moreover have "server_inv view s'" using l(1) s' by (simp add: server_inv_def)
  ultimately show ?thesis
    using iv eff by (auto simp: implements_def keeps_coherent_def spec_link_def abs_fs_def Let_def)
qed

lemma wp_link:
  assumes L: "lru_cache L entries cap" and inv: "server_inv view s" and room: "room 12 s"
    and i: "i \<notin> sv_pending_deletes s" "\<And>iv. stored (view (kv_db s)) i = Some iv \<Longrightarrow> iv_nlink iv + 1 \<noteq> 0"
  shows "wp (link R L p n i) (\<lambda>r s'. implements view (spec_link p n i) (link_refused p n i) s r s' \<and>
    keeps_coherent entries view s r s') s"
  unfolding link_def
proof (rule wp_named_op [OF inv room wp_link_txn])
  fix s1 a s2
  assume q: "quiet view 8 s s1" and inv1: "server_inv view s1" and room1: "room 4 s1"
    and t: "(\<forall>iv' ts. Ok a = Ok (iv', ts) \<longrightarrow> linked view L p n i iv' ts s1 s2) \<and>
      (\<forall>e. Ok a = Err e \<longrightarrow> link_error (view (kv_db s1)) p n i e) \<and> (\<not> is_ok (Ok a) \<longrightarrow> quiet view 4 s1 s2)"
  obtain iv' ts where a: "a = (iv', ts)" by (cases a)
  with t have u: "linked view L p n i iv' ts s1 s2" by blast
  have ne: "iv_nlink iv' \<noteq> 0" using u i(2) q by (auto simp: linked_def quiet_def)
  show "wp (case a of (target_iv, parent_ts) \<Rightarrow> bind (sc_apply_deltas L p [SetMtime parent_ts, SetCtime parent_ts]) (\<lambda>_.
      bind (mark_dirty p) (\<lambda>_. ret (to_attr target_iv))))
    (\<lambda>r s'. implements view (spec_link p n i) (link_refused p n i) s r s' \<and> keeps_coherent entries view s r s') s2"
    by (simp add: wp_simps a) (intro link_done [OF L q inv1 room1 u i(1) ne]; simp)
qed (auto simp: link_refused_def)

end

end
