(* ===== verification/Server_Rename_Correct.thy ===== *)
theory Server_Rename_Correct
  imports Server_Correct
begin

unbundle bit_operations_syntax

text \<open>\<^verbatim>\<open>rename\<close> against its abstract specification.\<close>

section \<open>Deltas for several directories\<close>

definition touches :: "(inode \<times> DeltaOp list) list \<Rightarrow> inodes \<Rightarrow> inodes" where
  "touches gs F j = map_option (\<lambda>b. fold_deltas b (deltas_for j gs)) (F j)"

lemma touches_simps [simp]:
  "touches [] F = F" "touches ((i, ds) # gs) F = touches gs (touch i ds F)"
  by (auto simp: touches_def touch_def fun_eq_iff option.map_comp comp_def fold_deltas_append option.map_ident)

fun cache_groups :: "'c lru \<Rightarrow> (inode \<times> DeltaOp list) list \<Rightarrow> 'c cache \<Rightarrow> 'c cache" where
  "cache_groups L [] c = c"
| "cache_groups L ((i, ds) # gs) c = cache_groups L gs (cache_apply_deltas L i ds c)"

lemma cache_groups_append [simp]: "cache_groups L (gs @ gs') c = cache_groups L gs' (cache_groups L gs c)"
  by (induction L gs c rule: cache_groups.induct) simp_all

context lru_cache
begin

lemma groups_le:
  assumes "length c = 16" and "lookup c \<subseteq>\<^sub>m F"
  shows "lookup (cache_groups L gs c) \<subseteq>\<^sub>m touches gs F \<and> length (cache_groups L gs c) = 16"
  using assms
proof (induction gs arbitrary: c F)
  case (Cons g gs)
  obtain i ds where g: "g = (i, ds)" by (cases g)
  show ?case
    unfolding g using Cons.IH [OF lookup_apply_deltas(2) [OF Cons.prems(1)] apply_deltas_le [OF Cons.prems]] by simp
qed simp

end

section \<open>The specification\<close>

text \<open>
  The entry moves, the change time of the moved object is updated, the parents' deltas are applied.
  A file that was at the target loses a link and goes away with the last one (it is then reported
  for the deletion of its data); an empty directory at the target loses its name.
\<close>

definition spec_rename :: "inode \<Rightarrow> str \<Rightarrow> inode \<Rightarrow> str \<Rightarrow> afs \<Rightarrow> RenameResponse \<Rightarrow> afs \<Rightarrow> bool" where
  "spec_rename p n p' n' A a A' \<longleftrightarrow>
     (\<exists>src m iv ts. af_names A p n = Some (src, m) \<and> af_attrs A src = Some iv \<and>
        (\<forall>d dm. af_names A p' n' = Some (d, dm) \<longrightarrow> is_dir dm = is_dir (iv_mode iv) \<and>
           (is_dir dm \<longrightarrow> (\<forall>x. af_names A d x = None))) \<and>
        af_names A' = rename_entries p n p' n' src (iv_mode iv) (af_names A) \<and>
        (\<forall>j. j \<noteq> src \<longrightarrow> (\<forall>dm. af_names A p' n' \<noteq> Some (j, dm)) \<longrightarrow>
           af_attrs A' j = touches (rename_groups p p' (is_dir (iv_mode iv)) (is_dir (iv_mode iv) \<and> af_names A p' n' \<noteq> None) ts)
             (af_attrs A) j) \<and>
        (\<not> is_dir (iv_mode iv) \<longrightarrow> af_attrs A' src = Some (iv\<lparr>iv_ctime := ts\<rparr>)) \<and>
        (\<forall>d dm. af_names A p' n' = Some (d, dm) \<longrightarrow> \<not> is_dir dm \<longrightarrow> d \<noteq> src \<longrightarrow>
           (\<exists>dv. af_attrs A d = Some dv \<and> af_attrs A' d =
              (if iv_nlink dv > 1 then Some (dv\<lparr>iv_nlink := iv_nlink dv - 1, iv_ctime := ts\<rparr>) else None))) \<and>
        af_target A' = af_target A \<and>
        rr_purged_inodes a = (case af_names A p' n' of
            None \<Rightarrow> []
          | Some (d, dm) \<Rightarrow> if \<not> is_dir dm \<and> (\<exists>dv. af_attrs A d = Some dv \<and> \<not> iv_nlink dv > 1) then [d] else []))"

definition rename_refused :: "inode \<Rightarrow> str \<Rightarrow> inode \<Rightarrow> str \<Rightarrow> view \<Rightarrow> FsError \<Rightarrow> bool" where
  "rename_refused p n p' n' V e \<longleftrightarrow>
     e = NameTooLong \<and> (NAME_MAX < length n \<or> NAME_MAX < length n') \<or> rename_error V p n p' n' e"

context rocksdb
begin

lemma renamed_target: "renamed view L p n p' n' res s s' \<Longrightarrow>
  af_target (abs_fs (view (kv_db s'))) = af_target (abs_fs (view (kv_db s)))"
proof (erule renamedE)
  fix src m iv dst ws c
  assume eff: "dst_effect (view (kv_db s)) (rn_src_is_dir res) dst (rn_ts res) ws (rn_delete_inode res) (rn_dst_was_dir res)"
    and cl: "cleared c (apply_writes (group_writes (seq_of s)
          (rename_groups p p' (rn_src_is_dir res) (rn_dst_was_dir res) (rn_ts res)))
        (apply_writes (ws @ rename_writes p n p' n' src iv dst (rn_delete_inode res) (rn_ts res)) (view (kv_db s))))
      (group_seqs (seq_of s) (rename_groups p p' (rn_src_is_dir res) (rn_dst_was_dir res) (rn_ts res)))
      (view (kv_db s')) (seq_of s')"
  show ?thesis
    by (rule target_after [OF cl], use eff in \<open>cases dst\<close>)
      (auto simp: dst_effect_def rename_writes_def split: if_splits)
qed

text \<open>What the result of the closure says about the target.\<close>

lemma renamed_result:
  assumes u: "renamed view L p n p' n' res s s'" and e: "dirent (view (kv_db s)) p n = Some (src, m)"
    and iv: "stored (view (kv_db s)) src = Some iv"
  shows "rn_src_is_dir res = is_dir (iv_mode iv)"
    and "rn_dst_was_dir res = (is_dir (iv_mode iv) \<and> dirent (view (kv_db s)) p' n' \<noteq> None)"
    and "\<forall>d dm. dirent (view (kv_db s)) p' n' = Some (d, dm) \<longrightarrow> is_dir dm = is_dir (iv_mode iv) \<and>
      (if is_dir dm then dir_empty (view (kv_db s)) d else stored (view (kv_db s)) d \<noteq> None)"
    and "rn_delete_inode res = (case dirent (view (kv_db s)) p' n' of
        None \<Rightarrow> None
      | Some (d, dm) \<Rightarrow> if \<not> is_dir dm \<and> (\<exists>dv. stored (view (kv_db s)) d = Some dv \<and> \<not> iv_nlink dv > 1) then Some d else None)"
proof -
  obtain ws where "rn_src_is_dir res = is_dir (iv_mode iv)"
    and "dst_effect (view (kv_db s)) (rn_src_is_dir res) (dirent (view (kv_db s)) p' n') (rn_ts res) ws
      (rn_delete_inode res) (rn_dst_was_dir res)"
    using u e iv by (auto elim: renamedE)
  then show "rn_src_is_dir res = is_dir (iv_mode iv)"
    "rn_dst_was_dir res = (is_dir (iv_mode iv) \<and> dirent (view (kv_db s)) p' n' \<noteq> None)"
    "\<forall>d dm. dirent (view (kv_db s)) p' n' = Some (d, dm) \<longrightarrow> is_dir dm = is_dir (iv_mode iv) \<and>
      (if is_dir dm then dir_empty (view (kv_db s)) d else stored (view (kv_db s)) d \<noteq> None)"
    "rn_delete_inode res = (case dirent (view (kv_db s)) p' n' of
        None \<Rightarrow> None
      | Some (d, dm) \<Rightarrow> if \<not> is_dir dm \<and> (\<exists>dv. stored (view (kv_db s)) d = Some dv \<and> \<not> iv_nlink dv > 1) then Some d else None)"
    by (cases "dirent (view (kv_db s)) p' n'"; auto simp: dst_effect_def split: if_splits)+
qed

lemma rename_spec:
  assumes u: "renamed view L p n p' n' res s s'" and inv: "server_inv view s" and room: "room 7 s"
    and p': "dir_at (stored (view (kv_db s))) p'"
  shows "server_inv view s'"
    and "spec_rename p n p' n' (abs_fs (view (kv_db s)))
      \<lparr>rr_purged_inodes = (case rn_delete_inode res of Some i \<Rightarrow> [i] | None \<Rightarrow> [])\<rparr> (abs_fs (view (kv_db s')))"
proof (atomize (full), rule inv_renamed [OF u inv room p'])
  fix src m and iv :: InodeValue
  let ?V = "view (kv_db s)" and ?V' = "view (kv_db s')"
  let ?gs = "rename_groups p p' (is_dir (iv_mode iv)) (rn_dst_was_dir res) (rn_ts res)"
  assume e: "dirent ?V p n = Some (src, m)" and iv: "stored ?V src = Some iv" and inv': "server_inv view s'"
    and d': "dirent ?V' = rename_entries p n p' n' src (iv_mode iv) (dirent ?V)"
    and st: "stored ?V' = (dst_inodes (is_dir (iv_mode iv)) (dirent ?V p' n') (rn_ts res) (stored ?V))(src \<mapsto> iv\<lparr>iv_ctime := rn_ts res\<rparr>)"
    and eff: "\<And>j. \<not> (\<exists>dm. dirent ?V p' n' = Some (j, dm)) \<or> pending ?V j = [] \<and> deltas_for j ?gs = [] \<Longrightarrow>
       effective ?V' j = map_option (\<lambda>b. fold_deltas b (decode_deltas (pending ?V j) @ deltas_for j ?gs)) (stored ?V' j)"
  note res = renamed_result [OF u e iv]
  let ?iv = "fold_deltas iv (decode_deltas (pending ?V src))"
  have other: "effective ?V' j = touches ?gs (effective ?V) j"
    if "j \<noteq> src" "\<forall>dm. dirent ?V p' n' \<noteq> Some (j, dm)" for j
  proof -
    have "stored ?V' j = stored ?V j" using that by (auto simp: st dst_inodes_def split: option.split)
    with eff [of j] that show ?thesis
      by (simp add: touches_def effective_def fold_deltas_append option.map_comp comp_def)
  qed
  have kept: "effective ?V' j = stored ?V' j" if "\<And>jv. stored ?V' j = Some jv \<Longrightarrow> \<not> is_dir (iv_mode jv)" for j
  proof (cases "stored ?V' j")
    case (Some jv)
    with server_inv_file(2) [OF inv' Some that [OF Some]] show ?thesis by simp
  qed (simp add: effective_def)
  have target: "effective ?V d = stored ?V d" "\<And>dv. stored ?V d = Some dv \<Longrightarrow> \<not> is_dir (iv_mode dv)"
    if d: "dirent ?V p' n' = Some (d, dm)" "\<not> is_dir dm" for d dm
  proof -
    obtain dv where dv: "stored ?V d = Some dv" "\<not> is_dir (iv_mode dv)"
      using ns_okD [OF server_inv_ns [OF inv] d(1)] d(2) by metis
    then show "effective ?V d = stored ?V d" "\<And>dv. stored ?V d = Some dv \<Longrightarrow> \<not> is_dir (iv_mode dv)"
      using server_inv_file(2) [OF inv dv] by simp_all
  qed
  have lost: "\<exists>dv. effective ?V d = Some dv \<and> effective ?V' d =
      (if iv_nlink dv > 1 then Some (dv\<lparr>iv_nlink := iv_nlink dv - 1, iv_ctime := rn_ts res\<rparr>) else None)"
    if d: "dirent ?V p' n' = Some (d, dm)" "\<not> is_dir dm" "d \<noteq> src" for d dm
  proof -
    from res(3) d obtain dv where dv: "stored ?V d = Some dv" and "\<not> is_dir (iv_mode iv)" by auto
    with target [OF d(1,2)] d have "stored ?V' d =
        (if iv_nlink dv > 1 then Some (dv\<lparr>iv_nlink := iv_nlink dv - 1, iv_ctime := rn_ts res\<rparr>) else None)"
      by (simp add: st dst_inodes_def)
    with kept [of d] target [OF d(1,2)] dv show ?thesis by (auto split: if_splits)
  qed
  have "spec_rename p n p' n' (abs_fs ?V) \<lparr>rr_purged_inodes = (case rn_delete_inode res of Some i \<Rightarrow> [i] | None \<Rightarrow> [])\<rparr> (abs_fs ?V')"
    unfolding spec_rename_def
  proof (rule exI [of _ src], rule exI [of _ m], rule exI [of _ ?iv], rule exI [of _ "rn_ts res"], intro conjI allI impI)
    show "af_attrs (abs_fs ?V') src = Some (?iv\<lparr>iv_ctime := rn_ts res\<rparr>)" if "\<not> is_dir (iv_mode ?iv)"
      using kept [of src] that server_inv_file(1) [OF inv iv] by (simp add: abs_fs_def st)
    show "rr_purged_inodes \<lparr>rr_purged_inodes = (case rn_delete_inode res of Some i \<Rightarrow> [i] | None \<Rightarrow> [])\<rparr> =
      (case af_names (abs_fs ?V) p' n' of None \<Rightarrow> [] | Some (d, dm) \<Rightarrow>
         if \<not> is_dir dm \<and> (\<exists>dv. af_attrs (abs_fs ?V) d = Some dv \<and> \<not> iv_nlink dv > 1) then [d] else [])"
      using res(4) target(1) by (auto simp: abs_fs_def split: option.splits if_splits)
  qed (use e iv res(2,3) d' other lost renamed_target [OF u] in
      \<open>auto simp: abs_fs_def effective_def [of ?V src] dir_empty_dirent\<close>)
  with inv' show "server_inv view s' \<and> spec_rename p n p' n' (abs_fs ?V)
      \<lparr>rr_purged_inodes = (case rn_delete_inode res of Some i \<Rightarrow> [i] | None \<Rightarrow> [])\<rparr> (abs_fs ?V')" by blast
qed

text \<open>The steps after the transaction touch the cache and the dirty set only.\<close>

lemma server_inv_cong:
  assumes "kv_db s' = kv_db s" and "kv_seqs s' = kv_seqs s" and "sv_alloc s' = sv_alloc s"
    and "sv_pending_deletes s' = sv_pending_deletes s"
  shows "server_inv view s' = server_inv view s"
  using assms by (simp add: server_inv_def)

lemma wp_rename:
  fixes s :: "('db, 'txn, 'c, 'z) server_scheme"
  assumes inv: "server_inv view s" and room: "room 21 s" and p': "dir_at (stored (view (kv_db s))) p'"
  shows "wp (rename R L p n p' n') (\<lambda>r s'. implements view (spec_rename p n p' n') (rename_refused p n p' n') s r s') s"
proof (cases "NAME_MAX < length n \<or> NAME_MAX < length n'")
  case True
  then show ?thesis
    unfolding rename_def
    by (auto simp: wp_bind [of "validate_name n"] wp_bind [of "validate_name n'"] wp_validate_name rename_refused_def
        intro!: implements_quiet(1) [OF quiet_refl inv room])
next
  case False
  let ?Q = "\<lambda>r s'. implements view (spec_rename p n p' n') (rename_refused p n p' n') s r s'"
  define T where "T = (\<lambda>(s :: ('db, 'txn, 'c, 'z) server_scheme) r s'. (\<forall>res. r = Ok res \<longrightarrow> renamed view L p n p' n' res s s') \<and>
     (\<forall>e. r = Err e \<longrightarrow> rename_error (view (kv_db s)) p n p' n' e) \<and> (\<not> is_ok r \<longrightarrow> quiet view 7 s s'))"
  have tail: "wp (bind (execute_with_retry (rename_txn R L p n p' n')) k) ?Q s"
    if k: "\<And>res s2. (\<And>s'. kv_db s' = kv_db s2 \<Longrightarrow> kv_seqs s' = kv_seqs s2 \<Longrightarrow> sv_alloc s' = sv_alloc s2 \<Longrightarrow>
        sv_pending_deletes s' = sv_pending_deletes s2 \<Longrightarrow>
        ?Q (Ok \<lparr>rr_purged_inodes = (case rn_delete_inode res of Some i \<Rightarrow> [i] | None \<Rightarrow> [])\<rparr>) s') \<Longrightarrow> wp (k res) ?Q s2" for k
  proof (rule wp_retry_bind [where view = view and T = T and n = 7])
    show "wp (rename_txn R L p n p' n') (T s0) s0" for s0 unfolding T_def by (rule wp_rename_txn)
    show "quiet view 7 s0 s'" if "T s0 r s'" "\<not> is_ok r" for s0 r s' using that by (simp add: T_def)
    show "?Q (Panic q) s2" if "quiet view (3 * 7) s s2" for q s2
      by (rule implements_quiet(1) [OF _ inv room]) (use that in simp_all)
    show "?Q (Err e) s2" if "quiet view (2 * 7) s s1" "T s1 (Err e) s2" "quiet view (3 * 7) s s2" for e s1 s2
      by (rule implements_quiet(1) [OF _ inv room]) (use that in \<open>auto simp: T_def rename_refused_def quiet_def\<close>)
    fix res s1 s2
    assume q: "quiet view (2 * 7) s s1" and t: "T s1 (Ok res) s2"
    then have u: "renamed view L p n p' n' res s1 s2" and q14: "quiet view 14 s s1" by (simp_all add: T_def)
    have same: "view (kv_db s1) = view (kv_db s)" using q by (simp add: quiet_def)
    have inv1: "server_inv view s1" by (rule server_inv_quiet [OF inv q14 room_mono [OF room]]) simp
    have r7: "room 7 s1" by (rule room_quiet [OF q14]) (use room in simp)
    note c = rename_spec [OF u inv1 r7, unfolded same, OF p']
    show "wp (k res) ?Q s2"
    proof (rule k)
      fix s' :: "('db, 'txn, 'c, 'z) server_scheme"
      assume "kv_db s' = kv_db s2" "kv_seqs s' = kv_seqs s2" "sv_alloc s' = sv_alloc s2"
        "sv_pending_deletes s' = sv_pending_deletes s2"
      with c server_inv_cong [OF this] show "?Q (Ok \<lparr>rr_purged_inodes = (case rn_delete_inode res of Some i \<Rightarrow> [i] | None \<Rightarrow> [])\<rparr>) s'"
        by (simp add: implements_def)
    qed
  qed
  from False show ?thesis
    unfolding rename_def
    by (simp add: wp_bind [of "validate_name n"] wp_bind [of "validate_name n'"] wp_validate_name)
      (rule tail, auto simp: wp_simps when_op_def Let_def)
qed

end

end
