(* ===== verification/Server_Steps.thy ===== *)
theory Server_Steps
  imports Server_Rename_Correct
begin

unbundle bit_operations_syntax

text \<open>
  The remaining operations of the metadata server (reading, opening, closing, compaction) against the
  abstract file system, and the server as a transition system: the states reachable from a fresh
  store by any sequence of requests and compactions, successful or not, satisfy the invariant of the
  namespace.
\<close>

section \<open>Opening and closing\<close>

definition spec_open :: "inode \<Rightarrow> u32 \<Rightarrow> afs \<Rightarrow> OpenResponse \<Rightarrow> afs \<Rightarrow> bool" where
  "spec_open i flags A a A' \<longleftrightarrow> or_handle a = i \<and>
     (A' = A \<or> flags AND O_TRUNC \<noteq> 0 \<and>
        spec_update i (\<lambda>ts iv iv' u. iv' = iv\<lparr>iv_size := 0, iv_mtime := ts, iv_ctime := ts\<rparr>) A () A')"

definition spec_release :: "inode \<Rightarrow> bool \<Rightarrow> afs \<Rightarrow> ReleaseResponse \<Rightarrow> afs \<Rightarrow> bool" where
  "spec_release i doomed A a A' \<longleftrightarrow>
     (if doomed then a = \<lparr>lr_purged_inodes = [i]\<rparr> \<and> A' = A\<lparr>af_attrs := (af_attrs A)(i := None)\<rparr>
      else a = \<lparr>lr_purged_inodes = []\<rparr> \<and> A' = A)"

text \<open>The last handle of an inode whose deletion was deferred.\<close>

definition last_handle :: "('db, 'txn, 'c, 'z) server_scheme \<Rightarrow> inode \<Rightarrow> bool" where
  "last_handle s i \<longleftrightarrow> (\<exists>c. sv_open_handles s i = Some c \<and> c \<le> 1) \<and> i \<in> sv_pending_deletes s"

definition open_error :: "inode \<Rightarrow> view \<Rightarrow> FsError \<Rightarrow> bool" where
  "open_error i V e \<longleftrightarrow> update_error i V e \<or> load_error i V e \<or> e = IsADirectory"

lemma check_and_clear_result:
  assumes "check_and_clear_deferred_delete i s = (r, s')"
  shows "r = Ok (last_handle s i)" and "kv_db s' = kv_db s" "kv_seqs s' = kv_seqs s" "sv_alloc s' = sv_alloc s"
    "cw_cache s' = cw_cache s" "sv_pending_deletes s' = sv_pending_deletes s \<or> sv_pending_deletes s' = sv_pending_deletes s - {i}"
    "last_handle s i \<Longrightarrow> sv_pending_deletes s' = sv_pending_deletes s - {i}"
proof -
  have zero: "c - 1 = 0 \<longleftrightarrow> c \<le> 1" if "c \<noteq> 0" for c :: u32
    using that by (metis diff_zero right_minus_eq word_le_less_eq word_less_1)
  have le: "(if c = 0 then 0 else c - 1) = 0 \<longleftrightarrow> c \<le> 1" for c :: u32
    using zero [of c] by (cases "c = 0") simp_all
  have run: "(r, s') = (case sv_open_handles s i of
      None \<Rightarrow> (Ok False, s)
    | Some c \<Rightarrow> if c \<le> 1 then (Ok (i \<in> sv_pending_deletes s),
          s\<lparr>sv_open_handles := (sv_open_handles s)(i := None), sv_pending_deletes := sv_pending_deletes s - {i}\<rparr>)
        else (Ok False, s\<lparr>sv_open_handles := (sv_open_handles s)(i \<mapsto> (if c = 0 then 0 else c - 1))\<rparr>))"
    unfolding assms [symmetric] check_and_clear_deferred_delete_def Let_def le by (rule refl)
  show "r = Ok (last_handle s i)" "kv_db s' = kv_db s" "kv_seqs s' = kv_seqs s" "sv_alloc s' = sv_alloc s"
    "cw_cache s' = cw_cache s" "sv_pending_deletes s' = sv_pending_deletes s \<or> sv_pending_deletes s' = sv_pending_deletes s - {i}"
    "last_handle s i \<Longrightarrow> sv_pending_deletes s' = sv_pending_deletes s - {i}"
    using run by (cases "sv_open_handles s i"; simp add: last_handle_def split: if_splits)+
qed

context rocksdb
begin

lemma server_inv_fewer:
  assumes "server_inv view s" and "kv_db s' = kv_db s" "kv_seqs s' = kv_seqs s" "sv_alloc s' = sv_alloc s"
    and "sv_pending_deletes s' \<subseteq> sv_pending_deletes s"
  shows "server_inv view s'"
  using assms unfolding server_inv_def contents_ok_def ns_ok_def by (simp add: subset_iff)

text \<open>Closing: the deferred deletion happens with the last handle.\<close>

lemma release_done:
  assumes q: "quiet view 8 s s1" and inv: "server_inv view s" and room: "room 8 s" and i: "refs (dirent (view (kv_db s))) i = {}" "\<not> dir_at (stored (view (kv_db s))) i"
    and v2: "view (kv_db s2) = apply_writes [(CF_INODES, encode_inode_key i, None), (CF_INODES, encode_data_location_key i, None)] (view (kv_db s1))"
    and rest: "seq_of s2 = seq_of s1" "sv_alloc s2 = sv_alloc s1" "sv_pending_deletes s2 = sv_pending_deletes s1"
    and s': "cleared i (view (kv_db s2)) (seq_of s2) (view (kv_db s')) (seq_of s')" "sv_alloc s' = sv_alloc s2" "sv_pending_deletes s' = sv_pending_deletes s2"
  shows "server_inv view s'" and "abs_fs (view (kv_db s')) = (abs_fs (view (kv_db s)))\<lparr>af_attrs := (af_attrs (abs_fs (view (kv_db s))))(i := None)\<rparr>"
proof -
  have same: "view (kv_db s1) = view (kv_db s)" using q by (simp add: quiet_def)
  have inv1: "server_inv view s1" by (rule server_inv_quiet [OF inv q room])
  have r0: "room 0 s1" by (rule room_quiet [OF q]) (use room in simp)
  have out: "cleared i (apply_writes [(CF_INODES, encode_inode_key i, None), (CF_INODES, encode_data_location_key i, None)]
       (view (kv_db s1))) (seq_of s1) (view (kv_db s')) (seq_of s')" using s'(1) v2 rest by simp
  note c = inv_released [OF inv1 r0 i [folded same] out]
  show "server_inv view s'" using c(1) rest s' by (simp add: server_inv_def)
  have "view (kv_db s') CF_INODES (encode_symlink_key j) = view (kv_db s) CF_INODES (encode_symlink_key j)" for j
    using cleared_other_cf [OF out, of CF_INODES] same by simp
  then show "abs_fs (view (kv_db s')) = (abs_fs (view (kv_db s)))\<lparr>af_attrs := (af_attrs (abs_fs (view (kv_db s))))(i := None)\<rparr>"
    using c(2,3) same by (simp add: abs_fs_def del: fun_upd_apply)
qed

lemma wp_release:
  fixes s :: "('db, 'txn, 'c, 'z) server_scheme"
  assumes inv: "server_inv view s" and room: "room 12 s"
  shows "wp (release R L i) (implements view (spec_release i (last_handle s i)) (\<lambda>V. txn_error) s) s"
proof -
  obtain r0 s0 where cc: "check_and_clear_deferred_delete i s = (r0, s0)" by fastforce
  note c = check_and_clear_result [OF cc]
  have inv0: "server_inv view s0" by (rule server_inv_fewer [OF inv]) (use c in auto)
  have room0: "room 12 s0" using room c by (simp add: room_def)
  let ?Q = "implements view (spec_release i (last_handle s i)) (\<lambda>V. txn_error) s"
  have Q0: "?Q r s'" if "implements view (spec_release i (last_handle s i)) (\<lambda>V. txn_error) s0 r s'" for r s'
    using that c(2) by (cases r) (simp_all add: implements_def)
  show ?thesis
  proof (cases "last_handle s i")
    case False
    have "?Q (Ok \<lparr>lr_purged_inodes = []\<rparr>) s0" using False inv0 c(2) by (simp add: implements_def spec_release_def)
    then show ?thesis using False c(1) by (simp add: wp_def release_def bind_def ret_def cc)
  next
    case True
    then have "i \<in> sv_pending_deletes s" by (simp add: last_handle_def)
    then have i: "refs (dirent (view (kv_db s0))) i = {}" "\<not> dir_at (stored (view (kv_db s0))) i"
      using ns_ok_simps(5,6) [OF server_inv_ns [OF inv]] c(2) by auto
    define T where "T = (\<lambda>(s :: ('db, 'txn, 'c, 'z) server_scheme) r s'. (r = Ok () \<longrightarrow>
        view (kv_db s') = apply_writes [(CF_INODES, encode_inode_key i, None),
          (CF_INODES, encode_data_location_key i, None)] (view (kv_db s)) \<and>
        same_rest s s' \<and> cw_cache s' = cw_cache s \<and> seq_of s' = seq_of s \<and> sv_alloc s' = sv_alloc s) \<and>
      (\<forall>e. r = Err e \<longrightarrow> txn_error e) \<and> (\<not> is_ok r \<longrightarrow> quiet view 4 s s'))"
    have "wp (bind (execute_with_retry (release_txn R i)) (\<lambda>_. bind (ignore (clear_deltas R i)) (\<lambda>_.
        bind (sc_invalidate L i) (\<lambda>_. ret \<lparr>lr_purged_inodes = [i]\<rparr>)))) ?Q s0"
    proof (rule wp_retry_bind [where view = view and T = T and n = 4])
      show "wp (release_txn R i) (T t) t" for t unfolding T_def by (rule wp_release_txn)
      show "quiet view 4 t t'" if "T t r t'" "\<not> is_ok r" for t r t' using that by (simp add: T_def)
      show "?Q (Panic q) s2" if "quiet view (3 * 4) s0 s2" for q s2
        by (rule Q0 [OF implements_quiet(1) [OF _ inv0 room0]]) (use that in simp_all)
      show "?Q (Err e) s2" if "quiet view (2 * 4) s0 s1" "T s1 (Err e) s2" "quiet view (3 * 4) s0 s2" for e s1 s2
        by (rule Q0 [OF implements_quiet(1) [OF _ inv0 room0]]) (use that in \<open>auto simp: T_def\<close>)
      fix a s1 s2
      assume "quiet view (2 * 4) s0 s1" and t: "T s1 (Ok a) s2"
      then have q: "quiet view 8 s0 s1" by simp
      have r8: "room 8 s0" by (rule room_mono [OF room0]) simp
      from t have v2: "view (kv_db s2) = apply_writes [(CF_INODES, encode_inode_key i, None),
          (CF_INODES, encode_data_location_key i, None)] (view (kv_db s1))"
        and rest: "seq_of s2 = seq_of s1" "sv_alloc s2 = sv_alloc s1" "sv_pending_deletes s2 = sv_pending_deletes s1"
        by (simp_all add: T_def same_rest_def)
      have ok: "?Q (Ok \<lparr>lr_purged_inodes = [i]\<rparr>) s'"
        if "cleared i (view (kv_db s2)) (seq_of s2) (view (kv_db s')) (seq_of s')" "sv_alloc s' = sv_alloc s2"
          "sv_pending_deletes s' = sv_pending_deletes s2" for s' :: "('db, 'txn, 'c, 'z) server_scheme"
        by (rule Q0) (use release_done [OF q inv0 r8 i v2 rest that] True in \<open>simp add: implements_def spec_release_def\<close>)
      show "wp (bind (ignore (clear_deltas R i)) (\<lambda>_. bind (sc_invalidate L i) (\<lambda>_. ret \<lparr>lr_purged_inodes = [i]\<rparr>))) ?Q s2"
        by (auto simp: wp_simps intro!: wp_clear_deltas ok) (auto simp: cleared_def)
    qed
    then show ?thesis using True c(1) by (simp add: wp_def release_def bind_def [of "check_and_clear_deferred_delete i"] cc)
  qed
qed

text \<open>Opening: at most a truncation, then the handle is counted.\<close>

lemma implements_from:
  assumes "implements view okp errp s1 r s'" and "view (kv_db s1) = view (kv_db s)"
  shows "implements view okp errp s r s'"
  using assms by (cases r) (simp_all add: implements_def)

lemma server_inv_handles [simp]: "server_inv view (s\<lparr>sv_open_handles := h\<rparr>) = server_inv view s"
  by (simp add: server_inv_def)

lemma wp_open:
  fixes s :: "('db, 'txn, 'c, 'z) server_scheme"
  assumes L: "lru_cache L entries cap" and inv: "server_inv view s" and room: "room 12 s"
  shows "wp (open_op R L i flags) (implements_late view (spec_open i flags) (open_error i) s) s" (is "wp _ ?Q s")
proof -
  let ?g = "\<lambda>ts iv iv' (u :: unit). iv' = iv\<lparr>iv_size := 0, iv_mtime := ts, iv_ctime := ts\<rparr>"
  have trunc: "wp (execute_with_retry (open_trunc_txn R L i)) (implements view (spec_update i ?g) (update_error i) s1) s1"
    if "server_inv view s1" "room 12 s1" for s1 :: "('db, 'txn, 'c, 'z) server_scheme"
  proof -
    have "wp (bind (execute_with_retry (open_trunc_txn R L i)) ret)
      (\<lambda>r s'. implements view (spec_update i ?g) (update_error i) s1 r s' \<and>
        (pending (view (kv_db s1)) i = [] \<longrightarrow> keeps_coherent entries view s1 r s')) s1"
      by (rule wp_update_op [OF L that wp_open_trunc_txn, where h = "\<lambda>u. u"]) (auto simp: wp_simps)
    then show ?thesis by (simp add: wp_mono)
  qed
  have fin: "wp (bind (inc_open_handles i) (\<lambda>_. bind (meta_get R (encode_data_location_key i)) (\<lambda>v.
       bind (gets (\<lambda>s. server_id (sv_default_loc s))) (\<lambda>dflt.
       let sid = (case v of Some bytes \<Rightarrow> (if utf8_valid bytes then bytes else dflt) | None \<Rightarrow> dflt) in
       ret \<lparr>or_handle = i, or_data_location = \<lparr>server_id = sid\<rparr>\<rparr>)))) ?Q s2"
    if inv2: "server_inv view s2" and spec: "\<And>a. or_handle a = i \<Longrightarrow> spec_open i flags (abs_fs (view (kv_db s))) a (abs_fs (view (kv_db s2)))"
    for s2 :: "('db, 'txn, 'c, 'z) server_scheme"
  proof -
    have ok: "?Q (Ok a) s3" if "view (kv_db s3) = view (kv_db s2)" "server_inv view s3" "or_handle a = i" for a s3
      using that spec by (auto simp: implements_late_def implements_def)
    have late: "?Q (Err (Io m)) s3" if "view (kv_db s3) = view (kv_db s2)" "server_inv view s3" for m s3
      using that spec [of "\<lparr>or_handle = i, or_data_location = \<lparr>server_id = []\<rparr>\<rparr>"]
      unfolding implements_late_def by auto
    have h: "server_inv view (s2\<lparr>sv_open_handles := h, kv_db := d\<rparr>)" if "view d = view (kv_db s2)" for d h
      using inv2 that by (simp add: server_inv_def)
    show ?thesis
      by (auto simp: wp_simps Let_def intro!: wp_meta_get ok late h)
  qed
  show ?thesis
    unfolding open_op_def wp_bind
  proof (rule wp_load_inode [OF L])
    fix e s1
    assume "reads view s s1" "load_error i (view (kv_db s)) e"
    then show "andthen f ?Q (Err e) s1" for f
      using inv server_inv_reads [of view s s1] reads_view [of view s s1]
      by (simp add: implements_late_def implements_def open_error_def)
  next
    fix iv s1
    assume rd: "reads view s s1"
    then have v1: "view (kv_db s1) = view (kv_db s)" and inv1: "server_inv view s1" and room1: "room 12 s1"
      using inv room by (auto simp: reads_def server_inv_def room_def)
    let ?rest = "\<lambda>_ :: unit. bind (inc_open_handles i) (\<lambda>_. bind (meta_get R (encode_data_location_key i)) (\<lambda>v.
       bind (gets (\<lambda>s. server_id (sv_default_loc s))) (\<lambda>dflt.
       let sid = (case v of Some bytes \<Rightarrow> (if utf8_valid bytes then bytes else dflt) | None \<Rightarrow> dflt) in
       ret \<lparr>or_handle = i, or_data_location = \<lparr>server_id = sid\<rparr>\<rparr>)))"
    have keep: "wp (?rest u) ?Q s1" for u by (rule fin [OF inv1]) (simp add: v1 spec_open_def)
    have cut: "wp (bind (execute_with_retry (open_trunc_txn R L i)) ?rest) ?Q s1" if "flags AND O_TRUNC \<noteq> 0"
      unfolding wp_bind
    proof (rule wp_mono [OF trunc [OF inv1 room1]])
      fix r s2
      assume i2: "implements view (spec_update i ?g) (update_error i) s1 r s2"
      then show "andthen ?rest ?Q r s2"
      proof (cases r)
        case (Ok u)
        show ?thesis
          unfolding Ok andthen.simps
          by (rule fin) (use i2 that v1 Ok in \<open>auto simp: implements_def spec_open_def\<close>)
      qed (use that v1 in \<open>auto simp: implements_def implements_late_def open_error_def\<close>)
    qed
    show "andthen (\<lambda>iv. if is_dir (iv_mode iv) then throw IsADirectory
      else bind (when_op (flags AND O_TRUNC \<noteq> 0 \<and> iv_size iv > 0) (execute_with_retry (open_trunc_txn R L i))) ?rest) ?Q (Ok iv) s1"
      using keep cut inv1 v1
      by (auto simp: when_op_def wp_throw implements_late_def implements_def open_error_def)
  qed
qed

lemma wp_create_and_open:
  assumes "lru_cache L entries cap" and "server_inv view s" and "room 12 s" and "dir_at (stored (view (kv_db s))) p"
  shows "wp (create_and_open R L p n mode uid gid flags)
    (implements_late view (\<lambda>A a. spec_create p n mode uid gid A (co_attr a)) (enter_error p n) s) s"
  unfolding create_and_open_def wp_bind
proof (rule wp_mono [OF wp_create [OF assms]])
  fix r s1
  assume c: "implements_late view (spec_create p n mode uid gid) (enter_error p n) s r s1 \<and> keeps_coherent entries view s r s1"
  show "andthen (\<lambda>attr. bind (inc_open_handles (fa_inode attr)) (\<lambda>_. bind (gets sv_default_loc) (\<lambda>loc.
      ret \<lparr>co_attr = attr, co_handle = fa_inode attr, co_data_location = loc\<rparr>)))
    (implements_late view (\<lambda>A a. spec_create p n mode uid gid A (co_attr a)) (enter_error p n) s) r s1"
  proof (cases r)
    case (Err e)
    have ex: "\<exists>a :: CreateAndOpenResponse. P (co_attr a)" if "P x" for P x
      by (rule exI [of _ "\<lparr>co_attr = x, co_handle = 0, co_data_location = \<lparr>server_id = []\<rparr>\<rparr>"]) (use that in simp)
    show ?thesis using c Err by (auto simp: implements_late_def implements_def dest: ex)
  qed (use c in \<open>auto simp: wp_simps implements_late_def implements_def\<close>)
qed

text \<open>Compaction of one inode keeps the invariant and what clients see.\<close>

lemma contents_ok_compacted:
  assumes ok: "contents_ok V sq next pd" and fin: "finite (dom (V CF_DELTA_ENTRIES))"
    and raw: "V CF_INODES (encode_inode_key i) = Some raw" "deserialize raw = Ok b"
  shows "contents_ok (compacted i (scan (V CF_DELTA_ENTRIES) (delta_prefix i)) b V) sq next pd"
    (is "contents_ok ?V' sq next pd")
proof -
  let ?ds = "decode_deltas (map snd (scan (V CF_DELTA_ENTRIES) (delta_prefix i)))"
  have st: "stored V i = Some b" using raw by (simp add: stored_def)
  have st': "stored ?V' = (stored V)(i \<mapsto> fold_deltas b ?ds)"
    using deserialize_version [OF raw(2)] by (simp add: fun_eq_iff stored_compacted)
  have sc: "scan (V CF_DELTA_ENTRIES) (delta_prefix i) = scan (V CF_DELTA_ENTRIES) (delta_prefix i) @ []" by simp
  have pend: "pending ?V' j = (if j = i then [] else pending V j)" for j using pending_compacted [where V = V, OF fin sc] by simp
  have d': "dirent ?V' = dirent V" by (simp add: dirent_def compacted_apply fun_eq_iff)
  have nods: "?ds = []" if "\<not> is_dir (iv_mode b)"
  proof -
    have "pending V i = []" using ok st that by (auto simp: contents_ok_def dir_at_def)
    then show ?thesis unfolding pending_def by (simp add: decode_deltas_def map_filter_def)
  qed
  have ns: "ns_ok (dirent V) ((stored V)(i \<mapsto> fold_deltas b ?ds)) next pd"
    by (rule ns_ok_update [where S = "stored V", OF _ st]) (use ok nods in \<open>auto simp: contents_ok_def max_refs_def\<close>)
  have "delta_inv ?V' sq" using ok unfolding contents_ok_def delta_inv_def by (auto simp: compacted_apply split: if_splits)
  then show ?thesis using ok ns unfolding contents_ok_def pend d' st' by (auto simp: dir_at_def st)
qed

lemma wp_force_compact_inv:
  assumes inv: "server_inv view s"
  shows "wp (force_compact_inode R L i) (\<lambda>r s'. server_inv view s' \<and> abs_fs (view (kv_db s')) = abs_fs (view (kv_db s))) s"
proof (rule wp_force_compact_inode)
  let ?V = "view (kv_db s)"
  fix d t raw b
  assume raw: "?V CF_INODES (encode_inode_key i) = Some raw" "deserialize raw = Ok b"
    and d: "view d = compacted i (scan (?V CF_DELTA_ENTRIES) (delta_prefix i)) b ?V"
  have "contents_ok (view d) (seq_of s) (ia_next (sv_alloc s)) (sv_pending_deletes s)"
    unfolding d by (rule contents_ok_compacted [where V = ?V, OF _ finite_view raw]) (use inv in \<open>simp add: server_inv_def\<close>)
  moreover have "abs_fs (view d) = abs_fs ?V"
    using compacting_scan [OF raw d] unfolding d compaction_rel_def
    by (simp add: abs_fs_def dirent_def compacted_apply fun_eq_iff)
  ultimately show "server_inv view (s\<lparr>kv_db := d, kv_txn := t, cw_cache := cache_invalidate L i (cw_cache s)\<rparr>) \<and>
      abs_fs (view (kv_db (s\<lparr>kv_db := d, kv_txn := t, cw_cache := cache_invalidate L i (cw_cache s)\<rparr>))) = abs_fs ?V"
    by (simp add: server_inv_def)
qed (use inv in \<open>auto simp: server_inv_def\<close>)

end

section \<open>Reading\<close>

text \<open>
  A read leaves contents and counters alone, keeps the cache coherent, and its answer satisfies \<open>P\<close>
  when the cache was coherent.
\<close>

definition reads_as ::
  "('c \<Rightarrow> inode \<Rightarrow> InodeValue option) \<Rightarrow> ('db \<Rightarrow> view) \<Rightarrow> ('a FsResult \<Rightarrow> bool)
   \<Rightarrow> ('db, 'txn, 'c, 'z) server_scheme \<Rightarrow> 'a FsResult \<Rightarrow> ('db, 'txn, 'c, 'z) server_scheme \<Rightarrow> bool" where
  "reads_as entries view P s r s' \<longleftrightarrow> reads view s s' \<and>
     (coherent entries view s \<longrightarrow> coherent entries view s' \<and> P r)"

lemma reads_asI:
  "reads view s s' \<Longrightarrow> (coherent entries view s \<longrightarrow> coherent entries view s' \<and> P r) \<Longrightarrow> reads_as entries view P s r s'"
  by (simp add: reads_as_def)

definition getattr_answer :: "view \<Rightarrow> inode \<Rightarrow> FileAttr FsResult \<Rightarrow> bool" where
  "getattr_answer V i r \<longleftrightarrow> (case r of
       Ok a \<Rightarrow> map_option to_attr (effective V i) = Some a
     | Err e \<Rightarrow> load_error i V e
     | Panic _ \<Rightarrow> False)"

definition lookup_answer :: "view \<Rightarrow> inode \<Rightarrow> str \<Rightarrow> FileAttr FsResult \<Rightarrow> bool" where
  "lookup_answer V p n r \<longleftrightarrow> (case r of
       Ok a \<Rightarrow> \<exists>c m. dirent V p n = Some (c, m) \<and> map_option to_attr (effective V c) = Some a
     | Err e \<Rightarrow> e = NameTooLong \<and> NAME_MAX < length n \<or> (\<exists>m. e = Io m) \<or>
         V CF_DIR_ENTRIES (encode_dir_entry_key p n) \<noteq> None \<and> dirent V p n = None \<and> e \<noteq> NotFound \<or>
         V CF_DIR_ENTRIES (encode_dir_entry_key p n) = None \<and> e = NotFound \<or>
         (\<exists>c m. dirent V p n = Some (c, m) \<and> load_error c V e)
     | Panic _ \<Rightarrow> False)"

definition readdir_answer :: "view \<Rightarrow> inode \<Rightarrow> DirEntry list FsResult \<Rightarrow> bool" where
  "readdir_answer V i r \<longleftrightarrow> (\<forall>es. r = Ok es \<longrightarrow> dir_at (effective V) i \<and> distinct (map de_name es) \<and>
     (\<forall>n c m. \<lparr>de_name = n, de_inode = c, de_kind = m\<rparr> \<in> set es \<longleftrightarrow> dirent V i n = Some (c, m)))"

definition readlink_answer :: "view \<Rightarrow> inode \<Rightarrow> str FsResult \<Rightarrow> bool" where
  "readlink_answer V i r \<longleftrightarrow> (case r of
       Ok t \<Rightarrow> af_target (abs_fs V) i = Some t \<and> utf8_valid t
     | Err e \<Rightarrow> load_error i V e \<or> (\<exists>m. e = Io m) \<or>
         e = InvalidInput ''not a symbolic link'' \<and> (\<exists>iv. effective V i = Some iv \<and> \<not> is_symlink (iv_mode iv))
     | Panic _ \<Rightarrow> False)"

context rocksdb
begin

lemma wp_getattr:
  assumes L: "lru_cache L entries cap"
  shows "wp (getattr R L i) (reads_as entries view (getattr_answer (view (kv_db s)) i) s) s"
  unfolding getattr_def wp_bind
  by (rule wp_load_inode [OF L]) (auto simp: wp_simps getattr_answer_def intro!: reads_asI)

lemma reads_trans_db: "reads view (s\<lparr>kv_db := d\<rparr>) s' \<Longrightarrow> view d = view (kv_db s) \<Longrightarrow> reads view s s'"
  by (auto simp: reads_def)

lemma wp_lookup:
  fixes s :: "('db, 'txn, 'c, 'z) server_scheme"
  assumes L: "lru_cache L entries cap"
  shows "wp (lookup R L p n) (reads_as entries view (lookup_answer (view (kv_db s)) p n) s) s"
proof (cases "NAME_MAX < length n")
  case True
  have "reads view s s" using reads_cache [of view s "cw_cache s"] by simp
  then show ?thesis using True
    by (auto simp: lookup_def wp_simps lookup_answer_def intro!: reads_asI)
next
  case False
  let ?V = "view (kv_db s)"
  have r: "reads view s (s\<lparr>kv_db := d\<rparr>)" if "view d = ?V" for d
    using readsI [OF that, of "cw_cache s"] by simp
  have load: "wp (load_inode R L c) (andthen (\<lambda>iv. ret (to_attr iv)) (reads_as entries view (lookup_answer ?V p n) s)) (s\<lparr>kv_db := d\<rparr>)"
    if d: "view d = ?V" and e: "dirent ?V p n = Some (c, m)" for d c m
    by (rule wp_load_inode [OF L])
      (use d e in \<open>auto simp: wp_simps lookup_answer_def coherent_db load_error_def stored_absent
        intro!: reads_asI dest: reads_trans_db\<close>)
  have none: "reads_as entries view (lookup_answer ?V p n) s (Err e) (s\<lparr>kv_db := d\<rparr>)"
    if "view d = ?V" and "(\<exists>m. e = Io m) \<or> ?V CF_DIR_ENTRIES (encode_dir_entry_key p n) = None \<and> e = NotFound \<or>
      e \<noteq> NotFound \<and> ?V CF_DIR_ENTRIES (encode_dir_entry_key p n) \<noteq> None \<and> dirent ?V p n = None" for d e
    using that by (auto simp: lookup_answer_def r coherent_db intro!: reads_asI)
  have "wp (bind (resolve_path R p n) (\<lambda>r. bind (ok_or NotFound r) (\<lambda>child_inode.
      bind (load_inode R L child_inode) (\<lambda>iv. ret (to_attr iv)))))
    (reads_as entries view (lookup_answer ?V p n) s) s"
    unfolding wp_bind
  proof (rule wp_resolve_path)
    fix d
    assume d: "view d = ?V"
      and k: "?V CF_DIR_ENTRIES (encode_dir_entry_key p n) \<noteq> None \<longrightarrow> dirent ?V p n \<noteq> None"
    show "andthen (\<lambda>r. bind (ok_or NotFound r) (\<lambda>child_inode. bind (load_inode R L child_inode) (\<lambda>iv. ret (to_attr iv))))
      (reads_as entries view (lookup_answer ?V p n) s) (Ok (map_option fst (dirent ?V p n))) (s\<lparr>kv_db := d\<rparr>)"
      using none [OF d] load [OF d] k by (cases "dirent ?V p n") (auto simp: wp_simps)
  qed (simp only: andthen.simps, rule none, assumption, blast)
  with False show ?thesis by (simp add: lookup_def wp_bind [of "validate_name n"] wp_validate_name)
qed

lemma wp_readdir:
  assumes L: "lru_cache L entries cap"
  shows "wp (readdir R L i) (reads_as entries view (readdir_answer (view (kv_db s)) i) s) s"
  unfolding readdir_def wp_bind
proof (rule wp_load_inode [OF L])
  fix iv s1
  assume rd: "reads view s s1"
    and co: "coherent entries view s \<longrightarrow> effective (view (kv_db s)) i = Some iv \<and> coherent entries view s1"
  have v: "view (kv_db s1) = view (kv_db s)" by (rule reads_view [OF rd])
  show "andthen (\<lambda>iv. if \<not> is_dir (iv_mode iv) then throw NotADirectory else list_dir R i)
      (reads_as entries view (readdir_answer (view (kv_db s)) i) s) (Ok iv) s1"
    by (auto simp: wp_simps v readdir_answer_def dir_at_def coherent_db intro!: wp_list_dir reads_asI)
      (use rd co v in \<open>auto simp: coherent_db\<close>)
qed (auto simp: readdir_answer_def intro!: reads_asI)

lemma wp_readlink:
  assumes L: "lru_cache L entries cap"
  shows "wp (readlink R L i) (reads_as entries view (readlink_answer (view (kv_db s)) i) s) s"
  unfolding readlink_def wp_bind
proof (rule wp_load_inode [OF L])
  fix iv s1
  assume rd: "reads view s s1"
    and co: "coherent entries view s \<longrightarrow> effective (view (kv_db s)) i = Some iv \<and> coherent entries view s1"
  have v: "view (kv_db s1) = view (kv_db s)" by (rule reads_view [OF rd])
  have co': "coherent entries view (s1\<lparr>kv_db := d\<rparr>) = coherent entries view s1" if "view d = view (kv_db s)" for d
    by (rule coherent_db) (simp add: v that)
  have ok: "reads_as entries view (readlink_answer (view (kv_db s)) i) s r (s1\<lparr>kv_db := d\<rparr>)"
    if "view d = view (kv_db s1)" "readlink_answer (view (kv_db s)) i r" for r d
    using that rd co by (auto simp: v coherent_db reads_as_def)
  show "andthen (\<lambda>iv. if \<not> is_symlink (iv_mode iv) then throw (InvalidInput ''not a symbolic link'')
      else bind (meta_get R (encode_symlink_key i)) (\<lambda>v.
       bind (ok_or (Io (''symlink target not found for inode '' @ show_nat (unat i))) v) (\<lambda>data.
       case utf8_check 0 data of
         None \<Rightarrow> ret data
       | Some e \<Rightarrow> throw (Io (''invalid symlink target: '' @ utf8_error_msg e)))))
      (reads_as entries view (readlink_answer (view (kv_db s)) i) s) (Ok iv) s1"
    using rd co
    by (auto simp: wp_simps split: option.split intro!: wp_meta_get ok reads_asI)
      (auto simp: readlink_answer_def abs_fs_def v co' utf8_valid_def)
qed (auto simp: readlink_answer_def intro!: reads_asI)

end

end
