(* ===== verification/Server_Reach.thy ===== *)
theory Server_Reach
  imports Server_Steps
begin

text \<open>
  The server as a transition system. A request is one call of \<^verbatim>\<open>MetadataOps\<close> or a compaction of one
  inode; \<open>handle\<close> runs it on the server's state and forgets the answer, so a step is taken whether the
  request succeeds or fails. \<open>admissible\<close> lists what the server expects of its callers and does not
  check itself. The states reachable from a fresh store keep the invariant of the namespace.
\<close>

section \<open>Requests\<close>

datatype request =
    Lookup inode str
  | Getattr inode
  | Readdir inode
  | Create inode str u32 u32 u32
  | CreateAndOpen inode str u32 u32 u32 u32
  | Mkdir inode str u32 u32 u32
  | Unlink inode str
  | Rmdir inode str
  | Rename inode str inode str
  | Setattr inode SetAttrRequest
  | Statfs inode
  | Open inode u32
  | ReportWrite inode u64 u64
  | Link inode str inode
  | Symlink inode str str u32 u32
  | Readlink inode
  | Release inode
  | Compact inode

definition forget :: "('s, 'a) fs_op \<Rightarrow> ('s, unit) fs_op" where
  "forget f = bind f (\<lambda>_. ret ())"

fun handle :: "('db, 'txn) rocks \<Rightarrow> 'c lru \<Rightarrow> request \<Rightarrow> (('db, 'txn, 'c, 'z) server_scheme, unit) fs_op" where
  "handle R L (Lookup p n) = forget (lookup R L p n)"
| "handle R L (Getattr i) = forget (getattr R L i)"
| "handle R L (Readdir i) = forget (readdir R L i)"
| "handle R L (Create p n mode uid gid) = forget (create R L p n mode uid gid)"
| "handle R L (CreateAndOpen p n mode uid gid flags) = forget (create_and_open R L p n mode uid gid flags)"
| "handle R L (Mkdir p n mode uid gid) = forget (mkdir R L p n mode uid gid)"
| "handle R L (Unlink p n) = forget (unlink R L p n)"
| "handle R L (Rmdir p n) = forget (rmdir R L p n)"
| "handle R L (Rename p n p' n') = forget (rename R L p n p' n')"
| "handle R L (Setattr i req) = forget (setattr R L i req)"
| "handle R L (Statfs i) = forget (statfs i)"
| "handle R L (Open i flags) = forget (open_op R L i flags)"
| "handle R L (ReportWrite i sz mt) = forget (report_write R L i sz mt)"
| "handle R L (Link p n i) = forget (link R L p n i)"
| "handle R L (Symlink p n target uid gid) = forget (symlink R L p n target uid gid)"
| "handle R L (Readlink i) = forget (readlink R L i)"
| "handle R L (Release i) = forget (release R L i)"
| "handle R L (Compact i) = forget (force_compact_inode R L i)"

text \<open>
  What callers guarantee: names are entered into existing directories, a hard link is made to an
  inode that is not already waiting for its deletion and whose link count can still grow.
\<close>

fun admissible :: "('db \<Rightarrow> view) \<Rightarrow> request \<Rightarrow> ('db, 'txn, 'c, 'z) server_scheme \<Rightarrow> bool" where
  "admissible view (Create p n mode uid gid) s = dir_at (stored (view (kv_db s))) p"
| "admissible view (CreateAndOpen p n mode uid gid flags) s = dir_at (stored (view (kv_db s))) p"
| "admissible view (Mkdir p n mode uid gid) s = dir_at (stored (view (kv_db s))) p"
| "admissible view (Symlink p n target uid gid) s = dir_at (stored (view (kv_db s))) p"
| "admissible view (Rename p n p' n') s = dir_at (stored (view (kv_db s))) p'"
| "admissible view (Link p n i) s = (i \<notin> sv_pending_deletes s \<and>
     (case stored (view (kv_db s)) i of None \<Rightarrow> True | Some iv \<Rightarrow> iv_nlink iv + 1 \<noteq> 0))"
| "admissible view _ s = True"

text \<open>One step: an admissible request while the 64-bit counters are not about to wrap around.\<close>

inductive server_step ::
  "('db, 'txn) rocks \<Rightarrow> 'c lru \<Rightarrow> ('db \<Rightarrow> view) \<Rightarrow> ('db, 'txn, 'c, 'z) server_scheme
   \<Rightarrow> ('db, 'txn, 'c, 'z) server_scheme \<Rightarrow> bool" for R L view where
  step: "handle R L req s = (r, s') \<Longrightarrow> admissible view req s \<Longrightarrow> room 21 s \<Longrightarrow> server_step R L view s s'"

inductive reachable ::
  "('db, 'txn) rocks \<Rightarrow> 'c lru \<Rightarrow> ('db \<Rightarrow> view) \<Rightarrow> ('db, 'txn, 'c) server \<Rightarrow> bool" for R L view where
  fresh: "with_config R L loc capacity config uid gid clock s0 = Ok s \<Longrightarrow> view (kv_db s0) = (\<lambda>_ _. None) \<Longrightarrow>
     stored (view (kv_db s)) ROOT_INODE \<noteq> None \<Longrightarrow> reachable R L view s"
| more: "reachable R L view s \<Longrightarrow> server_step R L view s s' \<Longrightarrow> reachable R L view s'"

inductive_cases server_stepE: "server_step R L view s s'"

section \<open>The invariant is inductive\<close>

lemma implements_inv: "implements view okp errp s r s' \<Longrightarrow> server_inv view s'"
  "implements_late view okp errp s r s' \<Longrightarrow> server_inv view s'"
  by (auto simp: implements_def implements_late_def)

lemma wp_forget: "wp f (\<lambda>r s'. P s') s \<Longrightarrow> wp (forget f) (\<lambda>r s'. P s') s"
  by (auto simp: forget_def wp_def bind_def ret_def split: prod.splits outcome.splits)

context rocksdb
begin

lemma wp_reads_inv: "server_inv view s \<Longrightarrow> wp f (reads_as entries view P s) s \<Longrightarrow> wp f (\<lambda>r s'. server_inv view s') s"
  by (erule wp_mono) (auto simp: reads_as_def server_inv_reads)

lemma handle_inv:
  assumes L: "lru_cache L entries cap" and inv: "server_inv view s" and room: "room 21 s" and adm: "admissible view req s"
  shows "wp (handle R L req) (\<lambda>r s'. server_inv view s') s"
proof -
  have r12: "room 12 s" by (rule room_mono [OF room]) simp
  note late = wp_mono [OF _ implements_inv(2)] and now = wp_mono [OF _ implements_inv(1)]
  show ?thesis
  proof (cases req)
    case (Statfs i)
    then show ?thesis using inv by (simp add: forget_def wp_simps statfs_def)
  qed (use adm inv in \<open>auto intro!: wp_forget
      wp_reads_inv [OF inv wp_lookup [OF L]] wp_reads_inv [OF inv wp_getattr [OF L]]
      wp_reads_inv [OF inv wp_readdir [OF L]] wp_reads_inv [OF inv wp_readlink [OF L]]
      wp_mono [OF wp_create [OF L inv r12]] wp_mono [OF wp_mkdir [OF L inv r12]] wp_mono [OF wp_symlink [OF L inv r12]]
      wp_mono [OF wp_create_and_open [OF L inv r12]] wp_mono [OF wp_unlink [OF L inv r12]]
      wp_mono [OF wp_rmdir [OF L inv r12]] wp_mono [OF wp_setattr [OF L inv r12]]
      wp_mono [OF wp_report_write [OF L inv r12]] wp_mono [OF wp_link [OF L inv r12]]
      wp_mono [OF wp_open [OF L inv r12]] wp_mono [OF wp_release [OF inv r12]]
      wp_mono [OF wp_rename [OF inv room]] wp_mono [OF wp_force_compact_inv [OF inv]]
      dest: implements_inv split: option.splits\<close>)
qed

text \<open>A fresh store: the root directory and nothing else.\<close>

lemma wp_init_root:
  assumes empty: "view (kv_db s) = (\<lambda>_ _. None)"
  shows "wp (init_root R uid gid) (\<lambda>r s'. (\<forall>q. r \<noteq> Panic q) \<and> kv_seqs s' = kv_seqs s \<and>
    sv_alloc s' = sv_alloc s \<and> sv_pending_deletes s' = sv_pending_deletes s \<and> cw_cache s' = cw_cache s \<and>
    (stored (view (kv_db s')) ROOT_INODE \<noteq> None \<longrightarrow> (\<exists>iv. is_dir (iv_mode iv) \<and> iv_version iv = FORMAT_VERSION \<and> iv_inode iv = ROOT_INODE \<and>
       view (kv_db s') = upd CF_INODES (encode_inode_key ROOT_INODE) (Some (serialize iv)) (\<lambda>_ _. None)))) s"
  unfolding init_root_def Let_def
  by (auto simp: wp_simps empty FORMAT_VERSION_def stored_def split: outcome.split intro!: wp_meta_get wp_meta_put)
    (auto intro!: exI simp: is_dir_def S_IFDIR_def)

lemma contents_ok_fresh:
  assumes "is_dir (iv_mode iv)" and "iv_version iv = FORMAT_VERSION" and "ROOT_INODE < next"
  shows "contents_ok (upd CF_INODES (encode_inode_key ROOT_INODE) (Some (serialize iv)) (\<lambda>_ _. None)) sq next {}"
    (is "contents_ok ?V sq next {}")
proof -
  have d: "dirent ?V = (\<lambda>_ _. None)" by (simp add: dirent_def fun_eq_iff)
  have st: "stored ?V = [ROOT_INODE \<mapsto> iv]" using assms(2) by (auto simp: fun_eq_iff stored_def)
  have "pending ?V i = []" for i by (simp add: pending_def scan_def)
  moreover have "ns_ok (\<lambda>_ _. None) [ROOT_INODE \<mapsto> iv] next {}"
    using assms by (intro ns_okI) (auto simp: refs_def dir_at_def split: if_splits)
  ultimately show ?thesis unfolding contents_ok_def d st by (simp add: delta_inv_def)
qed

lemma fresh_state:
  assumes new: "with_config R L loc capacity config uid gid clock s0 = Ok s" and empty: "view (kv_db s0) = (\<lambda>_ _. None)"
  shows "kv_seqs s = kv_seqs s0 \<and> sv_alloc s = alloc_new \<and> sv_pending_deletes s = {} \<and> cache_new L capacity = Ok (cw_cache s) \<and>
    (stored (view (kv_db s)) ROOT_INODE \<noteq> None \<longrightarrow> (\<exists>iv. is_dir (iv_mode iv) \<and> iv_version iv = FORMAT_VERSION \<and> iv_inode iv = ROOT_INODE \<and>
       view (kv_db s) = upd CF_INODES (encode_inode_key ROOT_INODE) (Some (serialize iv)) (\<lambda>_ _. None)))"
proof -
  obtain r0 s1 where load: "alloc_load (meta_get R) s0 = (r0, s1)" by fastforce
  have "wp (alloc_load (meta_get R)) (\<lambda>r s'. view (kv_db s') = (\<lambda>_ _. None) \<and> kv_seqs s' = kv_seqs s0 \<and> (\<forall>a. r = Ok a \<longrightarrow> a = alloc_new)) s0"
    unfolding alloc_load_def by (auto simp: wp_simps empty intro!: wp_meta_get)
  from wpD [OF this load] have s1: "view (kv_db s1) = (\<lambda>_ _. None)" "kv_seqs s1 = kv_seqs s0" "\<And>a. r0 = Ok a \<Longrightarrow> a = alloc_new" by auto
  then have a: "(case r0 of Ok a \<Rightarrow> a | _ \<Rightarrow> alloc_new) = alloc_new" by (cases r0) auto
  obtain c where c: "cache_new L capacity = Ok c"
    using new by (cases "cache_new L capacity") (simp_all add: with_config_def load a Let_def)
  let ?sv = "\<lparr>kv_db = kv_db s1, kv_txn = kv_txn s1, kv_seqs = kv_seqs s1,
     cw_cache = c, cw_dirty = {}, cw_running = False, cw_notify_flag = False, cw_config = config,
     sv_default_loc = loc, sv_alloc = alloc_new, sv_open_handles = Map.empty,
     sv_pending_deletes = {}, sv_clock = clock, sv_ticks = 0\<rparr>"
  obtain r2 s2 where i: "init_root R uid gid ?sv = (r2, s2)" by fastforce
  have e: "view (kv_db ?sv) = (\<lambda>_ _. None)" using s1(1) by simp
  note post = wpD [OF wp_init_root [OF e] i]
  have s: "s = s2" using new i post unfolding with_config_def load prod.case a Let_def c outcome.case
    by (cases r2) auto
  show ?thesis using post s s1(2) c by simp
qed

text \<open>Starting on an empty store never panics.\<close>

lemma fresh_starts:
  assumes "view (kv_db s0) = (\<lambda>_ _. None)" and "cache_new L capacity = Ok c"
  shows "\<exists>s. with_config R L loc capacity config uid gid clock s0 = Ok s"
proof -
  obtain r0 s1 where load: "alloc_load (meta_get R) s0 = (r0, s1)" by fastforce
  have "wp (alloc_load (meta_get R)) (\<lambda>r s'. view (kv_db s') = (\<lambda>_ _. None)) s0"
    unfolding alloc_load_def by (auto simp: wp_simps assms(1) intro!: wp_meta_get)
  from wpD [OF this load] have e: "view (kv_db s1) = (\<lambda>_ _. None)" .
  let ?sv = "\<lparr>kv_db = kv_db s1, kv_txn = kv_txn s1, kv_seqs = kv_seqs s1,
     cw_cache = c, cw_dirty = {}, cw_running = False, cw_notify_flag = False, cw_config = config,
     sv_default_loc = loc, sv_alloc = (case r0 of Ok a \<Rightarrow> a | _ \<Rightarrow> alloc_new), sv_open_handles = Map.empty,
     sv_pending_deletes = {}, sv_clock = clock, sv_ticks = 0\<rparr>"
  obtain r2 s2 where i: "init_root R uid gid ?sv = (r2, s2)" by fastforce
  have "\<forall>q. r2 \<noteq> Panic q" using wpD [OF wp_init_root i] e by simp
  with i show ?thesis unfolding with_config_def load prod.case assms(2) outcome.case Let_def by (cases r2) auto
qed

lemma fresh_inv:
  assumes "with_config R L loc capacity config uid gid clock s0 = Ok s" and "view (kv_db s0) = (\<lambda>_ _. None)"
    and "stored (view (kv_db s)) ROOT_INODE \<noteq> None"
  shows "server_inv view s"
proof -
  from fresh_state [OF assms(1,2)] assms(3) obtain iv where "is_dir (iv_mode iv)" "iv_version iv = FORMAT_VERSION"
    "view (kv_db s) = upd CF_INODES (encode_inode_key ROOT_INODE) (Some (serialize iv)) (\<lambda>_ _. None)"
    "sv_alloc s = alloc_new" "sv_pending_deletes s = {}" by auto
  moreover have "ROOT_INODE < ia_next alloc_new" by (simp add: alloc_new_def FIRST_ALLOC_INODE_def ROOT_INODE_def)
  ultimately show ?thesis unfolding server_inv_def by (simp add: contents_ok_fresh)
qed

lemma fresh_room:
  assumes "with_config R L loc capacity config uid gid clock s0 = Ok s" and "view (kv_db s0) = (\<lambda>_ _. None)" and "kv_seqs s0 = (\<lambda>_. None)"
    and "n < 2 ^ 63"
  shows "room n s"
  using fresh_state [OF assms(1,2)] assms(3,4)
  by (simp add: room_def seq_at_def alloc_new_def FIRST_ALLOC_INODE_def)

lemma reachable_inv:
  assumes L: "lru_cache L entries cap" and "reachable R L view s"
  shows "server_inv view s"
  using assms(2)
proof (induction rule: reachable.induct)
  case (fresh loc capacity config uid gid clock s0 s)
  then show ?case by (rule fresh_inv)
next
  case (more s s')
  from more.hyps(2) show ?case
    by (rule server_stepE) (use wpD [OF handle_inv [OF L more.IH]] in blast)
qed

end

end
