(* ===== verification/Server_Budget.thy ===== *)
theory Server_Budget
  imports Server_Reach
begin

text \<open>
  What a request uses up: the server counts delta keys per inode and inode numbers in 64-bit words
  that wrap. \<open>within k f\<close> says that \<open>f\<close> moves no counter forward by more than \<open>k\<close>, on every path and
  whatever the database does; the rules of the collection \<open>budget\<close> follow the structure of an
  operation. Every request stays within 21, so a run of bounded length from a fresh store never
  comes near the end of a counter, and the invariant of the namespace holds along it without any
  assumption on the counters.
\<close>

named_theorems budget \<open>bounds on what an operation spends\<close>

section \<open>Spending\<close>

definition spends :: "nat \<Rightarrow> ('db, 'txn, 'c, 'z) server_scheme \<Rightarrow> ('db, 'txn, 'c, 'z) server_scheme \<Rightarrow> bool" where
  "spends k s s' \<longleftrightarrow> (\<forall>i. unat (seq_of s' i) \<le> unat (seq_of s i) + k) \<and>
     unat (ia_next (sv_alloc s')) \<le> unat (ia_next (sv_alloc s)) + k"

definition within :: "nat \<Rightarrow> (('db, 'txn, 'c, 'z) server_scheme, 'e, 'a) op \<Rightarrow> bool" where
  "within k f \<longleftrightarrow> (\<forall>s. spends k s (snd (f s)))"

lemma spends_refl [simp]: "spends k s s"
  by (simp add: spends_def)

lemma spendsD: "spends k s s' \<Longrightarrow> unat (seq_of s' i) \<le> unat (seq_of s i) + k"
  "spends k s s' \<Longrightarrow> unat (ia_next (sv_alloc s')) \<le> unat (ia_next (sv_alloc s)) + k"
  by (simp_all add: spends_def)

lemma spendsI: "(\<And>i. unat (seq_of s' i) \<le> unat (seq_of s i) + k) \<Longrightarrow>
    unat (ia_next (sv_alloc s')) \<le> unat (ia_next (sv_alloc s)) + k \<Longrightarrow> spends k s s'"
  by (simp add: spends_def)

lemma spends_trans:
  assumes "spends k s s'" and "spends l s' s''"
  shows "spends (k + l) s s''"
proof (rule spendsI)
  show "unat (seq_of s'' i) \<le> unat (seq_of s i) + (k + l)" for i
    using spendsD(1) [OF assms(1), of i] spendsD(1) [OF assms(2), of i] by linarith
  show "unat (ia_next (sv_alloc s'')) \<le> unat (ia_next (sv_alloc s)) + (k + l)"
    using spendsD(2) [OF assms(1)] spendsD(2) [OF assms(2)] by linarith
qed

lemma spends_mono: "spends k s s' \<Longrightarrow> k \<le> l \<Longrightarrow> spends l s s'"
  by (auto simp: spends_def intro: order_trans)

lemma room_spends:
  assumes "room (n + k) s" and "spends k s s'"
  shows "room n s'"
proof -
  have "unat (seq_of s' i) + n < 2 ^ 64" for i
    using spendsD(1) [OF assms(2), of i] assms(1) unfolding room_def by (metis add.commute add.assoc add_le_mono1 order.strict_trans1)
  moreover have "unat (ia_next (sv_alloc s')) + n < 2 ^ 64"
    using spendsD(2) [OF assms(2)] assms(1) unfolding room_def by (metis add.commute add.assoc add_le_mono1 order.strict_trans1)
  ultimately show ?thesis by (simp add: room_def)
qed

lemma withinD: "within k f \<Longrightarrow> f s = (r, s') \<Longrightarrow> spends k s s'"
  by (metis snd_conv within_def)

lemma within_mono: "within k f \<Longrightarrow> k \<le> l \<Longrightarrow> within l f"
  by (auto simp: within_def intro: spends_mono)

lemma within_max: "within k f \<Longrightarrow> within (max k l) f" "within l f \<Longrightarrow> within (max k l) f"
  by (simp_all add: within_mono)

section \<open>Rules\<close>

lemma within_ret [budget]: "within 0 (ret a)" "within 0 (throw e)" "within 0 (panic q)" "within 0 (lift r)" "within 0 (gets h)"
  "within 0 (ok_or e v)"
  by (simp_all add: within_def ret_def throw_def panic_def lift_def gets_def ok_or_def split: option.split)

lemma within_bind [budget]:
  assumes "within k f" and "\<And>a. within l (g a)"
  shows "within (k + l) (bind f g)"
proof (unfold within_def, rule allI)
  fix s
  obtain r t where f: "f s = (r, t)" by fastforce
  with assms(1) have k: "spends k s t" by (rule withinD)
  show "spends (k + l) s (snd (bind f g s))"
  proof (cases r)
    case (Ok a)
    then show ?thesis using f spends_trans [OF k] assms(2) [of a] by (simp add: bind_def within_def)
  qed (use f spends_mono [OF k] in \<open>simp_all add: bind_def\<close>)
qed

lemma within_match_op [budget]:
  assumes "within k f" and "\<And>r. within l (g r)"
  shows "within (k + l) (match_op f g)"
proof (unfold within_def, rule allI)
  fix s
  obtain r t where f: "f s = (r, t)" by fastforce
  with assms(1) have k: "spends k s t" by (rule withinD)
  have l: "spends l t (snd (g r t))" using assms(2) [of r] by (simp add: within_def)
  show "spends (k + l) s (snd (match_op f g s))"
    using f l spends_trans [OF k] spends_mono [OF k, of "k + l"] by (cases r) (auto simp: match_op_def)
qed

lemma within_ignore [budget]: "within k f \<Longrightarrow> within k (ignore f)"
  by (auto simp: within_def ignore_def split: prod.splits outcome.splits) (metis snd_conv)+

lemma within_if [budget]: "within k f \<Longrightarrow> within l g \<Longrightarrow> within (max k l) (if b then f else g)"
  by (auto intro: within_mono)

lemma within_option [budget]:
  "within k f \<Longrightarrow> (\<And>a. within l (g a)) \<Longrightarrow> within (max k l) (case v of None \<Rightarrow> f | Some a \<Rightarrow> g a)"
  by (cases v) (simp_all add: within_max)

lemma within_outcome [budget]:
  "(\<And>a. within k (f a)) \<Longrightarrow> (\<And>e. within l (g e)) \<Longrightarrow> (\<And>q. within m (h q)) \<Longrightarrow>
   within (max k (max l m)) (case v of Ok a \<Rightarrow> f a | Err e \<Rightarrow> g e | Panic q \<Rightarrow> h q)"
  by (cases v) (simp_all add: within_max)

lemma within_prod [budget]: "(\<And>a b. within k (f a b)) \<Longrightarrow> within k (case p of (a, b) \<Rightarrow> f a b)"
  by (cases p) simp

lemma within_bool [budget]: "within k f \<Longrightarrow> within l g \<Longrightarrow> within (max k l) (case b of True \<Rightarrow> f | False \<Rightarrow> g)"
  by (cases b) (simp_all add: within_max)

lemma within_when_op [budget]: "within k f \<Longrightarrow> within k (when_op b f)"
  by (auto simp: when_op_def intro: within_mono [OF within_ret(1)])

lemma within_for_each: "(\<And>x. within k (f x)) \<Longrightarrow> within (length xs * k) (for_each xs f)"
  by (induction xs) (simp_all add: within_ret within_bind)

lemma within_for_each_0 [budget]: "(\<And>x. within 0 (f x)) \<Longrightarrow> within 0 (for_each xs f)"
  using within_for_each [of 0 f xs] by simp

lemma within_retry [budget]: "within k f \<Longrightarrow> within (3 * k) (execute_with_retry f)"
proof -
  assume f: "within k f"
  have "within (n * k) (retry_loop n f)" for n
  proof (induction n)
    case 0
    show ?case by (simp add: within_ret)
  next
    case (Suc n)
    show ?case
    proof (unfold within_def, rule allI)
      fix s
      obtain r t where r: "f s = (r, t)" by fastforce
      have k: "spends k s t" by (rule withinD [OF f r])
      have l: "spends (n * k) t (snd (retry_loop n f t))" using Suc by (simp add: within_def)
      show "spends (Suc n * k) s (snd (retry_loop (Suc n) f s))"
        using r spends_trans [OF k l] spends_mono [OF k, of "Suc n * k"] by (cases r) auto
    qed
  qed
  then show ?thesis by (simp add: execute_with_retry_def TXN_MAX_RETRIES_def)
qed

section \<open>The stores\<close>

lemma within_modify: "(\<And>s. spends k s (h s)) \<Longrightarrow> within k (modify h)"
  by (simp add: within_def modify_def)

lemma spends_same: "kv_seqs s' = kv_seqs s \<Longrightarrow> sv_alloc s' = sv_alloc s \<Longrightarrow> spends k s s'"
  by (simp add: spends_def)

lemma within_calls [budget]: "within 0 (call_db err f)" "within 0 (call_txn err h)" "within 0 (iter_db i)"
  "within 0 (need_cf R c)" "within 0 (expect_cf R c)" "within 0 (expect_txn q h)" "within 0 (begin_write R)"
  by (auto simp: within_def call_db_def call_txn_def iter_db_def need_cf_def expect_cf_def expect_txn_def begin_write_def
      intro!: spends_same split: prod.splits sum.splits)


text \<open>The rest of the stores, by their structure; only a fresh delta key costs something.\<close>

lemma unat_plus_one: "unat (w + 1 :: u64) \<le> unat w + 1"
proof -
  have "unat (w + 1) = Suc (unat w) mod 2 ^ 64" by (simp add: unat_word_ariths)
  then show ?thesis using mod_less_eq_dividend [of "Suc (unat w)" "2 ^ 64"] by linarith
qed

lemma within_next_seq [budget]: "within 1 (next_seq i)"
  unfolding within_def
proof (rule allI, rule spendsI)
  fix s :: "('db, 'txn, 'c, 'z) server_scheme" and j
  show "unat (seq_of (snd (next_seq i s)) j) \<le> unat (seq_of s j) + 1"
    using unat_plus_one [of "seq_of s j"] by (auto simp: next_seq_def seq_at_def split: option.split)
qed (simp add: next_seq_def split: option.split)

lemma within_alloc [budget]: "within 1 sv_alloc_inode"
  using unat_plus_one by (auto simp: within_def sv_alloc_inode_def alloc_def intro!: spendsI)

lemma within_reset: "within 0 (modify (\<lambda>s. if kv_seqs s i = None then s else s\<lparr>kv_seqs := (kv_seqs s)(i \<mapsto> 0)\<rparr>))"
  by (auto intro!: within_modify spendsI)

lemma within_caches [budget]: "within 0 (sc_put L i v)" "within 0 (sc_get L i)" "within 0 (sc_apply_delta L i d)"
  "within 0 (sc_apply_deltas L i ds)" "within 0 (sc_invalidate L i)" "within 0 (mark_dirty i)" "within 0 now_secs"
  "within 0 (inc_open_handles i)" "within 0 (check_and_clear_deferred_delete i)" "within 0 (commit R)"
  by (auto simp: within_def modify_def sc_put_def sc_get_def sc_apply_delta_def sc_apply_deltas_def sc_invalidate_def mark_dirty_def
      now_secs_def inc_open_handles_def check_and_clear_deferred_delete_def commit_def call_db_def Let_def
      intro!: spends_same split: prod.splits sum.splits option.splits)

lemma within_txn [budget]: "within 0 (txn_put_op R c w k v)" "within 0 (txn_delete_op R c w k)"
  unfolding txn_put_op_def txn_delete_op_def by (rule within_mono, (rule budget)+, simp)+

lemma within_push [budget]: "within 0 (push R b)"
  by (cases b) (simp_all add: push.simps within_txn)

lemma within_batch [budget]:
  "within 0 (batch_put_inode R i v)" "within 0 (batch_delete_inode R i)" "within 0 (batch_put_dir_entry R p n c m)"
  "within 0 (batch_delete_dir_entry R p n)" "within 0 (batch_put_data_location R i sid)" "within 0 (batch_delete_data_location R i)"
  "within 0 (batch_put_symlink R i target)" "within 0 (batch_delete_symlink R i)"
  by (simp_all add: batch_put_inode_def batch_delete_inode_def batch_put_dir_entry_def batch_delete_dir_entry_def
      batch_put_data_location_def batch_delete_data_location_def batch_put_symlink_def batch_delete_symlink_def within_push)

lemma within_batch_parent_deltas: "within (length ds) (batch_parent_deltas R p ds)"
  unfolding batch_parent_deltas_def by (rule within_mono, rule within_for_each, (rule budget)+, simp)

lemma within_few_deltas [budget]: "within 1 (batch_parent_deltas R p [d1])" "within 2 (batch_parent_deltas R p [d1, d2])"
  "within 3 (batch_parent_deltas R p [d1, d2, d3])"
  using within_batch_parent_deltas [of "[d1]" R p] within_batch_parent_deltas [of "[d1, d2]" R p]
    within_batch_parent_deltas [of "[d1, d2, d3]" R p]
  by (simp_all add: numeral_2_eq_2 numeral_3_eq_3)

lemma within_is_dir_empty [budget]: "within 0 (is_dir_empty R p)"
  unfolding is_dir_empty_def
  by (rule within_mono, rule within_bind [OF within_calls(4), where l = 0])
    (auto simp: within_def intro!: spends_same split: prod.splits)

lemma within_stores [budget]:
  "within 0 (meta_get R k)" "within 0 (meta_put R k v)" "within 0 (meta_delete R k)" "within 0 (resolve_path R p n)"
  "within 0 (list_dir R p)" "within 0 (insert_child R p n c a)" "within 0 (remove_child R p n)"
  "within 0 (scan_deltas R i)" "within 0 (scan_deltas_with_keys R i)"
  "within 0 (get_for_update_inode R k)" "within 0 (get_for_update_dir_entry R k)"
  unfolding meta_get_def meta_put_def meta_delete_def resolve_path_def list_dir_def insert_child_def remove_child_def
    scan_deltas_def scan_deltas_with_keys_def get_for_update_inode_def get_for_update_dir_entry_def Let_def
  by (rule within_mono, (rule budget)+, simp)+

lemma within_clear_deltas [budget]: "within 0 (clear_deltas R i)"
  unfolding clear_deltas_def by (rule within_mono, (rule budget within_reset)+, simp)

section \<open>The operations\<close>

lemma within_load_inode [budget]: "within 0 (load_inode R L i)"
  unfolding load_inode_def Let_def by (rule within_mono, (rule budget)+, simp)

lemma within_maybe_persist [budget]: "within 0 (sv_maybe_persist R)"
  unfolding sv_maybe_persist_def maybe_persist_def Let_def by (rule within_mono, (rule budget)+, simp)

lemma within_validate [budget]: "within 0 (validate_name n)"
  unfolding validate_name_def by (rule within_mono, (rule budget)+, simp)

lemma within_reads [budget]: "within 0 (lookup R L p n)" "within 0 (getattr R L i)" "within 0 (readdir R L i)" "within 0 (statfs i)"
  "within 0 (readlink R L i)"
  unfolding lookup_def getattr_def readdir_def statfs_def readlink_def by (rule within_mono, (rule budget)+, simp)+

lemma within_txns [budget]: "within 3 (create_txn R p n mode uid gid)" "within 4 (mkdir_txn R p n mode uid gid)"
  "within 3 (symlink_txn R p n target uid gid)" "within 0 (setattr_txn R L i req)" "within 0 (open_trunc_txn R L i)"
  "within 0 (report_write_txn R L i sz mt)" "within 2 (link_txn R L p n i)" "within 0 (release_txn R i)"
  "within 3 (rmdir_txn R L p n)"
  unfolding create_txn_def mkdir_txn_def symlink_txn_def setattr_txn_def open_trunc_txn_def report_write_txn_def link_txn_def
    release_txn_def rmdir_txn_def Let_def
  by (rule within_mono, (rule budget)+, simp)+

lemma within_unlink_txn [budget]: "within 2 (unlink_txn R L p n)"
  unfolding unlink_txn_def Let_def by (rule within_mono, (rule budget)+, simp)

lemma within_lock_inodes [budget]: "within 0 (lock_inodes R is m)"
  by (induction "is" arbitrary: m) (simp_all, (rule within_mono, (rule budget | assumption)+, simp)+)

lemma within_rename_txn [budget]: "within 7 (rename_txn R L p n p' n')"
  unfolding rename_txn_def rename_read_def rename_apply_def rename_check_dst_def rename_batch_def Let_def
  by (rule within_mono, (rule budget)+, simp)

lemma within_pending: "within 0 (modify (\<lambda>s. s\<lparr>sv_pending_deletes := insert i (sv_pending_deletes s)\<rparr>))"
  by (auto intro!: within_modify spends_same)

lemma within_changes [budget]: "within 9 (create R L p n mode uid gid)" "within 12 (mkdir R L p n mode uid gid)"
  "within 9 (symlink R L p n target uid gid)" "within 6 (unlink R L p n)" "within 9 (rmdir R L p n)" "within 6 (link R L p n i)"
  "within 0 (setattr R L i req)" "within 0 (open_op R L i flags)" "within 0 (report_write R L i sz mt)" "within 0 (release R L i)"
  "within 21 (rename R L p n p' n')"
  unfolding create_def mkdir_def symlink_def unlink_def rmdir_def link_def setattr_def open_op_def report_write_def release_def
    rename_def Let_def
  by (rule within_mono, (rule budget within_pending)+, simp)+

lemma within_create_and_open [budget]: "within 9 (create_and_open R L p n mode uid gid flags)"
  unfolding create_and_open_def by (rule within_mono, (rule budget)+, simp)

lemma within_invalidate: "within 0 (modify (\<lambda>s. s\<lparr>cw_cache := cache_invalidate L i (cw_cache s)\<rparr>))"
  by (auto intro!: within_modify spends_same)

lemma within_compact [budget]: "within 0 (force_compact_inode R L i)"
  unfolding force_compact_inode_def compact_pairs_def Let_def
  by (rule within_mono, (rule budget within_invalidate)+, simp)

section \<open>Requests\<close>

lemma within_forget: "within k f \<Longrightarrow> within k (forget f)"
  using within_bind [of k f 0 "\<lambda>_. ret ()"] by (simp add: forget_def within_ret)

text \<open>
  What a request can cost at most, all attempts together: delta keys and inode numbers. A request that
  is not listed costs nothing.
\<close>

fun request_cost :: "request \<Rightarrow> nat" where
  "request_cost (Create p n mode uid gid) = 9"
| "request_cost (CreateAndOpen p n mode uid gid flags) = 9"
| "request_cost (Mkdir p n mode uid gid) = 12"
| "request_cost (Unlink p n) = 6"
| "request_cost (Rmdir p n) = 9"
| "request_cost (Rename p n p' n') = 21"
| "request_cost (Link p n i) = 6"
| "request_cost (Symlink p n target uid gid) = 9"
| "request_cost _ = 0"

lemma handle_within: "within (request_cost req) (handle R L req)"
  by (cases req) (simp_all, (rule within_forget, rule within_mono, rule budget, simp)+)

lemma request_cost_max: "request_cost req \<le> 21"
  by (cases req) simp_all

text \<open>A sequence of requests.\<close>

fun handle_all :: "('db, 'txn) rocks \<Rightarrow> 'c lru \<Rightarrow> request list \<Rightarrow> ('db, 'txn, 'c, 'z) server_scheme \<Rightarrow> ('db, 'txn, 'c, 'z) server_scheme" where
  "handle_all R L [] s = s"
| "handle_all R L (q # qs) s = handle_all R L qs (snd (handle R L q s))"

lemma handle_all_append: "handle_all R L (qs @ qs') s = handle_all R L qs' (handle_all R L qs s)"
  by (induction qs arbitrary: s) simp_all

lemma handle_all_spends: "spends (sum_list (map request_cost qs)) s (handle_all R L qs s)"
proof (induction qs arbitrary: s)
  case (Cons q qs)
  have "spends (request_cost q) s (snd (handle R L q s))" by (rule withinD [OF handle_within prod.collapse [symmetric]])
  from spends_trans [OF this Cons.IH] show ?case by simp
qed simp

text \<open>The server after \<open>n\<close> admissible requests from an empty store; nothing is said about counters.\<close>

inductive after_requests ::
  "('db, 'txn) rocks \<Rightarrow> 'c lru \<Rightarrow> ('db \<Rightarrow> view) \<Rightarrow> nat \<Rightarrow> ('db, 'txn, 'c) server \<Rightarrow> bool" for R L view where
  start: "with_config R L loc capacity config uid gid clock s0 = Ok s \<Longrightarrow> view (kv_db s0) = (\<lambda>_ _. None) \<Longrightarrow>
     kv_seqs s0 = Map.empty \<Longrightarrow> stored (view (kv_db s)) ROOT_INODE \<noteq> None \<Longrightarrow> after_requests R L view 0 s"
| request: "after_requests R L view n s \<Longrightarrow> admissible view req s \<Longrightarrow> handle R L req s = (r, s') \<Longrightarrow> after_requests R L view (Suc n) s'"

context rocksdb
begin

lemma after_requests_room:
  assumes "after_requests R L view n s" and "21 * n + k < 2 ^ 63"
  shows "room k s"
  using assms
proof (induction arbitrary: k rule: after_requests.induct)
  case (start loc capacity config uid gid clock s0 s)
  then show ?case by (auto intro: fresh_room)
next
  case (request n s req r s')
  have "room (k + 21) s" by (rule request.IH) (use request.prems in simp)
  moreover have "spends 21 s s'"
    by (rule spends_mono [OF withinD [OF handle_within request.hyps(3)] request_cost_max])
  ultimately show ?case by (rule room_spends)
qed

lemma after_requests_reachable:
  assumes "after_requests R L view n s" and "21 * n < 2 ^ 63"
  shows "reachable R L view s"
  using assms
proof (induction rule: after_requests.induct)
  case (start loc capacity config uid gid clock s0 s)
  then show ?case by (auto intro: reachable.fresh)
next
  case (request n s req r s')
  have "room 21 s" by (rule after_requests_room [OF request.hyps(1)]) (use request.prems in simp)
  with request.hyps have "server_step R L view s s'" by (auto intro: server_step.intros)
  then show ?case using request.IH request.prems by (auto intro: reachable.more)
qed

text \<open>What the invariant says of one directory entry.\<close>

lemma entry_sound:
  assumes "server_inv view s" and "dirent (view (kv_db s)) p n = Some (c, m)"
  shows "dir_at (stored (view (kv_db s))) p \<and> c \<noteq> ROOT_INODE \<and> c < ia_next (sv_alloc s) \<and> c \<notin> sv_pending_deletes s \<and>
    (\<exists>iv. stored (view (kv_db s)) c = Some iv \<and> is_dir (iv_mode iv) = is_dir m \<and>
       card (refs (dirent (view (kv_db s))) c) \<le> (if is_dir m then 1 else unat (iv_nlink iv)))"
  by (rule ns_okD [OF server_inv_ns [OF assms(1)] assms(2)]) (auto simp: max_refs_def)

end

section \<open>Properties\<close>

text \<open>
  C15. Counters move forward slowly: whatever the database answers, a sequence of requests advances no delta
  counter and not the inode counter by more than the sum of the requests' costs; reading, opening,
  writing, closing, changing attributes and compacting cost nothing, and no request costs more than 21.
\<close>

theorem requests_spend:
  assumes "s' = handle_all R L qs s" and "c = sum_list (map request_cost qs)"
  shows "(\<forall>i. unat (seq_of s' i) \<le> unat (seq_of s i) + c) \<and>
    unat (ia_next (sv_alloc s')) \<le> unat (ia_next (sv_alloc s)) + c \<and> c \<le> 21 * length qs"
proof -
  have "sum_list (map request_cost qs) \<le> 21 * length qs"
    using request_cost_max by (induction qs) (auto intro: add_mono)
  then show ?thesis using handle_all_spends [of qs s R L] assms by (simp add: spends_def)
qed

theorem requests_spend_witness:
  "unat (ia_next (sv_alloc (handle_all mem_rocks list_lru [Create 1 [0x62] 0x1A4 7 8, Getattr 4] sample_server))) \<le>
     unat (ia_next (sv_alloc sample_server)) + 9"
  using requests_spend [OF refl refl, of mem_rocks list_lru "[Create 1 [0x62] 0x1A4 7 8, Getattr 4]" sample_server] by simp

end
