(* ===== verification/Server_Props.thy ===== *)
theory Server_Props
  imports Server_Budget
begin

unbundle bit_operations_syntax

text \<open>
  The properties of the metadata server, over any RocksDB and any LRU cache that keep their
  contracts, each with a run of it on the in-memory database.
\<close>

section \<open>The sample server satisfies the invariant\<close>

definition sample_view :: view where
  "sample_view =
     upd CF_DIR_ENTRIES (encode_dir_entry_key 1 [0x61]) (Some (encode_dir_value 2 0x81A4))
     (upd CF_DIR_ENTRIES (encode_dir_entry_key 1 [0x64]) (Some (encode_dir_value 3 0x41ED))
     (upd CF_INODES (encode_inode_key 1) (Some (serialize (sample_inode 1 0x41FF 3 0)))
     (upd CF_INODES (encode_inode_key 2) (Some (serialize (sample_inode 2 0x81A4 1 5)))
     (upd CF_INODES (encode_inode_key 3) (Some (serialize (sample_inode 3 0x41ED 2 0))) (\<lambda>_ _. None)))))"

lemma sample_server_view: "mem_view (kv_db sample_server) = sample_view"
  unfolding sample_view_def sample_server_def
  by (auto simp: mem_view_def upd_def fun_eq_iff)

lemma sample_dirent:
  "dirent sample_view = set_entry 1 [0x61] (Some (2, 0x81A4)) (set_entry 1 [0x64] (Some (3, 0x41ED)) (\<lambda>_ _. None))"
  by (simp add: sample_view_def) (simp add: dirent_def fun_eq_iff)

lemma sample_stored:
  "stored sample_view = [3 \<mapsto> sample_inode 3 0x41ED 2 0, 2 \<mapsto> sample_inode 2 0x81A4 1 5, 1 \<mapsto> sample_inode 1 0x41FF 3 0]"
  by (simp add: sample_view_def sample_inode_def FORMAT_VERSION_def del: fun_upd_apply) (simp add: stored_def fun_eq_iff)

lemma sample_pending: "pending sample_view i = []"
  by (simp add: pending_def scan_def sample_view_def)

lemma sample_server_inv: "server_inv mem_view sample_server"
proof -
  have refs: "refs (dirent sample_view) c = (if c = 2 then {(1, [0x61])} else if c = 3 then {(1, [0x64])} else {})" for c
    by (auto simp: refs_def sample_dirent split: if_splits)
  have "ns_ok (dirent sample_view) (stored sample_view) 4 {}"
  proof (rule ns_okI)
    fix p n c m
    assume "dirent sample_view p n = Some (c, m)"
    then show "dir_at (stored sample_view) p \<and> target_ok (dirent sample_view) (stored sample_view) c m"
      unfolding target_ok_def refs
      by (auto simp: sample_dirent sample_stored dir_at_def max_refs_def is_dir_def S_IFDIR_def sample_inode_def
          ROOT_INODE_def split: if_splits)
  qed (auto simp: refs sample_stored dir_at_def is_dir_def S_IFDIR_def sample_inode_def ROOT_INODE_def split: if_splits)
  moreover have "delta_inv sample_view sq" for sq by (simp add: delta_inv_def sample_view_def)
  ultimately show ?thesis
    unfolding server_inv_def sample_server_view contents_ok_def
    by (simp add: sample_pending) (simp add: sample_server_def)
qed

lemma sample_room: "n < 2 ^ 63 \<Longrightarrow> room n sample_server"
  by (simp add: room_def sample_server_def seq_at_def)

lemma sample_dirs: "dir_at (stored (mem_view (kv_db sample_server))) 1" "dir_at (stored (mem_view (kv_db sample_server))) 3"
  unfolding sample_server_view by (simp_all add: sample_stored dir_at_def is_dir_def S_IFDIR_def sample_inode_def)


text \<open>How a property is applied to a run on the sample server.\<close>

lemmas sample_hyps = mem.rocksdb_axioms list_lru.lru_cache_axioms sample_server_inv

text \<open>A server started on an empty database, and its state after one request.\<close>

definition empty_kv :: "(mem_db, mem_txn) kv" where
  "empty_kv = \<lparr>kv_db = \<lparr>mem_kv = [], mem_faults = []\<rparr>, kv_txn = [], kv_seqs = (\<lambda>_. None)\<rparr>"

definition started :: "(mem_db, mem_txn, lru_list) server" where
  "started = \<lparr>kv_db = \<lparr>mem_kv = [((CF_INODES, encode_inode_key 1), serialize \<lparr>iv_version = 1, iv_inode = 1, iv_size = 0,
        iv_mode = 0x41FF, iv_nlink = 2, iv_uid = 0, iv_gid = 0, iv_atime = 100, iv_mtime = 100, iv_ctime = 100\<rparr>)],
      mem_faults = []\<rparr>, kv_txn = [], kv_seqs = (\<lambda>i. None),
      cw_cache = replicate 16 (1, []), cw_dirty = {}, cw_running = False, cw_notify_flag = False,
      cw_config = compaction_config_default, sv_default_loc = \<lparr>server_id = [0x64]\<rparr>,
      sv_alloc = alloc_new, sv_open_handles = Map.empty, sv_pending_deletes = {},
      sv_clock = (\<lambda>n. of_nat (100 + n)), sv_ticks = 1\<rparr>"

definition after_create :: "(mem_db, mem_txn, lru_list) server" where
  "after_create = snd (handle mem_rocks list_lru (Create 1 [0x61] 0x1A4 0 0) started)"

lemma started_run:
  "with_config mem_rocks list_lru \<lparr>server_id = [0x64]\<rparr> 16 compaction_config_default 0 0 (\<lambda>n. of_nat (100 + n)) empty_kv = Ok started"
proof -
  have c: "cache_new list_lru 16 = Ok (replicate 16 (1, []))"
    by (simp add: cache_new_def NUM_SHARDS_def list_lru_def map_replicate_const)
  show ?thesis
    unfolding with_config_def c
    by (simp add: started_def empty_kv_def alloc_load_def init_root_def meta_get_def meta_put_def need_cf_def call_db_def
        match_op_def now_secs_def ignore_def mem_rocks_def mem_view_def mem_set_def bind_def ret_def Let_def
        ROOT_INODE_def S_IFDIR_def)
qed

lemma started_root: "dir_at (stored (mem_view (kv_db started))) 1"
  by code_simp

lemma empty_kv_simps: "mem_view (kv_db empty_kv) = (\<lambda>_ _. None)" "kv_seqs empty_kv = (\<lambda>_. None)"
  by (simp_all add: empty_kv_def mem_view_def fun_eq_iff)

lemma after_create_run: "after_requests mem_rocks list_lru mem_view 1 after_create"
proof -
  have "after_requests mem_rocks list_lru mem_view 0 started"
    by (rule after_requests.start [where view = mem_view, OF started_run empty_kv_simps])
      (use started_root in \<open>auto simp: dir_at_def ROOT_INODE_def split: option.splits\<close>)
  then have "after_requests mem_rocks list_lru mem_view (Suc 0) after_create"
    unfolding after_create_def by (rule after_requests.request [OF _ _ prod.collapse [symmetric]]) (simp add: started_root)
  then show ?thesis by simp
qed

text \<open>A run that succeeds with an answer \<open>a\<close> shows the specification at \<open>a\<close>.\<close>

lemma implements_run:
  assumes "map_outcome f (fst (op s)) = Ok x" and "\<And>r s'. op s = (r, s') \<Longrightarrow> implements_late view okp errp s r s'"
  shows "\<exists>a s'. op s = (Ok a, s') \<and> f a = x \<and> server_inv view s' \<and> okp (abs_fs (view (kv_db s))) a (abs_fs (view (kv_db s')))"
proof -
  obtain r s' where run: "op s = (r, s')" by fastforce
  with assms show ?thesis by (cases r) (auto simp: implements_late_def implements_def)
qed

lemma implements_now: "implements view okp errp s r s' \<Longrightarrow> implements_late view okp errp s r s'"
  by (simp add: implements_late_def)

section \<open>The namespace\<close>



section \<open>Creating\<close>

text \<open>
  C5. \<^verbatim>\<open>create\<close> in an existing directory implements its specification: on success a name that was free
  leads to a regular file with a fresh inode number, the requested permission bits, one link and size
  0, the parent's times are updated and nothing else changes; on an error (name too long, name taken,
  a conflict or an I/O error of the store) nothing a client sees changes, except that an I/O error can
  be reported after the file was created, when saving the inode counter fails. In every case the
  invariant of the namespace holds again and the cache stays coherent with the store.
\<close>

theorem create_refines:
  assumes "rocksdb R view pend" and "lru_cache L entries cap" and "server_inv view s" and "room 12 s"
    and "dir_at (stored (view (kv_db s))) p" and "create R L p n mode uid gid s = (r, s')"
  shows "implements_late view (spec_create p n mode uid gid) (enter_error p n) s r s' \<and> keeps_coherent entries view s r s'"
  by (rule wpD [OF rocksdb.wp_create [OF assms(1-5)] assms(6)])

theorem create_refines_witness:
  "\<exists>attr s'. create mem_rocks list_lru 1 [0x62] 0x1A4 7 8 sample_server = (Ok attr, s') \<and> fa_mode attr = 0x81A4 \<and>
     server_inv mem_view s' \<and>
     spec_create 1 [0x62] 0x1A4 7 8 (abs_fs (mem_view (kv_db sample_server))) attr (abs_fs (mem_view (kv_db s')))"
proof (rule implements_run)
  show "map_outcome fa_mode (fst (create mem_rocks list_lru 1 [0x62] 0x1A4 7 8 sample_server)) = Ok 0x81A4" by code_simp
qed (rule conjunct1, rule create_refines [OF sample_hyps sample_room sample_dirs(1)], simp_all)

text \<open>
  \<^verbatim>\<open>mkdir\<close> in an existing directory implements its specification: a free name leads to an empty
  directory with a fresh inode number and two links, the parent gains a link and new times; failures
  behave as for \<^verbatim>\<open>create\<close>.
\<close>

lemma mkdir_refines:
  assumes "rocksdb R view pend" and "lru_cache L entries cap" and "server_inv view s" and "room 12 s"
    and "dir_at (stored (view (kv_db s))) p" and "mkdir R L p n mode uid gid s = (r, s')"
  shows "implements_late view (spec_mkdir p n mode uid gid) (enter_error p n) s r s' \<and> keeps_coherent entries view s r s'"
  by (rule wpD [OF rocksdb.wp_mkdir [OF assms(1-5)] assms(6)])

section \<open>Removing\<close>



text \<open>
  C8. \<^verbatim>\<open>rmdir\<close> implements its specification: it removes the name and the inode of an empty directory
  and takes a link from the parent; it refuses files and non-empty directories, and a failure changes
  nothing.
\<close>

theorem rmdir_refines:
  assumes "rocksdb R view pend" and "lru_cache L entries cap" and "server_inv view s" and "room 12 s"
    and "rmdir R L p n s = (r, s')"
  shows "implements view (spec_rmdir p n) (rmdir_error p n) s r s' \<and> keeps_coherent entries view s r s'"
  by (rule wpD [OF rocksdb.wp_rmdir [OF assms(1-4)] assms(5)])

theorem rmdir_refines_witness:
  "\<exists>a s'. rmdir mem_rocks list_lru 1 [0x64] sample_server = (Ok a, s') \<and> a = () \<and> server_inv mem_view s' \<and>
     spec_rmdir 1 [0x64] (abs_fs (mem_view (kv_db sample_server))) a (abs_fs (mem_view (kv_db s')))"
proof (rule implements_run)
  show "map_outcome (\<lambda>u. u) (fst (rmdir mem_rocks list_lru 1 [0x64] sample_server)) = Ok ()" by code_simp
qed (rule implements_now, rule conjunct1, rule rmdir_refines [OF sample_hyps sample_room], simp_all)

section \<open>Renaming and linking\<close>

text \<open>
  C7. \<^verbatim>\<open>rename\<close> into an existing directory implements its specification: the entry moves, an object at
  the target of the same kind is replaced (an empty directory loses its name, a file a link and, with
  the last one, its inode, which is then reported for purging), the parents' link counts and times
  follow. Every refusal leaves the file system unchanged, and the invariant of the namespace is kept.
\<close>

theorem rename_refines:
  assumes "rocksdb R view pend" and "server_inv view s" and "room 21 s"
    and "dir_at (stored (view (kv_db s))) p'" and "rename R L p n p' n' s = (r, s')"
  shows "implements view (spec_rename p n p' n') (rename_refused p n p' n') s r s'"
  by (rule wpD [OF rocksdb.wp_rename [OF assms(1-4)] assms(5)])

theorem rename_refines_witness:
  "\<exists>a s'. rename mem_rocks list_lru 1 [0x61] 3 [0x62] sample_server = (Ok a, s') \<and> rr_purged_inodes a = [] \<and>
     server_inv mem_view s' \<and>
     spec_rename 1 [0x61] 3 [0x62] (abs_fs (mem_view (kv_db sample_server))) a (abs_fs (mem_view (kv_db s')))"
proof (rule implements_run)
  show "map_outcome rr_purged_inodes (fst (rename mem_rocks list_lru 1 [0x61] 3 [0x62] sample_server)) = Ok []" by code_simp
qed (rule implements_now, rule rename_refines [OF mem.rocksdb_axioms sample_server_inv sample_room sample_dirs(2)], simp_all)

text \<open>
  C9. \<^verbatim>\<open>link\<close> implements its specification: a free name in an existing directory leads to the given
  file, whose link count grows by one; directories are refused and a failure changes nothing. The
  inode must not be one that only waits for its last handle to be closed, and its 32-bit link count
  must not be at its maximum; the server checks neither.
\<close>

theorem link_refines:
  assumes "rocksdb R view pend" and "lru_cache L entries cap" and "server_inv view s" and "room 12 s"
    and "i \<notin> sv_pending_deletes s" and "\<And>iv. stored (view (kv_db s)) i = Some iv \<Longrightarrow> iv_nlink iv + 1 \<noteq> 0"
    and "link R L p n i s = (r, s')"
  shows "implements view (spec_link p n i) (link_refused p n i) s r s' \<and> keeps_coherent entries view s r s'"
  by (rule wpD [OF rocksdb.wp_link [OF assms(1-6)] assms(7)])

theorem link_refines_witness:
  "\<exists>attr s'. link mem_rocks list_lru 3 [0x62] 2 sample_server = (Ok attr, s') \<and> fa_nlink attr = 2 \<and>
     server_inv mem_view s' \<and>
     spec_link 3 [0x62] 2 (abs_fs (mem_view (kv_db sample_server))) attr (abs_fs (mem_view (kv_db s')))"
proof (rule implements_run)
  show "map_outcome fa_nlink (fst (link mem_rocks list_lru 3 [0x62] 2 sample_server)) = Ok 2" by code_simp
next
  have "2 \<notin> sv_pending_deletes sample_server" by (simp add: sample_server_def)
  moreover have "iv_nlink iv + 1 \<noteq> 0" if "stored (mem_view (kv_db sample_server)) 2 = Some iv" for iv
    using that unfolding sample_server_view by (auto simp: sample_stored sample_inode_def)
  ultimately show "implements_late mem_view (spec_link 3 [0x62] 2) (link_refused 3 [0x62] 2) sample_server r s'"
    if "link mem_rocks list_lru 3 [0x62] 2 sample_server = (r, s')" for r s'
    using link_refines [OF sample_hyps sample_room _ _ that] by (intro implements_now) simp
qed

section \<open>Attributes, opening and closing\<close>


definition size_request :: "u64 \<Rightarrow> SetAttrRequest" where
  "size_request n = \<lparr>sa_mode = None, sa_uid = None, sa_gid = None, sa_size = Some n, sa_atime = None, sa_mtime = None\<rparr>"


text \<open>
  \<^verbatim>\<open>open\<close> implements its specification: the handle is the inode number; without \<^verbatim>\<open>O_TRUNC\<close> nothing a
  client sees changes, with it the size may become 0 and the times new. Directories are refused, and
  a failure changes nothing, except that an I/O error can be reported after the truncation, when
  reading the data location fails.
\<close>

lemma open_refines:
  assumes "rocksdb R view pend" and "lru_cache L entries cap" and "server_inv view s" and "room 12 s"
    and "open_op R L i flags s = (r, s')"
  shows "implements_late view (spec_open i flags) (open_error i) s r s'"
  by (rule wpD [OF rocksdb.wp_open [OF assms(1-4)] assms(5)])


text \<open>The sample server after opening the file \<open>a\<close> and removing its name.\<close>

definition unlinked_open :: "(mem_db, mem_txn, lru_list) server" where
  "unlinked_open = sample_server\<lparr>
     kv_db := mem_set CF_INODES (encode_inode_key 2) (Some (serialize (sample_inode 2 0x81A4 0 5)))
       (mem_set CF_DIR_ENTRIES (encode_dir_entry_key 1 [0x61]) None (kv_db sample_server)),
     sv_open_handles := [2 \<mapsto> 1], sv_pending_deletes := {2}\<rparr>"

lemma unlinked_open_inv: "server_inv mem_view unlinked_open"
proof -
  let ?V = "upd CF_INODES (encode_inode_key 2) (Some (serialize (sample_inode 2 0x81A4 0 5)))
    (upd CF_DIR_ENTRIES (encode_dir_entry_key 1 [0x61]) None sample_view)"
  have v: "mem_view (kv_db unlinked_open) = ?V" by (simp add: unlinked_open_def sample_server_view)
  have ns: "ns_ok (dirent sample_view) (stored sample_view) 4 {}" and d: "delta_inv sample_view (seq_of sample_server)"
    using sample_server_inv unfolding server_inv_def sample_server_view contents_ok_def by (simp_all add: sample_server_def)
  have st: "stored ?V = (stored sample_view)(2 \<mapsto> sample_inode 2 0x81A4 0 5)"
    by (simp add: sample_inode_def FORMAT_VERSION_def)
  have "ns_ok (set_entry 1 [0x61] None (dirent sample_view)) (stored ?V) 4 {2}"
    unfolding st
    by (rule ns_ok_remove [OF ns, where c = 2 and m = "0x81A4" and iv = "sample_inode 2 0x81A4 1 5"])
      (auto simp: sample_dirent sample_stored sample_inode_def max_refs_def is_dir_def S_IFDIR_def)
  then show ?thesis
    unfolding server_inv_def v contents_ok_def using d by (simp add: sample_pending) (simp add: unlinked_open_def sample_server_def)
qed

lemma unlinked_open_room: "n < 2 ^ 63 \<Longrightarrow> room n unlinked_open"
  using sample_room [of n] by (simp add: room_def unlinked_open_def)


section \<open>Reading\<close>

lemma sample_coherent: "coherent list_entries mem_view sample_server"
proof -
  have "cached list_entries (replicate 16 (1, [])) = Map.empty"
    by (simp add: fun_eq_iff cached_def shard_index_less list_entries_def)
  then show ?thesis by (simp add: coherent_def sample_server_def)
qed



lemma spec_symlink_new:
  assumes "spec_symlink p n target uid gid A attr A'"
  shows "\<exists>iv. af_attrs A' (fa_inode attr) = Some iv \<and> is_symlink (iv_mode iv) \<and> af_target A' (fa_inode attr) = Some target"
  using assms unfolding spec_symlink_def spec_enter_def
  by (auto simp: touch_def new_inode_value_def to_attr_def is_symlink_def S_IFLNK_def)



section \<open>Retrying\<close>

text \<open>The state after \<open>k\<close> runs of a closure.\<close>

primrec after :: "nat \<Rightarrow> ('s, 'a) fs_op \<Rightarrow> 's \<Rightarrow> 's" where
  "after 0 f s = s"
| "after (Suc k) f s = after k f (snd (f s))"

lemma retry_loop_first:
  "\<exists>k \<le> n. retry_loop (Suc n) f s = f (after k f s) \<and> (\<forall>j < k. fst (f (after j f s)) = Err TransactionConflict) \<and>
     (fst (f (after k f s)) = Err TransactionConflict \<longrightarrow> k = n)"
proof (induction n arbitrary: s)
  case 0
  then show ?case by (auto split: prod.splits outcome.splits)
next
  case (Suc n)
  show ?case
  proof (cases "fst (f s) = Err TransactionConflict")
    case True
    from Suc.IH [of "snd (f s)"] obtain k where k: "k \<le> n" "retry_loop (Suc n) f (snd (f s)) = f (after k f (snd (f s)))"
      "\<forall>j < k. fst (f (after j f (snd (f s)))) = Err TransactionConflict"
      "fst (f (after k f (snd (f s)))) = Err TransactionConflict \<longrightarrow> k = n" by blast
    have "retry_loop (Suc (Suc n)) f s = retry_loop (Suc n) f (snd (f s))"
      using True by (cases "f s") simp
    moreover have "\<forall>j < Suc k. fst (f (after j f s)) = Err TransactionConflict"
      using k(3) True by (auto simp: less_Suc_eq_0_disj)
    ultimately show ?thesis using k by (intro exI [of _ "Suc k"]) simp
  next
    case False
    then have "retry_loop (Suc (Suc n)) f s = f s" by (cases "f s"; cases "fst (f s)") auto
    with False show ?thesis by (intro exI [of _ 0]) simp
  qed
qed

text \<open>
  C16. Retrying ends after at most three attempts and answers with the first attempt that is not a
  transaction conflict: the earlier attempts all conflicted, and a conflict is reported to the caller
  only when the last attempt conflicted too.
\<close>

theorem retry_first_success:
  "\<exists>k < TXN_MAX_RETRIES. execute_with_retry f s = f (after k f s) \<and>
     (\<forall>j < k. fst (f (after j f s)) = Err TransactionConflict) \<and>
     (fst (execute_with_retry f s) = Err TransactionConflict \<longrightarrow> k = TXN_MAX_RETRIES - 1)"
  using retry_loop_first [of 2 f s]
  by (simp add: execute_with_retry_def TXN_MAX_RETRIES_def eval_nat_numeral less_Suc_eq_le del: retry_loop.simps) metis

definition busy_server :: "(mem_db, mem_txn, lru_list) server" where
  "busy_server = sample_server\<lparr>kv_db := (kv_db sample_server)\<lparr>mem_faults := [''Resource busy: Busy'']\<rparr>\<rparr>"

theorem retry_first_success_witness:
  "fst (rmdir_txn mem_rocks list_lru 1 [0x64] busy_server) = Err TransactionConflict \<and>
   is_ok (fst (execute_with_retry (rmdir_txn mem_rocks list_lru 1 [0x64]) busy_server))"
proof -
  let ?f = "rmdir_txn mem_rocks list_lru 1 [0x64]"
  obtain k where k: "k < TXN_MAX_RETRIES" "execute_with_retry ?f busy_server = ?f (after k ?f busy_server)"
    "\<forall>j < k. fst (?f (after j ?f busy_server)) = Err TransactionConflict"
    "fst (execute_with_retry ?f busy_server) = Err TransactionConflict \<longrightarrow> k = TXN_MAX_RETRIES - 1"
    using retry_first_success [of ?f busy_server] by (elim exE conjE)
  have c: "fst (?f busy_server) = Err TransactionConflict" by code_simp
  have ok: "is_ok (fst (?f (snd (?f busy_server))))" by code_simp
  have "k \<noteq> 0" using k(2,4) c by (cases k) (simp_all add: TXN_MAX_RETRIES_def)
  moreover have "\<not> 1 < k" using k(3) [rule_format, of 1] ok by auto
  ultimately have "k = 1" by simp
  with k(2) ok c show ?thesis by simp
qed

end
