(* ===== verification/Fsck.thy ===== *)
theory Fsck
  imports Namespace "HOL-Library.AList"
begin

unbundle bit_operations_syntax

text \<open>
  \<^verbatim>\<open>src/server/src/fsck.rs\<close>: the offline consistency checker, over the metadata store and the directory
  index of RocksDB. The hash maps are association lists (\<open>all_inodes\<close>) and functions
  (\<open>referenced_inodes\<close>, never iterated); \<open>ord\<close> is the unspecified order in which a hash map is iterated.
  The lemmas characterise the report: it is read-only, and it names exactly the stored inodes without
  a reference and the files whose link count differs from the number of references, where references
  are counted over the directories that could be read.
\<close>

section \<open>Reports\<close>

datatype FsckIssueKind = OrphanInode | NlinkMismatch | CounterInconsistency

record FsckIssue =
  fi_inode :: inode
  fi_kind :: FsckIssueKind
  fi_detail :: string

record FsckReport =
  fr_issues :: "FsckIssue list"
  fr_total_inodes :: nat
  fr_total_dir_entries :: nat

definition is_clean :: "FsckReport \<Rightarrow> bool" where
  "is_clean r \<longleftrightarrow> fr_issues r = []"

section \<open>The phases of \<open>check\<close>\<close>

type_synonym inode_table = "(inode \<times> InodeValue) list"

text \<open>Phase 1: one record of the scan. Undecodable values and keys of another length are skipped.\<close>

definition collect_inode :: "inode_table \<times> inode \<Rightarrow> bytes \<times> bytes \<Rightarrow> inode_table \<times> inode" where
  "collect_inode acc kv =
     (case acc of (all_inodes, max_inode) \<Rightarrow> case kv of (key, val) \<Rightarrow>
      if length key = 9 \<and> key ! 0 = INODE_KEY_PREFIX then
        let ino = from_be (bslice 1 9 key) in
        case deserialize val of
          Ok iv \<Rightarrow> (AList.update ino iv all_inodes, if ino > max_inode then ino else max_inode)
        | _ \<Rightarrow> (all_inodes, max_inode)
      else (all_inodes, max_inode))"

definition fsck_is_dir :: "InodeValue \<Rightarrow> bool" where
  "fsck_is_dir iv \<longleftrightarrow> iv_mode iv AND 0xF000 = 0x4000"

text \<open>Phase 2: references. A directory that cannot be listed is skipped.\<close>

definition add_reference :: "(inode \<Rightarrow> u32 option) \<Rightarrow> DirEntry \<Rightarrow> inode \<Rightarrow> u32 option" where
  "add_reference refd child =
     refd(de_inode child \<mapsto> (case refd (de_inode child) of None \<Rightarrow> 0 | Some c \<Rightarrow> c) + 1)"

fun count_references ::
  "('db, 'txn) rocks \<Rightarrow> inode list \<Rightarrow> (inode \<Rightarrow> u32 option) \<times> nat
   \<Rightarrow> (('db, 'txn, 'z) kv_scheme, (inode \<Rightarrow> u32 option) \<times> nat) fs_op" where
  "count_references R [] (refd, n) = ret (refd, n)"
| "count_references R (dir_ino # dirs) (refd, n) =
     match_op (list_dir R dir_ino) (\<lambda>r.
     case r of
       Ok children \<Rightarrow> count_references R dirs (foldl add_reference refd children, n + length children)
     | _ \<Rightarrow> count_references R dirs (refd, n))"

definition orphan_issue :: "(inode \<Rightarrow> u32 option) \<Rightarrow> inode \<Rightarrow> FsckIssue list" where
  "orphan_issue refd ino =
     (if ino = ROOT_INODE then []
      else if refd ino = None then
        [\<lparr>fi_inode = ino, fi_kind = OrphanInode,
          fi_detail = ''inode '' @ show_nat (unat ino) @ '' has no directory entry references''\<rparr>]
      else [])"

definition nlink_issue :: "(inode \<Rightarrow> u32 option) \<Rightarrow> inode \<Rightarrow> InodeValue \<Rightarrow> FsckIssue list" where
  "nlink_issue refd ino iv =
     (if fsck_is_dir iv then []
      else let expected_refs = (case refd ino of None \<Rightarrow> 0 | Some c \<Rightarrow> c) in
        if iv_nlink iv \<noteq> expected_refs then
          [\<lparr>fi_inode = ino, fi_kind = NlinkMismatch,
            fi_detail = ''inode '' @ show_nat (unat ino) @ '' has nlink='' @ show_nat (unat (iv_nlink iv)) @
              '' but '' @ show_nat (unat expected_refs) @ '' directory references''\<rparr>]
        else [])"

definition counter_issue :: "bytes option FsResult \<Rightarrow> inode \<Rightarrow> FsckIssue list" where
  "counter_issue r max_inode =
     (case r of
        Ok (Some raw) \<Rightarrow>
          (if length raw = 8 then
             let stored_next = (from_be (bslice 0 8 raw) :: u64) in
             if stored_next \<le> max_inode then
               [\<lparr>fi_inode = 0, fi_kind = CounterInconsistency,
                 fi_detail = ''next_inode counter ('' @ show_nat (unat stored_next) @
                   '') <= max existing inode ('' @ show_nat (unat max_inode) @ '')''\<rparr>]
             else []
           else [])
      | _ \<Rightarrow> [])"

definition check ::
  "('db, 'txn) rocks \<Rightarrow> (inode set \<Rightarrow> inode list) \<Rightarrow> (('db, 'txn, 'z) kv_scheme, FsckReport) fs_op" where
  "check R ord =
     bind (meta_scan_prefix R [INODE_KEY_PREFIX]) (\<lambda>scanned.
     let (all_inodes, max_inode) = foldl collect_inode ([], 0) scanned;
         items = map (\<lambda>ino. (ino, the (map_of all_inodes ino))) (ord (set (map fst all_inodes)));
         dir_inodes = map fst (filter (\<lambda>(_, iv). fsck_is_dir iv) items) in
     bind (count_references R dir_inodes (Map.empty, 0)) (\<lambda>(refd, total_dir_entries).
     let orphans = concat (map (\<lambda>(ino, _). orphan_issue refd ino) items);
         mismatches = concat (map (\<lambda>(ino, iv). nlink_issue refd ino iv) items) in
     match_op (meta_get R NEXT_INODE_KEY) (\<lambda>r.
     ret \<lparr>fr_issues = orphans @ mismatches @ counter_issue r max_inode,
          fr_total_inodes = length all_inodes, fr_total_dir_entries = total_dir_entries\<rparr>)))"

section \<open>What the phases compute\<close>

text \<open>Phase 1 reads back the stored inode values.\<close>

lemma inode_key_decode:
  assumes "length key = 9" and "key ! 0 = INODE_KEY_PREFIX"
  shows "key = encode_inode_key (from_be (bslice 1 9 key))"
proof -
  obtain b rest where key: "key = b # rest" "length rest = 8" using assms(1) by (cases key) auto
  then have "bslice 1 9 key = rest" by (simp add: bslice_def)
  with key assms(2) show ?thesis by (simp add: encode_inode_key_def to_be_from_be)
qed

lemma encode_inode_key_shape [simp]: "length (encode_inode_key i) = 9" "encode_inode_key i ! 0 = INODE_KEY_PREFIX"
  by (simp_all add: encode_inode_key_def)

lemma bslice_inode_key [simp]: "from_be (bslice (Suc 0) 9 (encode_inode_key i)) = (i :: inode)"
  by (simp add: bslice_def encode_inode_key_def from_be_to_be)

lemma encode_inode_key_inject: "encode_inode_key i = encode_inode_key j \<longleftrightarrow> i = j"
  by (metis bslice_inode_key)

lemma collect_inode_key:
  "collect_inode (al, m) (encode_inode_key i, b) = (case deserialize b of
     Ok iv \<Rightarrow> (AList.update i iv al, max m i) | _ \<Rightarrow> (al, m))"
  by (auto simp: collect_inode_def Let_def max_def split: outcome.split)

lemma collect_inode_other:
  "\<forall>i. key \<noteq> encode_inode_key i \<Longrightarrow> collect_inode (al, m) (key, b) = (al, m)"
  using inode_key_decode [of key] by (auto simp: collect_inode_def)

lemma collect_inodes:
  assumes "distinct (map fst kvs)" and "foldl collect_inode ([], 0) kvs = (al, m)"
  shows "distinct (map fst al) \<and>
    (\<forall>i. map_of al i = (case map_of kvs (encode_inode_key i) of None \<Rightarrow> None | Some b \<Rightarrow> ok_value (deserialize b))) \<and>
    (\<forall>i. map_of al i \<noteq> None \<longrightarrow> i \<le> m) \<and> (m = 0 \<or> map_of al m \<noteq> None)"
  using assms
proof (induction kvs arbitrary: al m rule: rev_induct)
  case Nil
  then show ?case by simp
next
  case (snoc kv kvs)
  obtain al1 m1 where f: "foldl collect_inode ([], 0) kvs = (al1, m1)" by fastforce
  note ih = snoc.IH [OF _ f]
  obtain key b where kv: "kv = (key, b)" by (cases kv)
  have last: "collect_inode (al1, m1) (key, b) = (al, m)" using snoc.prems(2) f kv by simp
  have fresh: "map_of kvs key = None" and d: "distinct (map fst kvs)"
    using snoc.prems(1) kv by (auto simp: map_of_eq_None_iff)
  have look: "map_of (kvs @ [kv]) k = (if k = key then Some b else map_of kvs k)" for k
    using fresh kv by (auto simp: map_add_def split: option.split)
  show ?case
  proof (cases "\<exists>i. key = encode_inode_key i")
    case False
    then have "al = al1 \<and> m = m1" using last collect_inode_other [of key al1 m1 b] by auto
    moreover have "encode_inode_key i \<noteq> key" for i using False by auto
    ultimately show ?thesis using ih [OF d] unfolding look by auto
  next
    case True
    then obtain i where key: "key = encode_inode_key i" by blast
    then have none: "map_of al1 i = None" using ih [OF d] fresh by simp
    show ?thesis
    proof (cases "deserialize b")
      case (Ok iv)
      then have "al = AList.update i iv al1" "m = max m1 i" using last key by (simp_all add: collect_inode_key)
      moreover from this have "j \<le> m" if "map_of al j \<noteq> None" for j
        using ih [OF d] that by (cases "j = i") (auto simp: update_conv' le_max_iff_disj)
      ultimately show ?thesis using ih [OF d] Ok key unfolding look
        by (auto simp: encode_inode_key_inject update_conv' distinct_update max_def)
    next
      case (Err e)
      then have "al = al1" "m = m1" using last key by (simp_all add: collect_inode_key)
      then show ?thesis using ih [OF d] Err key none unfolding look by (auto simp: encode_inode_key_inject)
    next
      case (Panic e)
      then have "al = al1" "m = m1" using last key by (simp_all add: collect_inode_key)
      then show ?thesis using ih [OF d] Panic key none unfolding look by (auto simp: encode_inode_key_inject)
    qed
  qed
qed

text \<open>Phase 2 counts the entries of the directories it could list.\<close>

definition refs_in :: "entries \<Rightarrow> inode set \<Rightarrow> inode \<Rightarrow> (inode \<times> str) set" where
  "refs_in D dirs c = {(p, n). p \<in> dirs \<and> (\<exists>m. D p n = Some (c, m))}"

definition entries_in :: "entries \<Rightarrow> inode set \<Rightarrow> (inode \<times> str) set" where
  "entries_in D dirs = {(p, n). p \<in> dirs \<and> D p n \<noteq> None}"

definition ref_count :: "(inode \<Rightarrow> u32 option) \<Rightarrow> inode \<Rightarrow> u32" where
  "ref_count refd i = (case refd i of None \<Rightarrow> 0 | Some c \<Rightarrow> c)"

lemma add_references:
  "ref_count (foldl add_reference refd es) i = ref_count refd i + of_nat (length (filter (\<lambda>e. de_inode e = i) es))"
  "foldl add_reference refd es i = None \<longleftrightarrow> refd i = None \<and> filter (\<lambda>e. de_inode e = i) es = []"
  by (induction es arbitrary: refd) (auto simp: add_reference_def ref_count_def)

text \<open>A listing has one record per entry.\<close>

definition lists :: "entries \<Rightarrow> inode \<Rightarrow> DirEntry list \<Rightarrow> bool" where
  "lists D p es \<longleftrightarrow> distinct (map de_name es) \<and>
     (\<forall>n i m. \<lparr>de_name = n, de_inode = i, de_kind = m\<rparr> \<in> set es \<longleftrightarrow> D p n = Some (i, m))"

lemma lists_mem: "lists D p es \<Longrightarrow> e \<in> set es \<longleftrightarrow> D p (de_name e) = Some (de_inode e, de_kind e)"
  by (cases e) (auto simp: lists_def)

lemma lists_keys:
  assumes "lists D p es"
  shows "refs_in D {p} i = Pair p ` de_name ` set (filter (\<lambda>e. de_inode e = i) es)"
    and "entries_in D {p} = Pair p ` de_name ` set es"
proof -
  have mem: "(\<exists>e \<in> set es. de_name e = n \<and> de_inode e = j) \<longleftrightarrow> (\<exists>m. D p n = Some (j, m))" for n j
  proof
    assume "\<exists>e \<in> set es. de_name e = n \<and> de_inode e = j"
    then show "\<exists>m. D p n = Some (j, m)" using lists_mem [OF assms] by auto
  next
    assume "\<exists>m. D p n = Some (j, m)"
    then obtain m where "\<lparr>de_name = n, de_inode = j, de_kind = m\<rparr> \<in> set es" using assms by (auto simp: lists_def)
    then show "\<exists>e \<in> set es. de_name e = n \<and> de_inode e = j" by force
  qed
  have "x \<in> refs_in D {p} i \<longleftrightarrow> x \<in> Pair p ` de_name ` set (filter (\<lambda>e. de_inode e = i) es)" for x
    using mem [of "snd x" i] by (cases x) (auto simp: refs_in_def image_iff)
  then show "refs_in D {p} i = Pair p ` de_name ` set (filter (\<lambda>e. de_inode e = i) es)" by blast
  have "x \<in> entries_in D {p} \<longleftrightarrow> x \<in> Pair p ` de_name ` set es" for x
    using mem [of "snd x"] lists_mem [OF assms] by (cases x) (auto simp: entries_in_def image_iff)
  then show "entries_in D {p} = Pair p ` de_name ` set es" by blast
qed

lemma lists_count:
  assumes "lists D p es"
  shows "length (filter (\<lambda>e. de_inode e = i) es) = card (refs_in D {p} i)"
    and "length es = card (entries_in D {p})"
    and "finite (refs_in D {p} i)" "finite (entries_in D {p})"
proof -
  have inj: "inj_on de_name A" if "A \<subseteq> set es" for A
    using assms that by (auto simp: lists_def distinct_map intro: inj_on_subset)
  have ds: "distinct es" using assms by (auto simp: lists_def distinct_map)
  have "card (Pair p ` de_name ` A) = card A" if "A \<subseteq> set es" for A
    using inj [OF that] by (simp add: card_image inj_on_def)
  then show "length (filter (\<lambda>e. de_inode e = i) es) = card (refs_in D {p} i)"
    and "length es = card (entries_in D {p})"
    using ds by (simp_all add: lists_keys [OF assms] distinct_card [symmetric] filter_is_subset del: set_filter)
  show "finite (refs_in D {p} i)" "finite (entries_in D {p})" by (simp_all add: lists_keys [OF assms])
qed

lemma refs_in_insert:
  "refs_in D (insert p A) i = refs_in D {p} i \<union> refs_in D A i"
  "entries_in D (insert p A) = entries_in D {p} \<union> entries_in D A"
  by (auto simp: refs_in_def entries_in_def)

definition counted :: "entries \<Rightarrow> inode set \<Rightarrow> (inode \<Rightarrow> u32 option) \<times> nat \<Rightarrow> bool" where
  "counted D A res \<longleftrightarrow> (\<forall>i. finite (refs_in D A i) \<and>
       ref_count (fst res) i = of_nat (card (refs_in D A i)) \<and> (fst res i = None \<longleftrightarrow> refs_in D A i = {})) \<and>
     finite (entries_in D A) \<and> snd res = card (entries_in D A)"

lemma counted_step:
  assumes "counted D A (refd, n)" and "lists D p es" and "p \<notin> A"
  shows "counted D (insert p A) (foldl add_reference refd es, n + length es)"
proof -
  note l = lists_count [OF assms(2)]
  have disj: "refs_in D {p} i \<inter> refs_in D A i = {}" "entries_in D {p} \<inter> entries_in D A = {}" for i
    using assms(3) by (auto simp: refs_in_def entries_in_def)
  have empty: "filter (\<lambda>e. de_inode e = i) es = [] \<longleftrightarrow> refs_in D {p} i = {}" for i
    using l(1,3) [of i] by (metis card_0_eq length_0_conv)
  show ?thesis
    using assms(1) l disj empty
    unfolding counted_def refs_in_insert(1) [of D p A] refs_in_insert(2) [of D p A] fst_conv snd_conv add_references
    by (auto simp: card_Un_disjoint add.commute)
qed

context rocksdb
begin

lemma wp_count_references:
  fixes s :: "('db, 'txn, 'z) kv_scheme"
  assumes "counted (dirent (view (kv_db s))) A res" and "distinct ds" and "set ds \<inter> A = {}"
  shows "wp (count_references R ds res) (\<lambda>r s'. view (kv_db s') = view (kv_db s) \<and>
    (\<exists>B res'. B \<subseteq> set ds \<and> r = Ok res' \<and> counted (dirent (view (kv_db s))) (A \<union> B) res')) s"
  using assms
proof (induction ds arbitrary: A res s)
  case Nil
  then show ?case by (cases res) (simp add: wp_simps)
next
  case (Cons p ds)
  obtain refd n where res: "res = (refd, n)" by (cases res)
  let ?D = "dirent (view (kv_db s))"
  let ?Q = "\<lambda>r s'. view (kv_db s') = view (kv_db s) \<and>
    (\<exists>B res'. B \<subseteq> set (p # ds) \<and> r = Ok res' \<and> counted ?D (A \<union> B) res')"
  have p: "p \<notin> A" and ds: "distinct ds" "set ds \<inter> A = {}" "set ds \<inter> insert p A = {}"
    using Cons.prems(2,3) by auto
  show ?case
    unfolding res count_references.simps wp_match_op
  proof (rule wp_list_dir)
    fix es d
    assume v: "view d = view (kv_db s)" and "sorted (map de_name es)" and d: "distinct (map de_name es)"
      and mem: "\<forall>n i m. \<lparr>de_name = n, de_inode = i, de_kind = m\<rparr> \<in> set es \<longleftrightarrow> ?D p n = Some (i, m)"
    have "counted ?D (insert p A) (foldl add_reference refd es, n + length es)"
      by (rule counted_step [OF Cons.prems(1) [unfolded res] _ p]) (simp add: lists_def d mem)
    then have c: "counted (dirent (view (kv_db (s\<lparr>kv_db := d\<rparr>)))) (insert p A) (foldl add_reference refd es, n + length es)"
      by (simp add: v)
    have "?Q r s'" if "view (kv_db s') = view (kv_db (s\<lparr>kv_db := d\<rparr>)) \<and> (\<exists>B res'. B \<subseteq> set ds \<and> r = Ok res' \<and>
        counted (dirent (view (kv_db (s\<lparr>kv_db := d\<rparr>)))) (insert p A \<union> B) res')" for r s'
    proof -
      from that obtain B res' where "B \<subseteq> set ds" "r = Ok res'" "counted ?D (insert p A \<union> B) res'" by (auto simp: v)
      then have "insert p B \<subseteq> set (p # ds) \<and> r = Ok res' \<and> counted ?D (A \<union> insert p B) res'" by auto
      then show ?thesis using that v by (metis kv.select_convs(1) kv.surjective kv.update_convs(1))
    qed
    from wp_mono [OF Cons.IH [OF c ds(1,3)] this]
    have "wp (count_references R ds (foldl add_reference refd es, n + length es)) ?Q (s\<lparr>kv_db := d\<rparr>)" .
    then show "case Ok es of Panic q \<Rightarrow> ?Q (Panic q) (s\<lparr>kv_db := d\<rparr>)
      | _ \<Rightarrow> wp (case Ok es of Ok children \<Rightarrow> count_references R ds (foldl add_reference refd children, n + length children)
          | _ \<Rightarrow> count_references R ds (refd, n)) ?Q (s\<lparr>kv_db := d\<rparr>)" by simp
  next
    fix e d
    assume v: "view d = view (kv_db s)"
    have "wp (count_references R ds (refd, n)) ?Q (s\<lparr>kv_db := d\<rparr>)"
      by (rule wp_mono [OF Cons.IH [of "s\<lparr>kv_db := d\<rparr>" A]])
        (use Cons.prems(1) res ds v in \<open>auto simp: v\<close>)
    then show "case Err e of Panic q \<Rightarrow> ?Q (Panic q) (s\<lparr>kv_db := d\<rparr>)
      | _ \<Rightarrow> wp (case Err e of Ok children \<Rightarrow> count_references R ds (foldl add_reference refd children, n + length children)
          | _ \<Rightarrow> count_references R ds (refd, n)) ?Q (s\<lparr>kv_db := d\<rparr>)" by simp
  qed
qed

end

section \<open>The report\<close>

text \<open>The directories whose entries are consulted.\<close>

definition fsck_dirs :: "view \<Rightarrow> inode set" where
  "fsck_dirs V = {p. \<exists>iv. stored V p = Some iv \<and> fsck_is_dir iv}"

definition reported :: "FsckReport \<Rightarrow> FsckIssueKind \<Rightarrow> inode \<Rightarrow> bool" where
  "reported rep k i \<longleftrightarrow> (\<exists>x \<in> set (fr_issues rep). fi_inode x = i \<and> fi_kind x = k)"

definition report_for :: "view \<Rightarrow> inode set \<Rightarrow> FsckReport \<Rightarrow> bool" where
  "report_for V B rep \<longleftrightarrow>
     fr_total_inodes rep = card (dom (stored V)) \<and>
     fr_total_dir_entries rep = card (entries_in (dirent V) B) \<and>
     (\<forall>i. reported rep OrphanInode i \<longleftrightarrow>
        i \<noteq> ROOT_INODE \<and> stored V i \<noteq> None \<and> refs_in (dirent V) B i = {}) \<and>
     (\<forall>i. reported rep NlinkMismatch i \<longleftrightarrow>
        (\<exists>iv. stored V i = Some iv \<and> \<not> fsck_is_dir iv \<and> iv_nlink iv \<noteq> of_nat (card (refs_in (dirent V) B i)))) \<and>
     (\<forall>i. reported rep CounterInconsistency i \<longrightarrow>
        (\<exists>raw. V CF_INODES NEXT_INODE_KEY = Some raw \<and> length raw = 8 \<and>
           (from_be raw = (0 :: u64) \<or> (\<exists>j. stored V j \<noteq> None \<and> from_be raw \<le> j))))"

lemma map_of_scan:
  assumes "finite (dom f)"
  shows "map_of (scan f p) k = (if prefix p k then f k else None)"
proof (cases "prefix p k \<and> f k \<noteq> None")
  case True
  then have "(k, the (f k)) \<in> set (scan f p)" using set_scan [OF assms] by auto
  then show ?thesis using True distinct_scan [of f p] by (simp add: map_of_is_SomeI)
next
  case False
  then have "k \<notin> fst ` set (scan f p)" using set_scan [OF assms] by auto
  then show ?thesis using False by (auto simp: map_of_eq_None_iff)
qed

lemma stored_scan:
  assumes "finite (dom (V CF_INODES))"
    and "foldl collect_inode ([], 0) (scan (V CF_INODES) [INODE_KEY_PREFIX]) = (al, m)"
  shows "map_of al = stored V" and "distinct (map fst al)" and "m = 0 \<or> stored V m \<noteq> None"
    and "length al = card (dom (stored V))"
proof -
  have p: "prefix [INODE_KEY_PREFIX] (encode_inode_key i)" for i by (simp add: encode_inode_key_def)
  note c = collect_inodes [OF distinct_scan assms(2)]
  then show a: "map_of al = stored V" and d: "distinct (map fst al)"
    by (auto simp: fun_eq_iff map_of_scan [OF assms(1)] p stored_def)
  from c show "m = 0 \<or> stored V m \<noteq> None" unfolding a by blast
  have "length al = card (fst ` set al)" using distinct_card [OF d] by simp
  then show "length al = card (dom (stored V))" by (simp add: a [symmetric] dom_map_of_conv_image_fst)
qed

lemma issue_kinds:
  "x \<in> set (orphan_issue refd i) \<longleftrightarrow> i \<noteq> ROOT_INODE \<and> refd i = None \<and>
     x = \<lparr>fi_inode = i, fi_kind = OrphanInode, fi_detail = ''inode '' @ show_nat (unat i) @ '' has no directory entry references''\<rparr>"
  "x \<in> set (nlink_issue refd i iv) \<Longrightarrow> fi_inode x = i \<and> fi_kind x = NlinkMismatch"
  "nlink_issue refd i iv = [] \<longleftrightarrow> fsck_is_dir iv \<or> iv_nlink iv = ref_count refd i"
  "x \<in> set (counter_issue r mx) \<Longrightarrow> fi_kind x = CounterInconsistency \<and>
     (\<exists>raw. r = Ok (Some raw) \<and> length raw = 8 \<and> from_be raw \<le> mx)"
  by (auto simp: orphan_issue_def nlink_issue_def counter_issue_def ref_count_def Let_def slice_all
      split: if_splits outcome.splits option.splits)

lemma report_forI:
  assumes items: "set items = {(i, iv). stored V i = Some iv}"
    and counted: "counted (dirent V) B (refd, n)"
    and mx: "mx = 0 \<or> stored V mx \<noteq> None"
    and r: "r = Ok (V CF_INODES NEXT_INODE_KEY) \<or> (\<exists>e. r = Err e)"
  shows "report_for V B \<lparr>fr_issues = concat (map (\<lambda>(i, _). orphan_issue refd i) items) @
      concat (map (\<lambda>(i, iv). nlink_issue refd i iv) items) @ counter_issue r mx,
    fr_total_inodes = card (dom (stored V)), fr_total_dir_entries = n\<rparr>" (is "report_for V B ?rep")
proof -
  let ?O = "concat (map (\<lambda>(i, _). orphan_issue refd i) items)" and ?N = "concat (map (\<lambda>(i, iv). nlink_issue refd i iv) items)"
  have iss: "fr_issues ?rep = ?O @ ?N @ counter_issue r mx" by simp
  have kinds: "x \<in> set ?O \<Longrightarrow> fi_kind x = OrphanInode" "x \<in> set ?N \<Longrightarrow> fi_kind x = NlinkMismatch"
    "x \<in> set (counter_issue r mx) \<Longrightarrow> fi_kind x = CounterInconsistency" for x
    using issue_kinds by (fastforce split: prod.splits)+
  have "reported ?rep OrphanInode i \<longleftrightarrow> (\<exists>x \<in> set ?O. fi_inode x = i)" for i
    unfolding reported_def iss using kinds by fastforce
  moreover have "(\<exists>x \<in> set ?O. fi_inode x = i) \<longleftrightarrow> (\<exists>iv. (i, iv) \<in> set items) \<and> i \<noteq> ROOT_INODE \<and> refd i = None" for i
    by (auto simp: issue_kinds(1) split: prod.splits intro!: bexI)
  ultimately have O: "reported ?rep OrphanInode i \<longleftrightarrow>
      i \<noteq> ROOT_INODE \<and> stored V i \<noteq> None \<and> refs_in (dirent V) B i = {}" for i
    using counted items by (auto simp: counted_def)
  have "reported ?rep NlinkMismatch i \<longleftrightarrow> (\<exists>x \<in> set ?N. fi_inode x = i)" for i
    unfolding reported_def iss using kinds by fastforce
  moreover have "(\<exists>x \<in> set ?N. fi_inode x = i) \<longleftrightarrow> (\<exists>iv. (i, iv) \<in> set items \<and> nlink_issue refd i iv \<noteq> [])" for i
  proof
    assume "\<exists>x \<in> set ?N. fi_inode x = i"
    then show "\<exists>iv. (i, iv) \<in> set items \<and> nlink_issue refd i iv \<noteq> []"
      using issue_kinds(2) by (fastforce split: prod.splits)
  next
    assume "\<exists>iv. (i, iv) \<in> set items \<and> nlink_issue refd i iv \<noteq> []"
    then obtain iv x where iv: "(i, iv) \<in> set items" and x: "x \<in> set (nlink_issue refd i iv)"
      by (meson list.set_sel(1))
    then have "x \<in> set ?N" by auto
    with issue_kinds(2) [OF x] show "\<exists>x \<in> set ?N. fi_inode x = i" by blast
  qed
  ultimately have N: "reported ?rep NlinkMismatch i \<longleftrightarrow>
      (\<exists>iv. stored V i = Some iv \<and> \<not> fsck_is_dir iv \<and> iv_nlink iv \<noteq> of_nat (card (refs_in (dirent V) B i)))" for i
    using counted items by (auto simp: counted_def issue_kinds(3))
  have C: "\<exists>raw. V CF_INODES NEXT_INODE_KEY = Some raw \<and> length raw = 8 \<and>
      (from_be raw = (0 :: u64) \<or> (\<exists>j. stored V j \<noteq> None \<and> from_be raw \<le> j))"
    if "reported ?rep CounterInconsistency i" for i
  proof -
    from that obtain x where "x \<in> set (counter_issue r mx)" unfolding reported_def iss using kinds by fastforce
    from issue_kinds(4) [OF this] r obtain raw
      where raw: "V CF_INODES NEXT_INODE_KEY = Some raw" "length raw = 8" "from_be raw \<le> mx" by (metis outcome.distinct(1) outcome.inject(1))
    with mx have "from_be raw = (0 :: u64) \<or> (\<exists>j. stored V j \<noteq> None \<and> from_be raw \<le> j)" by auto
    with raw show ?thesis by blast
  qed
  show ?thesis using O N C counted by (simp add: report_for_def counted_def)
qed

context rocksdb
begin

lemma wp_check:
  fixes s :: "('db, 'txn, 'z) kv_scheme"
  assumes ord: "\<And>A. finite A \<Longrightarrow> set (ord A) = A \<and> distinct (ord A)"
  shows "wp (check R ord) (\<lambda>r s'. view (kv_db s') = view (kv_db s) \<and>
    (\<forall>rep. r = Ok rep \<longrightarrow> (\<exists>B. B \<subseteq> fsck_dirs (view (kv_db s)) \<and> report_for (view (kv_db s)) B rep))) s"
proof -
  let ?V = "view (kv_db s)"
  obtain al m where f: "foldl collect_inode ([], 0) (scan (?V CF_INODES) [INODE_KEY_PREFIX]) = (al, m)" by fastforce
  note al = stored_scan [where V = ?V, OF finite_view f]
  define items where "items = map (\<lambda>ino. (ino, the (map_of al ino))) (ord (set (map fst al)))"
  define dirs where "dirs = map fst (filter (\<lambda>(_, iv). fsck_is_dir iv) items)"
  have dom: "set (map fst al) = dom (stored ?V)" by (simp add: al(1) [symmetric] dom_map_of_conv_image_fst)
  have o: "set (ord (set (map fst al))) = dom (stored ?V)" "distinct (ord (set (map fst al)))"
    using ord [of "set (map fst al)"] dom by simp_all
  have items: "set items = {(i, iv). stored ?V i = Some iv}"
    using o(1) by (force simp: items_def al(1))
  have "map fst items = ord (set (map fst al))" by (simp add: items_def comp_def)
  then have "distinct (map fst items)" using o(2) by simp
  then have dirs: "distinct dirs" "set dirs = fsck_dirs ?V"
    by (auto simp: dirs_def distinct_map_filter items fsck_dirs_def image_iff)
  have init: "counted (dirent ?V) {} (Map.empty, 0)"
    by (simp add: counted_def refs_in_def entries_in_def ref_count_def)
  let ?Q = "\<lambda>r s'. view (kv_db s') = ?V \<and> (\<forall>rep. r = Ok rep \<longrightarrow> (\<exists>B. B \<subseteq> fsck_dirs ?V \<and> report_for ?V B rep))"
  have tail: "wp (match_op (meta_get R NEXT_INODE_KEY) (\<lambda>r. ret \<lparr>fr_issues =
        concat (map (\<lambda>(ino, _). orphan_issue refd ino) items) @
        concat (map (\<lambda>(ino, iv). nlink_issue refd ino iv) items) @ counter_issue r m,
      fr_total_inodes = length al, fr_total_dir_entries = n\<rparr>)) ?Q s1"
    if v: "view (kv_db s1) = ?V" and B: "B \<subseteq> set dirs" "counted (dirent ?V) B (refd, n)" for s1 :: "('db, 'txn, 'z) kv_scheme" and refd n B
    unfolding wp_match_op wp_ret al(4)
    by (rule wp_meta_get) (use v B dirs(2) report_forI [OF items B(2) al(3)] in \<open>auto simp: wp_simps\<close>)
  show ?thesis
    unfolding check_def wp_bind
  proof (rule wp_meta_scan_prefix)
    fix d
    assume v: "view d = ?V"
    have c: "counted (dirent (view (kv_db (s\<lparr>kv_db := d\<rparr>)))) {} (Map.empty, 0)" using init v by simp
    note cr = wp_count_references [OF c dirs(1) Int_empty_right]
    show "andthen (\<lambda>scanned. let (all_inodes, max_inode) = foldl collect_inode ([], 0) scanned;
         items = map (\<lambda>ino. (ino, the (map_of all_inodes ino))) (ord (set (map fst all_inodes)));
         dir_inodes = map fst (filter (\<lambda>(_, iv). fsck_is_dir iv) items) in
       bind (count_references R dir_inodes (Map.empty, 0)) (\<lambda>(refd, total_dir_entries).
       let orphans = concat (map (\<lambda>(ino, _). orphan_issue refd ino) items);
           mismatches = concat (map (\<lambda>(ino, iv). nlink_issue refd ino iv) items) in
       match_op (meta_get R NEXT_INODE_KEY) (\<lambda>r.
       ret \<lparr>fr_issues = orphans @ mismatches @ counter_issue r max_inode,
          fr_total_inodes = length all_inodes, fr_total_dir_entries = total_dir_entries\<rparr>))) ?Q
       (Ok (scan (?V CF_INODES) [INODE_KEY_PREFIX])) (s\<lparr>kv_db := d\<rparr>)"
      unfolding andthen.simps f Let_def prod.case items_def [symmetric] dirs_def [symmetric] wp_bind
    proof (rule wp_mono [OF cr], elim conjE exE)
      fix r :: "((inode \<Rightarrow> u32 option) \<times> nat) FsResult" and s1 :: "('db, 'txn, 'z) kv_scheme" and B res'
      assume "view (kv_db s1) = view (kv_db (s\<lparr>kv_db := d\<rparr>))" and B: "B \<subseteq> set dirs" and r: "r = Ok res'"
        and c: "counted (dirent (view (kv_db (s\<lparr>kv_db := d\<rparr>)))) ({} \<union> B) res'"
      then have v1: "view (kv_db s1) = ?V" by (simp add: v)
      obtain refd n where res: "res' = (refd, n)" by (cases res')
      from c have c1: "counted (dirent ?V) B (refd, n)" by (simp add: v res)
      show "andthen (\<lambda>(refd, total_dir_entries). match_op (meta_get R NEXT_INODE_KEY) (\<lambda>r. ret \<lparr>fr_issues =
            concat (map (\<lambda>(ino, _). orphan_issue refd ino) items) @
            concat (map (\<lambda>(ino, iv). nlink_issue refd ino iv) items) @ counter_issue r m,
          fr_total_inodes = length al, fr_total_dir_entries = total_dir_entries\<rparr>)) ?Q r s1"
        unfolding r res andthen.simps prod.case by (rule tail [OF v1 B c1])
    qed
  qed auto
qed

end

section \<open>Properties\<close>



end
