(* ===== verification/Rpc_Types.thy ===== *)
theory Rpc_Types
  imports Core_Types
begin

text \<open>
  The vocabulary of the RPC layer (\<^verbatim>\<open>src/rpc\<close>): the messages of \<^verbatim>\<open>proto/metadata.proto\<close> and
  \<^verbatim>\<open>proto/data.proto\<close> as records (a message-typed field is optional, as in the generated code), the
  status of a failed call, the display texts of \<^verbatim>\<open>FsError\<close>, and what the code relies on of the gRPC
  library: a call either runs the server's handler once and brings its answer back, or fails with one
  of the codes the library itself produces, before or after the handler ran.
\<close>

section \<open>Status\<close>

datatype Code =
    Code_Ok | Cancelled | Unknown | InvalidArgument | DeadlineExceeded | CodeNotFound | CodeAlreadyExists
  | CodePermissionDenied | ResourceExhausted | FailedPrecondition | Aborted | OutOfRange | Unimplemented
  | Internal | Unavailable | DataLoss | Unauthenticated

record Status =
  st_code :: Code
  st_message :: string

definition status :: "Code \<Rightarrow> string \<Rightarrow> Status" where
  "status c m = \<lparr>st_code = c, st_message = m\<rparr>"

lemma status_simps [simp]: "st_code (status c m) = c" "st_message (status c m) = m"
  by (simp_all add: status_def)

type_synonym ('s, 'a) rpc_op = "('s, Status, 'a) op"

text \<open>\<^verbatim>\<open>err.to_string()\<close>.\<close>

fun error_text :: "FsError \<Rightarrow> string" where
  "error_text NotImplemented = ''not implemented''"
| "error_text NotFound = ''not found''"
| "error_text AlreadyExists = ''already exists''"
| "error_text NotADirectory = ''not a directory''"
| "error_text IsADirectory = ''is a directory''"
| "error_text DirectoryNotEmpty = ''directory not empty''"
| "error_text NameTooLong = ''name too long''"
| "error_text (Io m) = ''io error: '' @ m"
| "error_text (InvalidInput m) = ''invalid input: '' @ m"
| "error_text PermissionDenied = ''permission denied''"
| "error_text TransactionConflict = ''transaction conflict''"
| "error_text (Other m) = ''other: '' @ m"

section \<open>Messages of the metadata service\<close>

record ProtoFileAttr =
  pa_inode :: u64
  pa_size :: u64
  pa_mode :: u32
  pa_nlink :: u32
  pa_uid :: u32
  pa_gid :: u32
  pa_atime :: u64
  pa_mtime :: u64
  pa_ctime :: u64

record ProtoStatFs =
  ps_blocks :: u64
  ps_bfree :: u64
  ps_bavail :: u64
  ps_files :: u64
  ps_ffree :: u64
  ps_bsize :: u32
  ps_namelen :: u32

record ProtoDirEntry =
  pe_name :: str
  pe_inode :: u64
  pe_kind :: u32

record ProtoDataLocation =
  pl_server_id :: str

record LookupRequest =
  lo_parent :: u64
  lo_name :: str

record GetattrRequest =
  ga_inode :: u64

record ReaddirRequest =
  rq_inode :: u64

record ReaddirResponse =
  rp_entries :: "ProtoDirEntry list"

record CreateRequest =
  cr_parent :: u64
  cr_name :: str
  cr_mode :: u32
  cr_uid :: u32
  cr_gid :: u32

record CreateAndOpenRequest =
  cq_parent :: u64
  cq_name :: str
  cq_mode :: u32
  cq_uid :: u32
  cq_gid :: u32
  cq_flags :: u32

record ProtoCreateAndOpenResponse =
  cp_attr :: "ProtoFileAttr option"
  cp_handle :: u64
  cp_data_location :: "ProtoDataLocation option"

record MkdirRequest =
  mk_parent :: u64
  mk_name :: str
  mk_mode :: u32
  mk_uid :: u32
  mk_gid :: u32

record UnlinkRequest =
  ul_parent :: u64
  ul_name :: str

record ProtoUnlinkResponse =
  up_purged_inodes :: "u64 list"

record RmdirRequest =
  rm_parent :: u64
  rm_name :: str

record RenameRequest =
  rn_parent :: u64
  rn_name :: str
  rn_new_parent :: u64
  rn_new_name :: str

record ProtoRenameResponse =
  rnp_purged_inodes :: "u64 list"

record ProtoSetAttrRequest =
  sq_inode :: u64
  sq_mode :: "u32 option"
  sq_uid :: "u32 option"
  sq_gid :: "u32 option"
  sq_size :: "u64 option"
  sq_atime :: "u64 option"
  sq_mtime :: "u64 option"

record ProtoSetAttrResponse =
  sp_attr :: "ProtoFileAttr option"
  sp_needs_truncate :: "u64 option"

record StatfsRequest =
  sfq_inode :: u64

record OpenRequest =
  oq_inode :: u64
  oq_flags :: u32

record ProtoOpenResponse =
  op_handle :: u64
  op_data_location :: "ProtoDataLocation option"

record ReportWriteRequest =
  rw_inode :: u64
  rw_new_size :: u64
  rw_mtime :: u64

record LinkRequest =
  lk_parent :: u64
  lk_name :: str
  lk_target_inode :: u64

record SymlinkRequest =
  sl_parent :: u64
  sl_name :: str
  sl_link_target :: str
  sl_uid :: u32
  sl_gid :: u32

record ReadlinkRequest =
  rl_inode :: u64

record ReadlinkResponse =
  rl_target :: str

record ReleaseRequest =
  re_inode :: u64

record ProtoReleaseResponse =
  rep_purged_inodes :: "u64 list"

section \<open>Messages of the data service\<close>

record ReadDataRequest =
  dr_inode :: u64
  dr_offset :: u64
  dr_size :: u32

record ReadDataResponse =
  dr_data :: bytes

record WriteDataRequest =
  dw_inode :: u64
  dw_offset :: u64
  dw_data :: bytes

record WriteDataResponse =
  dw_bytes_written :: u32

record TruncateRequest =
  dt_inode :: u64
  dt_size :: u64

record FlushRequest =
  df_inode :: u64

record DeleteDataRequest =
  dd_inode :: u64

section \<open>Calls\<close>

text \<open>A handler that forwards to a backend: the answer and the error are converted.\<close>

definition serve :: "(FsError \<Rightarrow> Status) \<Rightarrow> ('a \<Rightarrow> 'b) \<Rightarrow> ('s, 'a) fs_op \<Rightarrow> ('s, 'b) rpc_op" where
  "serve err enc f s =
     (case f s of
        (Ok a, s') \<Rightarrow> (Ok (enc a), s')
      | (Err e, s') \<Rightarrow> (Err (err e), s')
      | (Panic q, s') \<Rightarrow> (Panic q, s'))"

text \<open>A stub call whose answer and status are converted.\<close>

definition receive :: "(Status \<Rightarrow> FsError) \<Rightarrow> ('b \<Rightarrow> 'a) \<Rightarrow> ('s, 'b) rpc_op \<Rightarrow> ('s, 'a) fs_op" where
  "receive err dec f s =
     (case f s of
        (Ok b, s') \<Rightarrow> (Ok (dec b), s')
      | (Err st, s') \<Rightarrow> (Err (err st), s')
      | (Panic q, s') \<Rightarrow> (Panic q, s'))"

text \<open>
  The codes the gRPC library produces by itself; it never produces \<^verbatim>\<open>INVALID_ARGUMENT\<close>,
  \<^verbatim>\<open>NOT_FOUND\<close>, \<^verbatim>\<open>ALREADY_EXISTS\<close>, \<^verbatim>\<open>FAILED_PRECONDITION\<close>, \<^verbatim>\<open>ABORTED\<close>, \<^verbatim>\<open>OUT_OF_RANGE\<close> or \<^verbatim>\<open>DATA_LOSS\<close>.
\<close>

definition transport :: "Status \<Rightarrow> bool" where
  "transport st \<longleftrightarrow> st_code st \<in> {Cancelled, Unknown, DeadlineExceeded, CodePermissionDenied, ResourceExhausted,
     Unimplemented, Internal, Unavailable, Unauthenticated}"

text \<open>
  What a stub does with a handler: it brings the handler's answer, or fails by itself, the handler
  having run once or not at all. A panic of the handler is such a failure.
\<close>

definition carries :: "('q \<Rightarrow> ('s, 'b) rpc_op) \<Rightarrow> ('q \<Rightarrow> ('s, 'b) rpc_op) \<Rightarrow> bool" where
  "carries h stub \<longleftrightarrow> (\<forall>q s r s'. stub q s = (r, s') \<longrightarrow>
     h q s = (r, s') \<and> (\<forall>m. r \<noteq> Panic m) \<or>
     (\<exists>st. r = Err st \<and> transport st \<and> (s' = s \<or> s' = snd (h q s))))"

text \<open>Channels with a fixed fault: every call is delivered, lost, or loses its answer.\<close>

datatype wire = Delivered | Lost string | Unanswered string

fun over :: "wire \<Rightarrow> ('q \<Rightarrow> ('s, 'b) rpc_op) \<Rightarrow> 'q \<Rightarrow> ('s, 'b) rpc_op" where
  "over Delivered h q s = (case h q s of (Panic m, s') \<Rightarrow> (Err (status Cancelled m), s') | x \<Rightarrow> x)"
| "over (Lost m) h q s = (Err (status Unavailable m), s)"
| "over (Unanswered m) h q s = (Err (status DeadlineExceeded m), snd (h q s))"

lemma carries_over: "carries h (over w h)"
  unfolding carries_def
  by (cases w) (auto simp: transport_def status_def split: prod.splits outcome.splits)

text \<open>A call through a channel, seen from both ends.\<close>

fun map_error_result :: "(FsError \<Rightarrow> FsError) \<Rightarrow> 'a FsResult \<Rightarrow> 'a FsResult" where
  "map_error_result g (Ok a) = Ok a"
| "map_error_result g (Err e) = Err (g e)"
| "map_error_result g (Panic q) = Panic q"

lemma carried:
  assumes "carries h stub" and "h q = serve err enc f" and "\<And>a. dec (enc a) = a"
    and "receive err' dec (stub q) s = (r, s')"
  shows "(\<exists>r0. f s = (r0, s') \<and> (\<forall>m. r0 \<noteq> Panic m) \<and> r = map_error_result (\<lambda>e. err' (err e)) r0) \<or>
    (\<exists>st. transport st \<and> r = Err (err' st) \<and> (s' = s \<or> s' = snd (f s)))"
proof -
  obtain b t where st: "stub q s = (b, t)" by fastforce
  have r: "r = (case b of Ok x \<Rightarrow> Ok (dec x) | Err e \<Rightarrow> Err (err' e) | Panic m \<Rightarrow> Panic m)" "s' = t"
    using assms(4) st by (auto simp: receive_def split: outcome.splits)
  obtain r0 s0 where f: "f s = (r0, s0)" by fastforce
  have h: "h q s = (case r0 of Ok a \<Rightarrow> Ok (enc a) | Err e \<Rightarrow> Err (err e) | Panic m \<Rightarrow> Panic m, s0)"
    using f assms(2) by (cases r0) (simp_all add: serve_def)
  from assms(1) st consider "h q s = (b, t)" "\<forall>m. b \<noteq> Panic m"
    | x where "b = Err x" "transport x" "t = s \<or> t = snd (h q s)"
    unfolding carries_def by blast
  then show ?thesis
  proof cases
    case 1
    then show ?thesis using h f r assms(3) by (cases r0) auto
  next
    case 2
    then show ?thesis using h f r by auto
  qed
qed

end
