(* ===== verification/Raw_Disk.thy ===== *)
theory Raw_Disk
  imports Core_Types
begin

text \<open>
  File data: \<^verbatim>\<open>src/storage/src/rawdisk.rs\<close> (a flat file in which every inode owns the region
  \<open>[inode * max_file_size, (inode + 1) * max_file_size)\<close>) and the \<^verbatim>\<open>DataServer\<close> of
  \<^verbatim>\<open>src/dataserver/src/lib.rs\<close> on top of any \<^verbatim>\<open>DataStore\<close>.

  The backing \<^verbatim>\<open>File\<close> is its length and its bytes. The operating system's freedom in \<^verbatim>\<open>pread\<close>,
  \<^verbatim>\<open>pwrite\<close> and \<^verbatim>\<open>fdatasync\<close> is a schedule in the state: the \<open>n\<close>-th system call transfers everything,
  transfers only a first part, or fails with a message. A positioned transfer whose offset does not
  fit a signed 64-bit number is refused, as the kernel does.

  The contract \<open>data_store\<close> says what a store of file data promises: its contents are one infinite
  zero-initialised byte array per inode, cut off at the capacity; round trips and isolation follow
  from it. It is interpreted by the raw disk and, through it, by the data server.
\<close>

section \<open>The backing file\<close>

datatype io_event = Full | Short nat | Fail string

record rawdisk =
  rd_len :: nat
  rd_data :: "nat \<Rightarrow> u8"
  rd_io :: "nat \<Rightarrow> io_event"
  rd_calls :: nat
  max_file_size :: u64

definition file_byte :: "('z) rawdisk_scheme \<Rightarrow> nat \<Rightarrow> u8" where
  "file_byte d k = (if k < rd_len d then rd_data d k else 0)"

definition tick_io :: "('z) rawdisk_scheme \<Rightarrow> ('z) rawdisk_scheme" where
  "tick_io d = d\<lparr>rd_calls := Suc (rd_calls d)\<rparr>"

definition bad_offset :: "u64 \<Rightarrow> bool" where
  "bad_offset pos \<longleftrightarrow> 2 ^ 63 \<le> unat pos"

text \<open>How many of \<open>n\<close> bytes the next system call transfers.\<close>

definition transferred :: "('z) rawdisk_scheme \<Rightarrow> nat \<Rightarrow> nat" where
  "transferred d n = (case rd_io d (rd_calls d) of Full \<Rightarrow> n | Short m \<Rightarrow> min m n | Fail _ \<Rightarrow> 0)"

definition file_read_at :: "nat \<Rightarrow> u64 \<Rightarrow> (('z) rawdisk_scheme, bytes) fs_op" where
  "file_read_at n pos d =
     (if bad_offset pos then (Err (Io ''Invalid argument (os error 22)''), tick_io d)
      else case rd_io d (rd_calls d) of
        Fail msg \<Rightarrow> (Err (Io msg), tick_io d)
      | _ \<Rightarrow> (Ok (map (\<lambda>k. file_byte d (unat pos + k)) [0..<min (transferred d n) (rd_len d - unat pos)]),
              tick_io d))"

definition file_write_at :: "bytes \<Rightarrow> u64 \<Rightarrow> (('z) rawdisk_scheme, nat) fs_op" where
  "file_write_at buf pos d =
     (if bad_offset pos then (Err (Io ''Invalid argument (os error 22)''), tick_io d)
      else case rd_io d (rd_calls d) of
        Fail msg \<Rightarrow> (Err (Io msg), tick_io d)
      | _ \<Rightarrow> (let n = transferred d (length buf); a = unat pos in
              (Ok n,
               if n = 0 then tick_io d
               else (tick_io d)\<lparr>rd_len := max (rd_len d) (a + n),
                      rd_data := (\<lambda>k. if a \<le> k \<and> k < a + n then buf ! (k - a) else file_byte d k)\<rparr>)))"

definition file_sync_data :: "(('z) rawdisk_scheme, unit) fs_op" where
  "file_sync_data d = (case rd_io d (rd_calls d) of Fail msg \<Rightarrow> (Err (Io msg), tick_io d) | _ \<Rightarrow> (Ok (), tick_io d))"

section \<open>RawDiskDataStore\<close>

text \<open>\<open>opened\<close> is the outcome of opening the backing file: its length and bytes, or a message.\<close>

definition rawdisk_open ::
  "string + nat \<times> (nat \<Rightarrow> u8) \<Rightarrow> (nat \<Rightarrow> io_event) \<Rightarrow> u64 \<Rightarrow> rawdisk FsResult" where
  "rawdisk_open opened io mfs =
     (if mfs = 0 then Err (InvalidInput ''max_file_size must be > 0'')
      else case opened of
        Inl msg \<Rightarrow> Err (Io msg)
      | Inr (len, data) \<Rightarrow>
          Ok \<lparr>rd_len = len, rd_data = data, rd_io = io, rd_calls = 0, max_file_size = mfs\<rparr>)"

definition checked_mul :: "u64 \<Rightarrow> u64 \<Rightarrow> u64 option" where
  "checked_mul a b = (if unat a * unat b < 2 ^ 64 then Some (a * b) else None)"

definition checked_add :: "u64 \<Rightarrow> u64 \<Rightarrow> u64 option" where
  "checked_add a b = (if unat a + unat b < 2 ^ 64 then Some (a + b) else None)"

definition absolute_offset :: "u64 \<Rightarrow> inode \<Rightarrow> u64 \<Rightarrow> u64 FsResult" where
  "absolute_offset mfs inode offset =
     (if offset \<ge> mfs
      then Err (InvalidInput (''offset '' @ show_nat (unat offset) @ '' exceeds max_file_size '' @ show_nat (unat mfs)))
      else case Option.bind (checked_mul inode mfs) (\<lambda>base. checked_add base offset) of
        Some pos \<Rightarrow> Ok pos
      | None \<Rightarrow> Err (InvalidInput ''offset overflow in absolute_offset''))"

definition saturating_sub :: "u64 \<Rightarrow> u64 \<Rightarrow> u64" where
  "saturating_sub a b = (if b \<le> a then a - b else 0)"

text \<open>The read buffer starts out zeroed; the bytes of a short read overwrite its beginning.\<close>

definition read_at :: "inode \<Rightarrow> u64 \<Rightarrow> u32 \<Rightarrow> (('z) rawdisk_scheme, bytes) fs_op" where
  "read_at inode offset sz =
     bind (gets max_file_size) (\<lambda>mfs.
     bind (lift (absolute_offset mfs inode offset)) (\<lambda>pos.
     let remaining = saturating_sub mfs offset;
         actual_size = min (unat sz) (unat remaining);
         buf = replicate actual_size 0 in
     bind (file_read_at actual_size pos) (\<lambda>bs.
     ret (bs @ drop (length bs) buf))))"

definition write_at :: "inode \<Rightarrow> u64 \<Rightarrow> bytes \<Rightarrow> (('z) rawdisk_scheme, u32) fs_op" where
  "write_at inode offset data =
     bind (gets max_file_size) (\<lambda>mfs.
     bind (lift (absolute_offset mfs inode offset)) (\<lambda>pos.
     let remaining = unat (saturating_sub mfs offset);
         actual_len = min (length data) remaining in
     bind (file_write_at (take actual_len data) pos) (\<lambda>_.
     ret (of_nat actual_len))))"

text \<open>The loop of \<^verbatim>\<open>truncate\<close>: zeros in chunks of at most 4096 bytes.\<close>

function zero_loop :: "u64 \<Rightarrow> nat \<Rightarrow> nat \<Rightarrow> (('z) rawdisk_scheme, unit) fs_op" where
  "zero_loop abs_start zero_len written =
     (if written < zero_len then
        let chunk = min (zero_len - written) 4096 in
        bind (file_write_at (replicate chunk 0) (abs_start + of_nat written)) (\<lambda>_.
        zero_loop abs_start zero_len (written + chunk))
      else ret ())"
  by pat_completeness auto
termination
  by (relation "measure (\<lambda>(_, zero_len, written). zero_len - written)") auto

declare zero_loop.simps [simp del]

definition truncate_op :: "inode \<Rightarrow> u64 \<Rightarrow> (('z) rawdisk_scheme, unit) fs_op" where
  "truncate_op inode sz =
     bind (gets max_file_size) (\<lambda>mfs.
     if sz > mfs
     then throw (InvalidInput (''truncate size '' @ show_nat (unat sz) @ '' exceeds max_file_size '' @ show_nat (unat mfs)))
     else
       bind (lift (absolute_offset mfs inode sz)) (\<lambda>abs_start.
       let zero_len = unat (mfs - sz) in
       if zero_len = 0 then ret () else zero_loop abs_start zero_len 0))"

definition flush :: "inode \<Rightarrow> (('z) rawdisk_scheme, unit) fs_op" where
  "flush inode = file_sync_data"

definition delete :: "inode \<Rightarrow> (('z) rawdisk_scheme, unit) fs_op" where
  "delete inode = ret ()"

section \<open>The traits \<open>DataStore\<close> and \<open>DataOps\<close>, and the data server\<close>

text \<open>A trait object is the record of its methods.\<close>

record 's DataStore =
  ds_read_at :: "inode \<Rightarrow> u64 \<Rightarrow> u32 \<Rightarrow> ('s, bytes) fs_op"
  ds_write_at :: "inode \<Rightarrow> u64 \<Rightarrow> bytes \<Rightarrow> ('s, u32) fs_op"
  ds_truncate :: "inode \<Rightarrow> u64 \<Rightarrow> ('s, unit) fs_op"
  ds_flush :: "inode \<Rightarrow> ('s, unit) fs_op"
  ds_delete :: "inode \<Rightarrow> ('s, unit) fs_op"

definition RawDiskDataStore :: "('z) rawdisk_scheme DataStore" where
  "RawDiskDataStore = \<lparr>ds_read_at = read_at, ds_write_at = write_at, ds_truncate = truncate_op,
     ds_flush = flush, ds_delete = delete\<rparr>"

record 's DataOps =
  do_read_data :: "inode \<Rightarrow> u64 \<Rightarrow> u32 \<Rightarrow> ('s, bytes) fs_op"
  do_write_data :: "inode \<Rightarrow> u64 \<Rightarrow> bytes \<Rightarrow> ('s, u32) fs_op"
  do_truncate :: "inode \<Rightarrow> u64 \<Rightarrow> ('s, unit) fs_op"
  do_flush :: "inode \<Rightarrow> ('s, unit) fs_op"
  do_delete_data :: "inode \<Rightarrow> ('s, unit) fs_op"

definition DataServer :: "'s DataStore \<Rightarrow> 's DataOps" where
  "DataServer store =
     \<lparr>do_read_data = (\<lambda>inode offset sz. ds_read_at store inode offset sz),
      do_write_data = (\<lambda>inode offset data. ds_write_at store inode offset data),
      do_truncate = (\<lambda>inode sz. ds_truncate store inode sz),
      do_flush = (\<lambda>inode. ds_flush store inode),
      do_delete_data = (\<lambda>inode. ds_delete store inode)\<rparr>"

section \<open>Facts about the backing file\<close>

lemma unat_u64_less: "unat (w :: u64) < 2 ^ 64"
  using unsigned_less [of w] by simp

lemma file_byte_tick [simp]: "file_byte (tick_io d) = file_byte d"
  by (simp add: file_byte_def tick_io_def fun_eq_iff)

lemma tick_io_simps [simp]:
  "max_file_size (tick_io d) = max_file_size d" "rd_io (tick_io d) = rd_io d"
  "rd_calls (tick_io d) = Suc (rd_calls d)"
  by (simp_all add: tick_io_def)

lemma transferred_le: "transferred d n \<le> n"
  by (simp add: transferred_def split: io_event.split)

text \<open>The region of the file that belongs to an inode.\<close>

definition region :: "u64 \<Rightarrow> inode \<Rightarrow> nat set" where
  "region mfs i = {unat i * unat mfs ..< Suc (unat i) * unat mfs}"

lemma region_disjoint: "i \<noteq> j \<Longrightarrow> region mfs i \<inter> region mfs j = {}"
proof -
  have less: "region mfs i \<inter> region mfs j = {}" if "unat i < unat j" for i j
  proof -
    have "Suc (unat i) * unat mfs \<le> unat j * unat mfs" using that by (intro mult_right_mono) auto
    then show ?thesis by (auto simp: region_def)
  qed
  assume "i \<noteq> j"
  then have "unat i < unat j \<or> unat j < unat i" by (metis nat_neq_iff unsigned_word_eqI)
  then show ?thesis using less [of i j] less [of j i] by auto
qed

lemma file_byte_write:
  "file_byte (d\<lparr>rd_len := max (rd_len e) (a + n), rd_data := (\<lambda>k. if a \<le> k \<and> k < a + n then f k else file_byte e k)\<rparr>) k =
     (if a \<le> k \<and> k < a + n then f k else file_byte e k)"
  by (auto simp: file_byte_def)

text \<open>A transfer changes no byte outside the range it was asked to write.\<close>

lemma wp_file_write_at [wp_rules]:
  assumes "\<And>r d'. max_file_size d' = max_file_size d \<Longrightarrow> rd_io d' = rd_io d \<Longrightarrow> rd_calls d' = Suc (rd_calls d) \<Longrightarrow>
      (\<forall>p. r \<noteq> Panic p) \<Longrightarrow>
      (\<forall>k. k \<notin> {unat pos ..< unat pos + length buf} \<longrightarrow> file_byte d' k = file_byte d k) \<Longrightarrow>
      (\<not> bad_offset pos \<longrightarrow> rd_io d (rd_calls d) = Full \<longrightarrow> r = Ok (length buf) \<and>
         (\<forall>k < length buf. file_byte d' (unat pos + k) = buf ! k)) \<Longrightarrow> Q r d'"
  shows "wp (file_write_at buf pos) Q d"
proof (rule wpI)
  fix r d'
  assume "file_write_at buf pos d = (r, d')"
  then show "Q r d'"
    using transferred_le [of d "length buf"]
    by (intro assms) (auto simp: file_write_at_def transferred_def file_byte_write Let_def
        split: if_splits io_event.splits)
qed

lemma absolute_offset_Ok:
  "absolute_offset mfs i off = Ok pos \<longleftrightarrow>
     off < mfs \<and> unat i * unat mfs + unat off < 2 ^ 64 \<and> pos = i * mfs + off"
proof -
  have m: "unat (i * mfs) = unat i * unat mfs" if "unat i * unat mfs < 2 ^ 64"
    using that by (simp add: unat_word_ariths)
  then show ?thesis
    by (auto simp: absolute_offset_def checked_mul_def checked_add_def not_le split: option.splits if_splits)
qed

lemma unat_absolute_offset:
  assumes "absolute_offset mfs i off = Ok pos"
  shows "unat pos = unat i * unat mfs + unat off" and "unat off < unat mfs"
  using assms by (auto simp: absolute_offset_Ok unat_word_ariths word_less_nat_alt)

lemma range_in_region:
  assumes "absolute_offset mfs i off = Ok pos" and "n \<le> unat mfs - unat off"
  shows "{unat pos ..< unat pos + n} \<subseteq> region mfs i"
  using unat_absolute_offset [OF assms(1)] assms(2) by (auto simp: region_def)

lemma unat_saturating_sub: "unat (saturating_sub a b) = unat a - unat b"
  by (auto simp: saturating_sub_def unat_sub word_le_nat_alt)

text \<open>
  The zeroing loop, whatever the schedule: it touches only the range it is given, and it needs
  \<open>\<lceil>zero_len / 4096\<rceil>\<close> system calls when none fails.
\<close>

definition chunks :: "nat \<Rightarrow> nat" where
  "chunks n = (n + 4095) div 4096"

lemma chunks_step: "0 < n \<Longrightarrow> chunks n = Suc (chunks (n - min n 4096))"
  by (cases "n \<le> 4096") (auto simp: chunks_def min_def)

lemma wp_zero_loop:
  fixes d :: "'a rawdisk_scheme"
  assumes "unat start + len \<le> 2 ^ 63" and "w \<le> len"
  shows "wp (zero_loop start len w) (\<lambda>r d'. max_file_size d' = max_file_size d \<and> rd_io d' = rd_io d \<and>
      (\<forall>p. r \<noteq> Panic p) \<and> rd_calls d' \<le> rd_calls d + chunks (len - w) \<and>
      (\<forall>k. k \<notin> {unat start + w ..< unat start + len} \<longrightarrow> file_byte d' k = file_byte d k) \<and>
      ((\<forall>n. rd_io d n = Full) \<longrightarrow> r = Ok () \<and> rd_calls d' = rd_calls d + chunks (len - w) \<and>
         (\<forall>k \<in> {unat start + w ..< unat start + len}. file_byte d' k = 0))) d" (is "wp _ (?Q w d) d")
  using assms(2)
proof (induction "len - w" arbitrary: w d rule: less_induct)
  case less
  show ?case
  proof (cases "w < len")
    case False
    then show ?thesis using less.prems by (subst zero_loop.simps) (simp add: wp_simps chunks_def)
  next
    case True
    define c where "c = min (len - w) 4096"
    have pos: "unat (start + of_nat w) = unat start + w"
      using True assms(1) by (simp add: unat_word_ariths unat_of_nat take_bit_nat_eq_self)
    then have ok: "\<not> bad_offset (start + of_nat w)" using True assms(1) by (simp add: bad_offset_def)
    have c: "0 < c" "w + c \<le> len" "len - (w + c) < len - w" using True by (auto simp: c_def)
    have ch: "chunks (len - w) = Suc (chunks (len - (w + c)))"
      using chunks_step [of "len - w"] True by (simp add: c_def)
    have unfold: "zero_loop start len w = bind (file_write_at (replicate c 0) (start + of_nat w)) (\<lambda>_. zero_loop start len (w + c))"
      using True by (subst zero_loop.simps) (simp add: c_def Let_def)
    show ?thesis
      unfolding unfold wp_bind
    proof (rule wp_file_write_at)
      fix r :: "nat FsResult" and d1 :: "'a rawdisk_scheme"
      assume k: "max_file_size d1 = max_file_size d" "rd_io d1 = rd_io d" "rd_calls d1 = Suc (rd_calls d)"
        and np: "\<forall>p. r \<noteq> Panic p"
        and out: "\<forall>k. k \<notin> {unat (start + of_nat w) ..< unat (start + of_nat w) + length (replicate c (0::u8))} \<longrightarrow>
          file_byte d1 k = file_byte d k"
        and full: "\<not> bad_offset (start + of_nat w) \<longrightarrow> rd_io d (rd_calls d) = Full \<longrightarrow>
          r = Ok (length (replicate c (0::u8))) \<and>
          (\<forall>k < length (replicate c (0::u8)). file_byte d1 (unat (start + of_nat w) + k) = replicate c 0 ! k)"
      have out': "file_byte d1 k = file_byte d k" if "k < unat start + w \<or> unat start + w + c \<le> k" for k
        using out that by (auto simp: pos)
      show "andthen (\<lambda>_. zero_loop start len (w + c)) (?Q w d) r d1"
      proof (cases r)
        case (Ok n)
        have step: "?Q w d r' d2" if q: "?Q (w + c) d1 r' d2" for r' d2
        proof -
          have keep: "file_byte d2 k = file_byte d k" if "k \<notin> {unat start + w ..< unat start + len}" for k
            using q out' [of k] that c by auto
          have zero: "file_byte d2 k = 0" if f: "\<forall>n. rd_io d n = Full" and k': "k \<in> {unat start + w ..< unat start + len}" for k
          proof (cases "unat start + (w + c) \<le> k")
            case True
            then show ?thesis using q f k' k by simp
          next
            case False
            then have "file_byte d2 k = file_byte d1 k" using q by simp
            moreover have "\<forall>j < c. file_byte d1 (unat start + w + j) = 0"
              using full ok f by (simp add: pos)
            then have "file_byte d1 k = 0"
              using False k' by (auto dest!: spec [of _ "k - (unat start + w)"])
            ultimately show ?thesis by simp
          qed
          show ?thesis using q k ch keep zero by auto
        qed
        show ?thesis
          unfolding Ok andthen.simps by (rule wp_mono [OF less.hyps [OF c(3) c(2), of d1] step])
      qed (use np k ch out' full ok c in auto)
    qed
  qed
qed

section \<open>The contract of a data store\<close>

definition overwrite :: "(nat \<Rightarrow> u8) \<Rightarrow> nat \<Rightarrow> bytes \<Rightarrow> nat \<Rightarrow> u8" where
  "overwrite f a bs k = (if a \<le> k \<and> k < a + length bs then bs ! (k - a) else f k)"

definition cut :: "(nat \<Rightarrow> u8) \<Rightarrow> nat \<Rightarrow> nat \<Rightarrow> u8" where
  "cut f n k = (if k < n then f k else 0)"

definition window :: "(nat \<Rightarrow> u8) \<Rightarrow> nat \<Rightarrow> nat \<Rightarrow> bytes" where
  "window f a n = map (\<lambda>k. f (a + k)) [0..<n]"

lemma window_overwrite: "n \<le> length bs \<Longrightarrow> window (overwrite f a bs) a n = take n bs"
  by (rule nth_equalityI) (auto simp: window_def overwrite_def)

lemma window_overwrite_other:
  "a + n \<le> b \<or> b + length bs \<le> a \<Longrightarrow> window (overwrite f b bs) a n = window f a n"
  by (auto simp: window_def overwrite_def)

lemma window_cut: "window (cut f m) a n = map (\<lambda>k. if a + k < m then f (a + k) else 0) [0..<n]"
  by (simp add: window_def cut_def)

text \<open>
  \<open>content s i\<close> is the byte array of an inode, \<open>cap s\<close> the number of bytes it may have, and
  \<open>good s i\<close> says that the device works and that the inode is one the store can address.
\<close>

locale data_store =
  fixes rd :: "inode \<Rightarrow> u64 \<Rightarrow> u32 \<Rightarrow> ('s, bytes) fs_op"
    and wr :: "inode \<Rightarrow> u64 \<Rightarrow> bytes \<Rightarrow> ('s, u32) fs_op"
    and tr :: "inode \<Rightarrow> u64 \<Rightarrow> ('s, unit) fs_op"
    and fl :: "inode \<Rightarrow> ('s, unit) fs_op"
    and del :: "inode \<Rightarrow> ('s, unit) fs_op"
    and content :: "'s \<Rightarrow> inode \<Rightarrow> nat \<Rightarrow> u8"
    and cap :: "'s \<Rightarrow> nat"
    and good :: "'s \<Rightarrow> inode \<Rightarrow> bool"
  assumes read_law: "good s i \<Longrightarrow> unat off < cap s \<Longrightarrow>
      \<exists>s'. rd i off n s = (Ok (window (content s i) (unat off) (min (unat n) (cap s - unat off))), s') \<and>
        content s' = content s \<and> cap s' = cap s \<and> good s' = good s"
    and write_law: "good s i \<Longrightarrow> unat off < cap s \<Longrightarrow> m = min (length bs) (cap s - unat off) \<Longrightarrow>
      \<exists>s'. wr i off bs s = (Ok (of_nat m), s') \<and>
        content s' = (content s)(i := overwrite (content s i) (unat off) (take m bs)) \<and>
        cap s' = cap s \<and> good s' = good s"
    and truncate_law: "good s i \<Longrightarrow> unat sz < cap s \<Longrightarrow>
      \<exists>s'. tr i sz s = (Ok (), s') \<and> content s' = (content s)(i := cut (content s i) (unat sz)) \<and>
        cap s' = cap s \<and> good s' = good s"
    and flush_law: "good s i \<Longrightarrow>
      \<exists>s'. fl i s = (Ok (), s') \<and> content s' = content s \<and> cap s' = cap s \<and> good s' = good s"
    and delete_law: "good s i \<Longrightarrow>
      \<exists>s'. del i s = (Ok (), s') \<and> (\<forall>j. j \<noteq> i \<longrightarrow> content s' j = content s j) \<and> cap s' = cap s \<and> good s' = good s"
    and range_law: "cap s \<le> unat off \<Longrightarrow>
      (\<exists>msg. rd i off n s = (Err (InvalidInput msg), s)) \<and> (\<exists>msg. wr i off bs s = (Err (InvalidInput msg), s))"
begin

text \<open>What was written at an offset is read back there, whatever the device held before.\<close>

lemma write_read:
  assumes "good s i" and "unat off + length bs \<le> cap s" and "length bs < 2 ^ 32" and "bs \<noteq> []"
  shows "\<exists>s1 s2. wr i off bs s = (Ok (of_nat (length bs)), s1) \<and>
    rd i off (of_nat (length bs)) s1 = (Ok bs, s2) \<and> content s2 = content s1 \<and>
    content s1 = (content s)(i := overwrite (content s i) (unat off) bs)"
proof -
  have off: "unat off < cap s" using assms by (cases bs) auto
  obtain s1 where w: "wr i off bs s = (Ok (of_nat (length bs)), s1)"
    "content s1 = (content s)(i := overwrite (content s i) (unat off) bs)" "cap s1 = cap s" "good s1 = good s"
    using write_law [OF assms(1) off, of "length bs" bs] assms by auto
  have len: "unat (of_nat (length bs) :: u32) = length bs" using assms(3) by (simp add: unat_of_nat take_bit_nat_eq_self)
  obtain s2 where "rd i off (of_nat (length bs)) s1 =
      (Ok (window (content s1 i) (unat off) (min (length bs) (cap s - unat off))), s2)" "content s2 = content s1"
    using read_law [of s1 i off "of_nat (length bs)"] assms off w len by auto
  moreover have "min (length bs) (cap s - unat off) = length bs" using assms(2) by simp
  ultimately show ?thesis using w by (auto simp: window_overwrite)
qed

text \<open>A write to one inode is invisible through another.\<close>

lemma write_other:
  assumes "good s i" and "good s j" and "i \<noteq> j" and "unat off < cap s" and "unat off' < cap s"
  shows "fst (rd j off' n (snd (wr i off bs s))) = fst (rd j off' n s)"
proof -
  obtain s1 where w: "wr i off bs s = (Ok (of_nat (min (length bs) (cap s - unat off))), s1)"
    "content s1 j = content s j" "cap s1 = cap s" "good s1 = good s"
    using write_law [OF assms(1,4) refl, of bs] assms(3) by auto
  show ?thesis
    using read_law [of s1 j off' n] read_law [of s j off' n] assms w by auto
qed

end

section \<open>The raw disk and the data server keep the contract\<close>

definition disk_content :: "('z) rawdisk_scheme \<Rightarrow> inode \<Rightarrow> nat \<Rightarrow> u8" where
  "disk_content d i k =
     (if k < unat (max_file_size d) then file_byte d (unat i * unat (max_file_size d) + k) else 0)"

definition disk_good :: "('z) rawdisk_scheme \<Rightarrow> inode \<Rightarrow> bool" where
  "disk_good d i \<longleftrightarrow> (\<forall>n. rd_io d n = Full) \<and> Suc (unat i) * unat (max_file_size d) \<le> 2 ^ 63"

abbreviation disk_cap :: "('z) rawdisk_scheme \<Rightarrow> nat" where
  "disk_cap d \<equiv> unat (max_file_size d)"

lemma disk_good_offset:
  assumes "disk_good d i" and "unat off < disk_cap d"
  shows "absolute_offset (max_file_size d) i off = Ok (i * max_file_size d + off)"
    and "unat (i * max_file_size d + off) = unat i * disk_cap d + unat off"
    and "\<not> bad_offset (i * max_file_size d + off)"
proof -
  have b: "unat i * disk_cap d + unat off < 2 ^ 63" using assms by (auto simp: disk_good_def)
  then show ok: "absolute_offset (max_file_size d) i off = Ok (i * max_file_size d + off)"
    using assms by (simp add: absolute_offset_Ok word_less_nat_alt)
  from unat_absolute_offset(1) [OF this] b
  show "unat (i * max_file_size d + off) = unat i * disk_cap d + unat off"
    and "\<not> bad_offset (i * max_file_size d + off)" by (simp_all add: bad_offset_def)
qed

lemma read_at_good:
  assumes "disk_good d i" and "unat off < disk_cap d"
  shows "read_at i off n d =
    (Ok (window (disk_content d i) (unat off) (min (unat n) (disk_cap d - unat off))), tick_io d)"
proof -
  note o = disk_good_offset [OF assms]
  let ?a = "unat i * disk_cap d + unat off"
  define m where "m = min (unat n) (disk_cap d - unat off)"
  let ?m = m
  let ?got = "map (\<lambda>k. file_byte d (?a + k)) [0..<min ?m (rd_len d - ?a)]"
  have "rd_io d (rd_calls d) = Full" using assms by (simp add: disk_good_def)
  with o have "read_at i off n d = (Ok (?got @ drop (length ?got) (replicate ?m 0)), tick_io d)"
    by (simp add: read_at_def bind_def gets_def lift_def ret_def file_read_at_def transferred_def
        unat_saturating_sub Let_def m_def)
  moreover have "?got @ drop (length ?got) (replicate ?m 0) = window (disk_content d i) (unat off) ?m"
  proof (rule nth_equalityI)
    show "length (?got @ drop (length ?got) (replicate ?m 0)) = length (window (disk_content d i) (unat off) ?m)"
      by (simp add: window_def)
    fix k
    assume "k < length (?got @ drop (length ?got) (replicate ?m 0))"
    then have k: "k < ?m" by simp
    then have "window (disk_content d i) (unat off) ?m ! k = file_byte d (?a + k)"
      by (auto simp: window_def disk_content_def add.assoc m_def)
    moreover have "(?got @ drop (length ?got) (replicate ?m 0)) ! k = file_byte d (?a + k)"
    proof (cases "k < rd_len d - ?a")
      case True
      then show ?thesis using k by (simp add: nth_append)
    next
      case False
      then have "file_byte d (?a + k) = 0" by (auto simp: file_byte_def)
      then show ?thesis using k False by (simp add: nth_append)
    qed
    ultimately show "(?got @ drop (length ?got) (replicate ?m 0)) ! k = window (disk_content d i) (unat off) ?m ! k"
      by simp
  qed
  ultimately show ?thesis by (simp add: m_def)
qed

text \<open>Other inodes keep their bytes, whatever the device does.\<close>

lemma disk_content_other:
  assumes "max_file_size d' = max_file_size d"
    and "\<forall>k. k \<notin> region (max_file_size d) i \<longrightarrow> file_byte d' k = file_byte d k" and "j \<noteq> i"
  shows "disk_content d' j = disk_content d j"
proof (rule ext)
  fix k
  have "unat j * disk_cap d + k \<notin> region (max_file_size d) i" if "k < disk_cap d"
    using region_disjoint [OF assms(3), of "max_file_size d"] that by (auto simp: region_def)
  then show "disk_content d' j k = disk_content d j k" using assms by (simp add: disk_content_def)
qed

lemma wp_write_at:
  fixes d :: "'a rawdisk_scheme"
  shows
  "wp (write_at i off bs) (\<lambda>r d'. max_file_size d' = max_file_size d \<and> rd_io d' = rd_io d \<and> (\<forall>p. r \<noteq> Panic p) \<and>
      (\<forall>k. k \<notin> region (max_file_size d) i \<longrightarrow> file_byte d' k = file_byte d k) \<and>
      (disk_good d i \<and> unat off < disk_cap d \<longrightarrow>
        r = Ok (of_nat (min (length bs) (disk_cap d - unat off))) \<and>
        disk_content d' i = overwrite (disk_content d i) (unat off) (take (min (length bs) (disk_cap d - unat off)) bs))) d"
proof (cases "absolute_offset (max_file_size d) i off")
  case (Ok pos)
  define m where "m = min (length bs) (disk_cap d - unat off)"
  note a = unat_absolute_offset [OF Ok]
  have sub: "{unat pos ..< unat pos + m} \<subseteq> region (max_file_size d) i"
    using range_in_region [OF Ok] by (simp add: m_def)
  have content: "disk_content d' i = overwrite (disk_content d i) (unat off) (take m bs)"
    if "max_file_size d' = max_file_size d"
      and "\<forall>k. k \<notin> {unat pos ..< unat pos + m} \<longrightarrow> file_byte d' k = file_byte d k"
      and "\<forall>k < m. file_byte d' (unat pos + k) = take m bs ! k" for d' :: "'a rawdisk_scheme"
  proof (rule ext)
    fix k
    show "disk_content d' i k = overwrite (disk_content d i) (unat off) (take m bs) k"
    proof (cases "unat off \<le> k \<and> k < unat off + m")
      case True
      then have "file_byte d' (unat pos + (k - unat off)) = take m bs ! (k - unat off)"
        using that(3) [rule_format, of "k - unat off"] by auto
      then show ?thesis using True that(1) a by (auto simp: disk_content_def overwrite_def m_def)
    next
      case False
      then show ?thesis using that(1,2) a by (auto simp: disk_content_def overwrite_def m_def)
    qed
  qed
  show ?thesis
    unfolding write_at_def Let_def wp_simps andthen.simps Ok unat_saturating_sub m_def [symmetric]
  proof (rule wp_file_write_at)
    fix r :: "nat FsResult" and d' :: "'a rawdisk_scheme"
    assume k: "max_file_size d' = max_file_size d" "rd_io d' = rd_io d" and np: "\<forall>p. r \<noteq> Panic p"
      and out: "\<forall>k. k \<notin> {unat pos ..< unat pos + length (take m bs)} \<longrightarrow> file_byte d' k = file_byte d k"
      and full: "\<not> bad_offset pos \<longrightarrow> rd_io d (rd_calls d) = Full \<longrightarrow>
        r = Ok (length (take m bs)) \<and> (\<forall>k < length (take m bs). file_byte d' (unat pos + k) = take m bs ! k)"
    have len: "length (take m bs) = m" by (simp add: m_def)
    have out': "\<forall>k. k \<notin> region (max_file_size d) i \<longrightarrow> file_byte d' k = file_byte d k"
      using out sub unfolding len by blast
    have good: "r = Ok m \<and> disk_content d' i = overwrite (disk_content d i) (unat off) (take m bs)"
      if "disk_good d i" "unat off < disk_cap d"
      using full content [OF k(1) out [unfolded len]] disk_good_offset [OF that] that Ok
      unfolding len by (simp add: disk_good_def)
    show "andthen (\<lambda>_. ret (of_nat m)) (\<lambda>r d'. max_file_size d' = max_file_size d \<and> rd_io d' = rd_io d \<and>
        (\<forall>p. r \<noteq> Panic p) \<and> (\<forall>k. k \<notin> region (max_file_size d) i \<longrightarrow> file_byte d' k = file_byte d k) \<and>
        (disk_good d i \<and> unat off < disk_cap d \<longrightarrow> r = Ok (of_nat m) \<and>
          disk_content d' i = overwrite (disk_content d i) (unat off) (take m bs))) r d'"
      using k np out' good by (cases r) (auto simp: wp_simps)
  qed
next
  case (Err e)
  then show ?thesis using disk_good_offset(1) [of d i off] by (auto simp: write_at_def wp_simps)
next
  case (Panic p)
  then show ?thesis by (simp add: absolute_offset_def split: if_splits option.splits)
qed

lemma wp_truncate_op:
  fixes d :: "'a rawdisk_scheme"
  shows "Suc (unat i) * disk_cap d \<le> 2 ^ 63 \<Longrightarrow>
    wp (truncate_op i sz) (\<lambda>r d'. max_file_size d' = max_file_size d \<and> rd_io d' = rd_io d \<and> (\<forall>p. r \<noteq> Panic p) \<and>
      (\<forall>k. k \<notin> region (max_file_size d) i \<longrightarrow> file_byte d' k = file_byte d k) \<and>
      rd_calls d' \<le> rd_calls d + chunks (disk_cap d - unat sz) \<and>
      (disk_good d i \<and> unat sz < disk_cap d \<longrightarrow>
        r = Ok () \<and> rd_calls d' = rd_calls d + chunks (disk_cap d - unat sz) \<and>
        disk_content d' i = cut (disk_content d i) (unat sz))) d"
proof (cases "absolute_offset (max_file_size d) i sz")
  case (Ok pos)
  assume fits: "Suc (unat i) * disk_cap d \<le> 2 ^ 63"
  note a = unat_absolute_offset [OF Ok]
  define len where "len = disk_cap d - unat sz"
  have le: "\<not> sz > max_file_size d" "unat (max_file_size d - sz) = len" "len \<noteq> 0"
    using a(2) by (auto simp: word_less_nat_alt unat_sub word_le_nat_alt len_def)
  have bound: "unat pos + len \<le> 2 ^ 63" using fits a by (simp add: len_def)
  have sub: "{unat pos ..< unat pos + len} \<subseteq> region (max_file_size d) i"
    using range_in_region [OF Ok] by (simp add: len_def)
  have sub': "unat pos \<le> k \<longrightarrow> \<not> k < unat pos + len" if "k \<notin> region (max_file_size d) i" for k
    using sub that by (auto dest: subsetD)
  have content: "disk_content d' i = cut (disk_content d i) (unat sz)"
    if "max_file_size d' = max_file_size d"
      and "\<forall>k. k \<notin> {unat pos + 0 ..< unat pos + len} \<longrightarrow> file_byte d' k = file_byte d k"
      and "\<forall>k \<in> {unat pos + 0 ..< unat pos + len}. file_byte d' k = 0" for d' :: "'a rawdisk_scheme"
  proof (rule ext)
    fix k
    have "unat i * disk_cap d + k \<in> {unat pos + 0 ..< unat pos + len} \<longleftrightarrow> unat sz \<le> k \<and> k < disk_cap d"
      using a by (auto simp: len_def)
    then show "disk_content d' i k = cut (disk_content d i) (unat sz) k"
      using that by (auto simp: disk_content_def cut_def)
  qed
  show ?thesis
    unfolding truncate_op_def wp_simps andthen.simps Ok if_not_P [OF le(1)] le(2) Let_def if_not_P [OF le(3)]
      len_def [symmetric]
    apply (rule wp_mono [OF wp_zero_loop [OF bound, of 0 d]])
    using content by (auto simp: disk_good_def dest!: sub')
next
  case (Err e)
  then show ?thesis using disk_good_offset(1) [of d i sz] by (auto simp: truncate_op_def wp_simps)
next
  case (Panic p)
  then show ?thesis by (simp add: absolute_offset_def split: if_splits option.splits)
qed

lemma disk_good_cong:
  "max_file_size d' = max_file_size d \<Longrightarrow> rd_io d' = rd_io d \<Longrightarrow> disk_good d' = disk_good d"
  by (simp add: disk_good_def fun_eq_iff)

lemma disk_content_tick [simp]: "disk_content (tick_io d) = disk_content d"
  by (simp add: disk_content_def fun_eq_iff)

lemma disk_content_upd:
  assumes "max_file_size d' = max_file_size d"
    and "\<forall>k. k \<notin> region (max_file_size d) i \<longrightarrow> file_byte d' k = file_byte d k"
    and "disk_content d' i = f"
  shows "disk_content d' = (disk_content d)(i := f)"
  using disk_content_other [OF assms(1,2)] assms(3) by (auto simp: fun_eq_iff)

interpretation raw: data_store read_at write_at truncate_op flush delete disk_content disk_cap disk_good
proof
  fix d :: "'a rawdisk_scheme" and i :: inode and off sz :: u64 and n :: u32 and bs :: bytes and m :: nat
  show "disk_good d i \<Longrightarrow> unat off < disk_cap d \<Longrightarrow>
      \<exists>s'. read_at i off n d = (Ok (window (disk_content d i) (unat off) (min (unat n) (disk_cap d - unat off))), s') \<and>
        disk_content s' = disk_content d \<and> disk_cap s' = disk_cap d \<and> disk_good s' = disk_good d"
    by (auto simp: read_at_good intro: disk_good_cong)
  show "\<exists>s'. write_at i off bs d = (Ok (of_nat m), s') \<and>
        disk_content s' = (disk_content d)(i := overwrite (disk_content d i) (unat off) (take m bs)) \<and>
        disk_cap s' = disk_cap d \<and> disk_good s' = disk_good d"
    if "disk_good d i" "unat off < disk_cap d" "m = min (length bs) (disk_cap d - unat off)"
  proof -
    obtain r d' where run: "write_at i off bs d = (r, d')" by fastforce
    note w = wpD [OF wp_write_at run]
    then show ?thesis using that run by (auto intro!: disk_good_cong disk_content_upd)
  qed
  show "\<exists>s'. truncate_op i sz d = (Ok (), s') \<and> disk_content s' = (disk_content d)(i := cut (disk_content d i) (unat sz)) \<and>
        disk_cap s' = disk_cap d \<and> disk_good s' = disk_good d"
    if "disk_good d i" "unat sz < disk_cap d"
  proof -
    obtain r d' where run: "truncate_op i sz d = (r, d')" by fastforce
    have "Suc (unat i) * disk_cap d \<le> 2 ^ 63" using that by (simp add: disk_good_def)
    note w = wpD [OF wp_truncate_op [OF this] run]
    then show ?thesis using that run by (auto intro!: disk_good_cong disk_content_upd)
  qed
  show "disk_good d i \<Longrightarrow>
      \<exists>s'. flush i d = (Ok (), s') \<and> disk_content s' = disk_content d \<and> disk_cap s' = disk_cap d \<and> disk_good s' = disk_good d"
    by (auto simp: flush_def file_sync_data_def disk_good_def fun_eq_iff)
  show "disk_good d i \<Longrightarrow>
      \<exists>s'. delete i d = (Ok (), s') \<and> (\<forall>j. j \<noteq> i \<longrightarrow> disk_content s' j = disk_content d j) \<and>
        disk_cap s' = disk_cap d \<and> disk_good s' = disk_good d"
    by (simp add: delete_def ret_def)
  show "disk_cap d \<le> unat off \<Longrightarrow>
      (\<exists>msg. read_at i off n d = (Err (InvalidInput msg), d)) \<and> (\<exists>msg. write_at i off bs d = (Err (InvalidInput msg), d))"
    by (simp add: read_at_def write_at_def bind_def gets_def lift_def absolute_offset_def word_le_nat_alt)
qed

interpretation served: data_store "do_read_data (DataServer RawDiskDataStore)"
  "do_write_data (DataServer RawDiskDataStore)" "do_truncate (DataServer RawDiskDataStore)"
  "do_flush (DataServer RawDiskDataStore)" "do_delete_data (DataServer RawDiskDataStore)"
  disk_content disk_cap disk_good
  unfolding DataServer_def RawDiskDataStore_def DataOps.simps DataStore.simps
  by (rule raw.data_store_axioms)

section \<open>Properties\<close>

text \<open>A fresh disk whose device never fails.\<close>

definition sample_disk :: "u64 \<Rightarrow> rawdisk" where
  "sample_disk mfs = \<lparr>rd_len = 0, rd_data = (\<lambda>_. 0), rd_io = (\<lambda>_. Full), rd_calls = 0, max_file_size = mfs\<rparr>"

lemma sample_disk_simps [simp]:
  "max_file_size (sample_disk mfs) = mfs" "rd_io (sample_disk mfs) n = Full" "rd_calls (sample_disk mfs) = 0"
  by (simp_all add: sample_disk_def)

lemma sample_disk_good: "Suc (unat i) * unat mfs \<le> 2 ^ 63 \<Longrightarrow> disk_good (sample_disk mfs) i"
  by (simp add: disk_good_def)

text \<open>
  Addressing is exact and injective: an offset that is accepted lies inside the region of its
  inode, at distance \<open>off\<close> from its start without wrapping around, and no other pair of inode and
  offset is mapped to the same position.
\<close>

theorem absolute_offset_injective:
  assumes "absolute_offset mfs i off = Ok pos"
  shows "unat pos = unat i * unat mfs + unat off \<and> unat pos \<in> region mfs i \<and>
    (absolute_offset mfs j off' = Ok pos \<longrightarrow> j = i \<and> off' = off)"
proof -
  note a = unat_absolute_offset [OF assms]
  have inj: "j = i \<and> off' = off" if o: "absolute_offset mfs j off' = Ok pos"
  proof -
    note b = unat_absolute_offset [OF o]
    have "unat j = unat pos div unat mfs" unfolding b(1) using b(2) by simp
    moreover have "unat i = unat pos div unat mfs" unfolding a(1) using a(2) by simp
    ultimately have "unat j = unat i" by simp
    with a b show ?thesis by (simp add: unsigned_word_eqI)
  qed
  then show ?thesis using a by (auto simp: region_def)
qed

theorem absolute_offset_injective_witness:
  "absolute_offset 1024 3 1023 = Ok 4095 \<and> unat (4095 :: u64) \<in> region 1024 3 \<and> absolute_offset 1024 4 5 \<noteq> Ok 4095"
proof -
  have ok: "absolute_offset 1024 3 1023 = Ok 4095" by (simp add: absolute_offset_def checked_mul_def checked_add_def)
  from ok absolute_offset_injective [OF ok, of 4 5] show ?thesis by auto
qed

text \<open>
  Read after write through the data server: on a working device, the bytes written to an
  addressable inode within its capacity are acknowledged in full and read back unchanged, and no
  byte elsewhere, in this inode or another, has changed.
\<close>

theorem data_write_read_roundtrip:
  assumes "disk_good d i" and "unat off + length bs \<le> unat (max_file_size d)"
    and "length bs < 2 ^ 32" and "bs \<noteq> []"
  shows "\<exists>d1 d2. do_write_data (DataServer RawDiskDataStore) i off bs d = (Ok (of_nat (length bs)), d1) \<and>
    do_read_data (DataServer RawDiskDataStore) i off (of_nat (length bs)) d1 = (Ok bs, d2) \<and>
    disk_content d2 = disk_content d1 \<and>
    disk_content d1 = (disk_content d)(i := overwrite (disk_content d i) (unat off) bs)"
  by (rule served.write_read [OF assms])

theorem data_write_read_roundtrip_witness:
  "\<exists>d1. do_write_data (DataServer RawDiskDataStore) 2 3 [7, 9] (sample_disk 8) = (Ok 2, d1) \<and>
     disk_content d1 2 3 = 7 \<and> disk_content d1 2 4 = 9 \<and> disk_content d1 1 3 = 0"
proof -
  have "disk_good (sample_disk 8) 2" by (rule sample_disk_good) simp
  from data_write_read_roundtrip [OF this, of 3 "[7, 9]"]
  obtain d1 where w: "do_write_data (DataServer RawDiskDataStore) 2 3 [7, 9] (sample_disk 8) = (Ok 2, d1)"
    and c: "disk_content d1 = (disk_content (sample_disk 8))(2 := overwrite (disk_content (sample_disk 8) 2) 3 [7, 9])"
    by auto
  have "disk_content (sample_disk 8) 1 3 = 0" by (simp add: disk_content_def file_byte_def sample_disk_def)
  then have "disk_content d1 2 3 = 7 \<and> disk_content d1 2 4 = 9 \<and> disk_content d1 1 3 = 0"
    unfolding c by (simp add: overwrite_def)
  with w show ?thesis by blast
qed

text \<open>
  C36. Isolation under faults: whatever the device does (short transfers and errors included) and
  whatever the operation returns, writing or truncating one inode changes no byte of another.
\<close>

theorem rawdisk_isolation:
  assumes "i \<noteq> j"
  shows "disk_content (snd (write_at i off bs d)) j = disk_content d j \<and>
    (Suc (unat i) * unat (max_file_size d) \<le> 2 ^ 63 \<longrightarrow>
       disk_content (snd (truncate_op i sz d)) j = disk_content d j)"
proof -
  have "disk_content (snd (write_at i off bs d)) j = disk_content d j"
    using wpD [OF wp_write_at surjective_pairing, of i off bs d] assms by (intro disk_content_other) auto
  moreover have "disk_content (snd (truncate_op i sz d)) j = disk_content d j"
    if "Suc (unat i) * unat (max_file_size d) \<le> 2 ^ 63"
    using wpD [OF wp_truncate_op [OF that] surjective_pairing] assms by (intro disk_content_other) auto
  ultimately show ?thesis by blast
qed

theorem rawdisk_isolation_witness:
  "disk_content (snd (write_at 1 0 [5, 6, 7] ((sample_disk 4)\<lparr>rd_io := (\<lambda>_. Short 1)\<rparr>))) 2 =
     disk_content ((sample_disk 4)\<lparr>rd_io := (\<lambda>_. Short 1)\<rparr>) 2"
  using rawdisk_isolation [of 1 2 0 "[5, 6, 7]" "(sample_disk 4)\<lparr>rd_io := (\<lambda>_. Short 1)\<rparr>" 0] by simp

text \<open>
  C37. Truncation ends and cuts: on a working device \<^verbatim>\<open>truncate\<close> to a size below the capacity
  succeeds after \<open>\<lceil>(capacity - size) / 4096\<rceil>\<close> writes, keeps the bytes below the size, zeroes the rest
  of the inode, and changes no other inode. On any device it stops after at most that many writes.
\<close>

theorem truncate_terminates:
  assumes "Suc (unat i) * unat (max_file_size d) \<le> 2 ^ 63"
  shows "rd_calls (snd (truncate_op i sz d)) \<le> rd_calls d + chunks (unat (max_file_size d) - unat sz) \<and>
    (disk_good d i \<and> sz < max_file_size d \<longrightarrow>
       (\<exists>d'. truncate_op i sz d = (Ok (), d') \<and>
          rd_calls d' = rd_calls d + chunks (unat (max_file_size d) - unat sz) \<and>
          disk_content d' = (disk_content d)(i := cut (disk_content d i) (unat sz))))"
proof -
  obtain r d' where run: "truncate_op i sz d = (r, d')" by fastforce
  from wpD [OF wp_truncate_op [OF assms] run] disk_content_upd [of d' d i] run show ?thesis
    by (auto simp: word_less_nat_alt)
qed

theorem truncate_terminates_witness:
  "rd_calls (snd (truncate_op 1 10 (sample_disk 10000))) = 3"
  using truncate_terminates [of 1 "sample_disk 10000" 10] sample_disk_good [of 1 10000]
  by (auto simp: chunks_def)

text \<open>
  Refused requests change nothing: reading or writing at an offset at or past the capacity, and
  truncating to a size at or past it, return \<^verbatim>\<open>InvalidInput\<close> and leave the device untouched. In
  particular truncating to exactly the capacity, which keeps every byte, is refused.
\<close>

lemma rawdisk_range_errors:
  assumes "max_file_size d \<le> off"
  shows "(\<exists>msg. read_at i off n d = (Err (InvalidInput msg), d)) \<and>
    (\<exists>msg. write_at i off bs d = (Err (InvalidInput msg), d)) \<and>
    (\<exists>msg. truncate_op i off d = (Err (InvalidInput msg), d))"
proof -
  have "unat (max_file_size d) \<le> unat off" using assms by (simp add: word_le_nat_alt)
  from raw.range_law [OF this] show ?thesis
    using assms by (auto simp: truncate_op_def bind_def gets_def throw_def lift_def absolute_offset_def)
qed

text \<open>
  C38. A short write is acknowledged as complete: when the device takes only the first \<open>m\<close> bytes of
  an in-range write, \<^verbatim>\<open>write_at\<close> still returns the full length, and the bytes after the first \<open>m\<close>
  keep their old values.
\<close>

theorem short_write_acknowledged:
  assumes "rd_io d (rd_calls d) = Short m" and "m < length bs"
    and "Suc (unat i) * unat (max_file_size d) \<le> 2 ^ 63" and "unat off + length bs \<le> unat (max_file_size d)"
  shows "fst (write_at i off bs d) = Ok (of_nat (length bs)) \<and>
    (\<forall>k. unat off + m \<le> k \<longrightarrow> disk_content (snd (write_at i off bs d)) i k = disk_content d i k)"
proof -
  let ?mfs = "max_file_size d" and ?a = "unat i * unat (max_file_size d) + unat off"
  have off: "unat off < unat ?mfs" and b: "?a < 2 ^ 63" using assms by auto
  then have ok: "absolute_offset ?mfs i off = Ok (i * ?mfs + off)"
    by (simp add: absolute_offset_Ok word_less_nat_alt)
  from unat_absolute_offset(1) [OF this] b
  have pos: "unat (i * ?mfs + off) = ?a" "\<not> bad_offset (i * ?mfs + off)" by (simp_all add: bad_offset_def)
  have len: "min (length bs) (unat ?mfs - unat off) = length bs" using assms(4) by simp
  have mn: "min m (length bs) = m" using assms(2) by simp
  show ?thesis
    using assms(1) ok pos
    by (auto simp: write_at_def bind_def gets_def lift_def ret_def file_write_at_def transferred_def
        unat_saturating_sub len mn Let_def disk_content_def file_byte_write)
qed

theorem short_write_acknowledged_witness:
  "fst (write_at 1 0 [5, 6] ((sample_disk 4)\<lparr>rd_io := (\<lambda>_. Short 1)\<rparr>)) = Ok 2 \<and>
   disk_content (snd (write_at 1 0 [5, 6] ((sample_disk 4)\<lparr>rd_io := (\<lambda>_. Short 1)\<rparr>))) 1 1 = 0"
proof -
  let ?d = "(sample_disk 4)\<lparr>rd_io := (\<lambda>_. Short 1)\<rparr>"
  have "disk_content ?d 1 1 = 0" by (simp add: disk_content_def file_byte_def sample_disk_def)
  with short_write_acknowledged [of ?d 1 "[5, 6]" 1 0] show ?thesis by simp
qed

end
