(* ===== verification/Vfs.thy ===== *)
theory Vfs
  imports Server_Ops Raw_Disk
begin

unbundle bit_operations_syntax

text \<open>
  The client side: the traits \<^verbatim>\<open>MetadataOps\<close> and \<^verbatim>\<open>VfsOps\<close> of \<^verbatim>\<open>src/core/src/lib.rs\<close> as records of their
  methods, the router \<^verbatim>\<open>VfsCore\<close> of \<^verbatim>\<open>src/client/src/vfs_core.rs\<close>, and \<^verbatim>\<open>EmbeddedClient\<close> of
  \<^verbatim>\<open>src/client/src/embedded.rs\<close>. The state of a router holds the services behind its trait objects
  (\<open>vc_env\<close>), the trait objects themselves, the routing table of open handles and the set of inodes
  written since the last flush.

  The contract \<open>vfs_backend\<close> extends the contract of a data store by what the router needs of the
  metadata service: it never touches file data. It is interpreted by the metadata server side by
  side with the data server on the raw disk, the composition the embedded client is built from.
\<close>

section \<open>The traits\<close>

record 's MetadataOps =
  mo_lookup :: "inode \<Rightarrow> str \<Rightarrow> ('s, FileAttr) fs_op"
  mo_getattr :: "inode \<Rightarrow> ('s, FileAttr) fs_op"
  mo_readdir :: "inode \<Rightarrow> ('s, DirEntry list) fs_op"
  mo_create :: "inode \<Rightarrow> str \<Rightarrow> u32 \<Rightarrow> u32 \<Rightarrow> u32 \<Rightarrow> ('s, FileAttr) fs_op"
  mo_mkdir :: "inode \<Rightarrow> str \<Rightarrow> u32 \<Rightarrow> u32 \<Rightarrow> u32 \<Rightarrow> ('s, FileAttr) fs_op"
  mo_unlink :: "inode \<Rightarrow> str \<Rightarrow> ('s, UnlinkResponse) fs_op"
  mo_rmdir :: "inode \<Rightarrow> str \<Rightarrow> ('s, unit) fs_op"
  mo_rename :: "inode \<Rightarrow> str \<Rightarrow> inode \<Rightarrow> str \<Rightarrow> ('s, RenameResponse) fs_op"
  mo_setattr :: "inode \<Rightarrow> SetAttrRequest \<Rightarrow> ('s, SetAttrResponse) fs_op"
  mo_statfs :: "inode \<Rightarrow> ('s, StatFs) fs_op"
  mo_open :: "inode \<Rightarrow> u32 \<Rightarrow> ('s, OpenResponse) fs_op"
  mo_report_write :: "inode \<Rightarrow> u64 \<Rightarrow> u64 \<Rightarrow> ('s, unit) fs_op"
  mo_link :: "inode \<Rightarrow> str \<Rightarrow> inode \<Rightarrow> ('s, FileAttr) fs_op"
  mo_symlink :: "inode \<Rightarrow> str \<Rightarrow> str \<Rightarrow> u32 \<Rightarrow> u32 \<Rightarrow> ('s, FileAttr) fs_op"
  mo_readlink :: "inode \<Rightarrow> ('s, str) fs_op"
  mo_release :: "inode \<Rightarrow> ('s, ReleaseResponse) fs_op"
  mo_create_and_open :: "inode \<Rightarrow> str \<Rightarrow> u32 \<Rightarrow> u32 \<Rightarrow> u32 \<Rightarrow> u32 \<Rightarrow> ('s, CreateAndOpenResponse) fs_op"

record 's VfsOps =
  vo_lookup :: "inode \<Rightarrow> str \<Rightarrow> ('s, FileAttr) fs_op"
  vo_getattr :: "inode \<Rightarrow> ('s, FileAttr) fs_op"
  vo_readdir :: "inode \<Rightarrow> ('s, DirEntry list) fs_op"
  vo_create :: "inode \<Rightarrow> str \<Rightarrow> u32 \<Rightarrow> u32 \<Rightarrow> u32 \<Rightarrow> ('s, FileAttr) fs_op"
  vo_mkdir :: "inode \<Rightarrow> str \<Rightarrow> u32 \<Rightarrow> u32 \<Rightarrow> u32 \<Rightarrow> ('s, FileAttr) fs_op"
  vo_unlink :: "inode \<Rightarrow> str \<Rightarrow> ('s, unit) fs_op"
  vo_rmdir :: "inode \<Rightarrow> str \<Rightarrow> ('s, unit) fs_op"
  vo_rename :: "inode \<Rightarrow> str \<Rightarrow> inode \<Rightarrow> str \<Rightarrow> ('s, unit) fs_op"
  vo_setattr :: "inode \<Rightarrow> SetAttrRequest \<Rightarrow> ('s, FileAttr) fs_op"
  vo_statfs :: "inode \<Rightarrow> ('s, StatFs) fs_op"
  vo_open :: "inode \<Rightarrow> u32 \<Rightarrow> ('s, u64) fs_op"
  vo_read :: "inode \<Rightarrow> u64 \<Rightarrow> u32 \<Rightarrow> ('s, bytes) fs_op"
  vo_write :: "inode \<Rightarrow> u64 \<Rightarrow> bytes \<Rightarrow> u32 \<Rightarrow> ('s, u32) fs_op"
  vo_flush :: "inode \<Rightarrow> ('s, unit) fs_op"
  vo_fsync :: "inode \<Rightarrow> bool \<Rightarrow> ('s, unit) fs_op"
  vo_link :: "inode \<Rightarrow> str \<Rightarrow> inode \<Rightarrow> ('s, FileAttr) fs_op"
  vo_symlink :: "inode \<Rightarrow> str \<Rightarrow> str \<Rightarrow> u32 \<Rightarrow> u32 \<Rightarrow> ('s, FileAttr) fs_op"
  vo_readlink :: "inode \<Rightarrow> ('s, str) fs_op"
  vo_release :: "inode \<Rightarrow> ('s, unit) fs_op"
  vo_create_and_open :: "inode \<Rightarrow> str \<Rightarrow> u32 \<Rightarrow> u32 \<Rightarrow> u32 \<Rightarrow> u32 \<Rightarrow> ('s, FileAttr \<times> u64) fs_op"

text \<open>The default methods of the traits, used by implementations that do not override them.\<close>

definition default_metadata_create_and_open ::
  "('s, FileAttr) fs_op \<Rightarrow> (inode \<Rightarrow> u32 \<Rightarrow> ('s, OpenResponse) fs_op) \<Rightarrow> u32
   \<Rightarrow> ('s, CreateAndOpenResponse) fs_op" where
  "default_metadata_create_and_open create_call open_call flags =
     bind create_call (\<lambda>attr.
     bind (open_call (fa_inode attr) flags) (\<lambda>open_resp.
     ret \<lparr>co_attr = attr, co_handle = or_handle open_resp, co_data_location = or_data_location open_resp\<rparr>))"

definition default_vfs_create_and_open ::
  "('s, FileAttr) fs_op \<Rightarrow> (inode \<Rightarrow> u32 \<Rightarrow> ('s, u64) fs_op) \<Rightarrow> u32 \<Rightarrow> ('s, FileAttr \<times> u64) fs_op" where
  "default_vfs_create_and_open create_call open_call flags =
     bind create_call (\<lambda>attr.
     bind (open_call (fa_inode attr) flags) (\<lambda>fh.
     ret (attr, fh)))"

section \<open>VfsCore\<close>

record 'e vfs =
  vc_env :: 'e
  vc_metadata :: "'e MetadataOps"
  vc_default_data :: "'e DataOps"
  vc_data_servers :: "str \<Rightarrow> 'e DataOps option"
  vc_handle_map :: "u64 \<Rightarrow> str option"
  vc_written_inodes :: "u64 set"
  vc_clock :: "nat \<Rightarrow> u64"
  vc_ticks :: nat

definition vfs_new :: "'e MetadataOps \<Rightarrow> 'e DataOps \<Rightarrow> 'e \<Rightarrow> (nat \<Rightarrow> u64) \<Rightarrow> 'e vfs" where
  "vfs_new metadata data env clock =
     \<lparr>vc_env = env, vc_metadata = metadata, vc_default_data = data, vc_data_servers = Map.empty,
      vc_handle_map = Map.empty, vc_written_inodes = {}, vc_clock = clock, vc_ticks = 0\<rparr>"

definition with_data_servers ::
  "'e MetadataOps \<Rightarrow> 'e DataOps \<Rightarrow> (str \<Rightarrow> 'e DataOps option) \<Rightarrow> 'e \<Rightarrow> (nat \<Rightarrow> u64) \<Rightarrow> 'e vfs" where
  "with_data_servers metadata default_data data_servers env clock =
     \<lparr>vc_env = env, vc_metadata = metadata, vc_default_data = default_data, vc_data_servers = data_servers,
      vc_handle_map = Map.empty, vc_written_inodes = {}, vc_clock = clock, vc_ticks = 0\<rparr>"

definition resolve_data :: "'e vfs \<Rightarrow> u64 \<Rightarrow> 'e DataOps" where
  "resolve_data v inode =
     (case vc_handle_map v inode of
        Some sid \<Rightarrow>
          (case vc_data_servers v sid of Some ds \<Rightarrow> ds | None \<Rightarrow> vc_default_data v)
      | None \<Rightarrow> vc_default_data v)"

definition vfs_now_secs :: "('e vfs, u64) fs_op" where
  "vfs_now_secs v = (Ok (vc_clock v (vc_ticks v)), v\<lparr>vc_ticks := Suc (vc_ticks v)\<rparr>)"

text \<open>A call of a service: it runs on the services' state.\<close>

definition call :: "('e, 'a) fs_op \<Rightarrow> ('e vfs, 'a) fs_op" where
  "call m v = (case m (vc_env v) of (r, e) \<Rightarrow> (r, v\<lparr>vc_env := e\<rparr>))"

definition via_meta :: "('e MetadataOps \<Rightarrow> ('e, 'a) fs_op) \<Rightarrow> ('e vfs, 'a) fs_op" where
  "via_meta f v = call (f (vc_metadata v)) v"

definition via_data :: "inode \<Rightarrow> ('e DataOps \<Rightarrow> ('e, 'a) fs_op) \<Rightarrow> ('e vfs, 'a) fs_op" where
  "via_data inode f v = call (f (resolve_data v inode)) v"

text \<open>Deleting the data of purged inodes: failures are logged and dropped.\<close>

definition delete_purged :: "inode list \<Rightarrow> ('e vfs, unit) fs_op" where
  "delete_purged purged_inodes =
     for_each purged_inodes (\<lambda>inode. ignore (via_data inode (\<lambda>ds. do_delete_data ds inode)))"

definition vfs_create_and_open ::
  "inode \<Rightarrow> str \<Rightarrow> u32 \<Rightarrow> u32 \<Rightarrow> u32 \<Rightarrow> u32 \<Rightarrow> ('e vfs, FileAttr \<times> u64) fs_op" where
  "vfs_create_and_open parent name mode uid gid flags =
     bind (via_meta (\<lambda>m. mo_create_and_open m parent name mode uid gid flags)) (\<lambda>resp.
     bind (modify (\<lambda>v. v\<lparr>vc_handle_map := (vc_handle_map v)(co_handle resp \<mapsto> server_id (co_data_location resp))\<rparr>)) (\<lambda>_.
     ret (co_attr resp, co_handle resp)))"

definition vfs_unlink :: "inode \<Rightarrow> str \<Rightarrow> ('e vfs, unit) fs_op" where
  "vfs_unlink parent name =
     bind (via_meta (\<lambda>m. mo_unlink m parent name)) (\<lambda>resp. delete_purged (ur_purged_inodes resp))"

definition vfs_rename :: "inode \<Rightarrow> str \<Rightarrow> inode \<Rightarrow> str \<Rightarrow> ('e vfs, unit) fs_op" where
  "vfs_rename parent name new_parent new_name =
     bind (via_meta (\<lambda>m. mo_rename m parent name new_parent new_name)) (\<lambda>resp. delete_purged (rr_purged_inodes resp))"

definition vfs_setattr :: "inode \<Rightarrow> SetAttrRequest \<Rightarrow> ('e vfs, FileAttr) fs_op" where
  "vfs_setattr inode req =
     bind (via_meta (\<lambda>m. mo_setattr m inode req)) (\<lambda>resp.
     bind (case sr_needs_truncate resp of
             Some sz \<Rightarrow> via_data inode (\<lambda>ds. do_truncate ds inode sz)
           | None \<Rightarrow> ret ()) (\<lambda>_.
     ret (sr_attr resp)))"

definition vfs_open :: "inode \<Rightarrow> u32 \<Rightarrow> ('e vfs, u64) fs_op" where
  "vfs_open inode flags =
     bind (via_meta (\<lambda>m. mo_open m inode flags)) (\<lambda>resp.
     bind (modify (\<lambda>v. v\<lparr>vc_handle_map := (vc_handle_map v)(or_handle resp \<mapsto> server_id (or_data_location resp))\<rparr>)) (\<lambda>_.
     ret (or_handle resp)))"

definition vfs_read :: "inode \<Rightarrow> u64 \<Rightarrow> u32 \<Rightarrow> ('e vfs, bytes) fs_op" where
  "vfs_read inode offset sz = via_data inode (\<lambda>ds. do_read_data ds inode offset sz)"

definition vfs_write :: "inode \<Rightarrow> u64 \<Rightarrow> bytes \<Rightarrow> u32 \<Rightarrow> ('e vfs, u32) fs_op" where
  "vfs_write inode offset buf flags =
     bind (via_data inode (\<lambda>ds. do_write_data ds inode offset buf)) (\<lambda>written.
     let new_end = offset + ucast written in
     bind vfs_now_secs (\<lambda>ts.
     bind (via_meta (\<lambda>m. mo_report_write m inode new_end ts)) (\<lambda>_.
     bind (modify (\<lambda>v. v\<lparr>vc_written_inodes := insert inode (vc_written_inodes v)\<rparr>)) (\<lambda>_.
     ret written))))"

definition vfs_flush :: "inode \<Rightarrow> ('e vfs, unit) fs_op" where
  "vfs_flush inode =
     bind (gets (\<lambda>v. inode \<in> vc_written_inodes v)) (\<lambda>was_written.
     bind (modify (\<lambda>v. v\<lparr>vc_written_inodes := vc_written_inodes v - {inode}\<rparr>)) (\<lambda>_.
     if \<not> was_written then ret () else via_data inode (\<lambda>ds. do_flush ds inode)))"

definition vfs_fsync :: "inode \<Rightarrow> bool \<Rightarrow> ('e vfs, unit) fs_op" where
  "vfs_fsync inode datasync = via_data inode (\<lambda>ds. do_flush ds inode)"

definition vfs_release :: "inode \<Rightarrow> ('e vfs, unit) fs_op" where
  "vfs_release inode =
     bind (via_meta (\<lambda>m. mo_release m inode)) (\<lambda>resp.
     bind (delete_purged (lr_purged_inodes resp)) (\<lambda>_.
     modify (\<lambda>v. v\<lparr>vc_handle_map := (vc_handle_map v)(inode := None),
                   vc_written_inodes := vc_written_inodes v - {inode}\<rparr>)))"

definition VfsCore :: "('e vfs) VfsOps" where
  "VfsCore =
     \<lparr>vo_lookup = (\<lambda>parent name. via_meta (\<lambda>m. mo_lookup m parent name)),
      vo_getattr = (\<lambda>inode. via_meta (\<lambda>m. mo_getattr m inode)),
      vo_readdir = (\<lambda>inode. via_meta (\<lambda>m. mo_readdir m inode)),
      vo_create = (\<lambda>parent name mode uid gid. via_meta (\<lambda>m. mo_create m parent name mode uid gid)),
      vo_mkdir = (\<lambda>parent name mode uid gid. via_meta (\<lambda>m. mo_mkdir m parent name mode uid gid)),
      vo_unlink = vfs_unlink,
      vo_rmdir = (\<lambda>parent name. via_meta (\<lambda>m. mo_rmdir m parent name)),
      vo_rename = vfs_rename,
      vo_setattr = vfs_setattr,
      vo_statfs = (\<lambda>inode. via_meta (\<lambda>m. mo_statfs m inode)),
      vo_open = vfs_open,
      vo_read = vfs_read,
      vo_write = vfs_write,
      vo_flush = vfs_flush,
      vo_fsync = vfs_fsync,
      vo_link = (\<lambda>parent name target_inode. via_meta (\<lambda>m. mo_link m parent name target_inode)),
      vo_symlink = (\<lambda>parent name link_target uid gid. via_meta (\<lambda>m. mo_symlink m parent name link_target uid gid)),
      vo_readlink = (\<lambda>inode. via_meta (\<lambda>m. mo_readlink m inode)),
      vo_release = vfs_release,
      vo_create_and_open = vfs_create_and_open\<rparr>"

section \<open>EmbeddedClient\<close>

text \<open>
  Every method delegates to the router; \<^verbatim>\<open>create_and_open\<close> is not overridden and is the default of
  the trait.
\<close>

definition embedded_new :: "'e MetadataOps \<Rightarrow> 'e DataOps \<Rightarrow> 'e \<Rightarrow> (nat \<Rightarrow> u64) \<Rightarrow> 'e vfs" where
  "embedded_new metadata data = vfs_new metadata data"

definition EmbeddedClient :: "('e vfs) VfsOps" where
  "EmbeddedClient =
     \<lparr>vo_lookup = (\<lambda>parent name. vo_lookup VfsCore parent name),
      vo_getattr = (\<lambda>inode. vo_getattr VfsCore inode),
      vo_readdir = (\<lambda>inode. vo_readdir VfsCore inode),
      vo_create = (\<lambda>parent name mode uid gid. vo_create VfsCore parent name mode uid gid),
      vo_mkdir = (\<lambda>parent name mode uid gid. vo_mkdir VfsCore parent name mode uid gid),
      vo_unlink = (\<lambda>parent name. vo_unlink VfsCore parent name),
      vo_rmdir = (\<lambda>parent name. vo_rmdir VfsCore parent name),
      vo_rename = (\<lambda>parent name new_parent new_name. vo_rename VfsCore parent name new_parent new_name),
      vo_setattr = (\<lambda>inode req. vo_setattr VfsCore inode req),
      vo_statfs = (\<lambda>inode. vo_statfs VfsCore inode),
      vo_open = (\<lambda>inode flags. vo_open VfsCore inode flags),
      vo_read = (\<lambda>inode offset sz. vo_read VfsCore inode offset sz),
      vo_write = (\<lambda>inode offset buf flags. vo_write VfsCore inode offset buf flags),
      vo_flush = (\<lambda>inode. vo_flush VfsCore inode),
      vo_fsync = (\<lambda>inode datasync. vo_fsync VfsCore inode datasync),
      vo_link = (\<lambda>parent name target_inode. vo_link VfsCore parent name target_inode),
      vo_symlink = (\<lambda>parent name link_target uid gid. vo_symlink VfsCore parent name link_target uid gid),
      vo_readlink = (\<lambda>inode. vo_readlink VfsCore inode),
      vo_release = (\<lambda>inode. vo_release VfsCore inode),
      vo_create_and_open = (\<lambda>parent name mode uid gid flags.
        default_vfs_create_and_open (vo_create VfsCore parent name mode uid gid) (vo_open VfsCore) flags)\<rparr>"

section \<open>The metadata server as a trait object\<close>

definition MetadataServer ::
  "('db, 'txn) rocks \<Rightarrow> 'c lru \<Rightarrow> (('db, 'txn, 'c, 'z) server_scheme) MetadataOps" where
  "MetadataServer R L =
     \<lparr>mo_lookup = lookup R L, mo_getattr = getattr R L, mo_readdir = readdir R L, mo_create = create R L,
      mo_mkdir = mkdir R L, mo_unlink = unlink R L, mo_rmdir = rmdir R L, mo_rename = rename R L,
      mo_setattr = setattr R L, mo_statfs = statfs, mo_open = open_op R L, mo_report_write = report_write R L,
      mo_link = link R L, mo_symlink = symlink R L, mo_readlink = readlink R L, mo_release = release R L,
      mo_create_and_open = create_and_open R L\<rparr>"

section \<open>Services side by side\<close>

text \<open>The embedded composition: metadata and file data are separate parts of the services' state.\<close>

definition on_meta :: "('m, 'a) fs_op \<Rightarrow> ('m \<times> 'd, 'a) fs_op" where
  "on_meta f e = (case f (fst e) of (r, s) \<Rightarrow> (r, (s, snd e)))"

definition on_data :: "('d, 'a) fs_op \<Rightarrow> ('m \<times> 'd, 'a) fs_op" where
  "on_data f e = (case f (snd e) of (r, d) \<Rightarrow> (r, (fst e, d)))"

definition beside_data :: "'m MetadataOps \<Rightarrow> ('m \<times> 'd) MetadataOps" where
  "beside_data m =
     \<lparr>mo_lookup = (\<lambda>p n. on_meta (mo_lookup m p n)), mo_getattr = (\<lambda>i. on_meta (mo_getattr m i)),
      mo_readdir = (\<lambda>i. on_meta (mo_readdir m i)), mo_create = (\<lambda>p n a b c. on_meta (mo_create m p n a b c)),
      mo_mkdir = (\<lambda>p n a b c. on_meta (mo_mkdir m p n a b c)), mo_unlink = (\<lambda>p n. on_meta (mo_unlink m p n)),
      mo_rmdir = (\<lambda>p n. on_meta (mo_rmdir m p n)), mo_rename = (\<lambda>p n q k. on_meta (mo_rename m p n q k)),
      mo_setattr = (\<lambda>i r. on_meta (mo_setattr m i r)), mo_statfs = (\<lambda>i. on_meta (mo_statfs m i)),
      mo_open = (\<lambda>i f. on_meta (mo_open m i f)), mo_report_write = (\<lambda>i n t. on_meta (mo_report_write m i n t)),
      mo_link = (\<lambda>p n i. on_meta (mo_link m p n i)), mo_symlink = (\<lambda>p n t a b. on_meta (mo_symlink m p n t a b)),
      mo_readlink = (\<lambda>i. on_meta (mo_readlink m i)), mo_release = (\<lambda>i. on_meta (mo_release m i)),
      mo_create_and_open = (\<lambda>p n a b c f. on_meta (mo_create_and_open m p n a b c f))\<rparr>"

definition beside_meta :: "'d DataOps \<Rightarrow> ('m \<times> 'd) DataOps" where
  "beside_meta ds =
     \<lparr>do_read_data = (\<lambda>i off n. on_data (do_read_data ds i off n)),
      do_write_data = (\<lambda>i off bs. on_data (do_write_data ds i off bs)),
      do_truncate = (\<lambda>i n. on_data (do_truncate ds i n)), do_flush = (\<lambda>i. on_data (do_flush ds i)),
      do_delete_data = (\<lambda>i. on_data (do_delete_data ds i))\<rparr>"

section \<open>The contract of the services behind a router\<close>

locale vfs_backend = data_store rd wr tr fl del content cap good
  for rd :: "inode \<Rightarrow> u64 \<Rightarrow> u32 \<Rightarrow> ('e, bytes) fs_op"
    and wr tr fl del content cap good +
  fixes M :: "'e MetadataOps"
  assumes report_write_keeps: "mo_report_write M i n t e = (r, e') \<Longrightarrow>
      content e' = content e \<and> cap e' = cap e \<and> good e' = good e"
    and open_keeps: "mo_open M i f e = (r', e') \<Longrightarrow> content e' = content e \<and> cap e' = cap e \<and> good e' = good e"
    and setattr_keeps: "mo_setattr M i q e = (r'', e') \<Longrightarrow> content e' = content e \<and> cap e' = cap e \<and> good e' = good e"
begin

abbreviation routed :: "'e vfs \<Rightarrow> inode \<Rightarrow> bool" where
  "routed v i \<equiv> vc_metadata v = M \<and>
     resolve_data v i = \<lparr>do_read_data = rd, do_write_data = wr, do_truncate = tr, do_flush = fl, do_delete_data = del\<rparr>"

text \<open>
  A write through the router: the data reaches the store and is read back, and the caller gets the
  length unless the metadata service refuses the report, whose error it gets instead.
\<close>

lemma write_then_read:
  assumes "routed v i" and "good (vc_env v) i" and "unat off + length bs \<le> cap (vc_env v)"
    and "length bs < 2 ^ 32" and "bs \<noteq> []"
  shows "\<exists>e1 rep v1. wr i off bs (vc_env v) = (Ok (of_nat (length bs)), e1) \<and>
    mo_report_write M i (off + of_nat (length bs)) (vc_clock v (vc_ticks v)) e1 = (rep, vc_env v1) \<and>
    vfs_write i off bs flags v = (map_res (\<lambda>_. of_nat (length bs)) rep, v1) \<and>
    fst (vfs_read i off (of_nat (length bs)) v1) = Ok bs \<and>
    content (vc_env v1) = (content (vc_env v))(i := overwrite (content (vc_env v) i) (unat off) bs)"
proof -
  let ?n = "of_nat (length bs) :: u32" and ?D = "resolve_data v i"
  have off: "unat off < cap (vc_env v)" using assms(3,5) by (cases bs) auto
  have m: "length bs = min (length bs) (cap (vc_env v) - unat off)" using assms(3) by simp
  obtain e1 where w: "wr i off bs (vc_env v) = (Ok ?n, e1)"
    and c1: "content e1 = (content (vc_env v))(i := overwrite (content (vc_env v) i) (unat off) bs)"
    and g1: "cap e1 = cap (vc_env v)" "good e1 = good (vc_env v)"
    using write_law [OF assms(2) off m] by auto
  obtain rep e2 where rep: "mo_report_write M i (off + of_nat (length bs)) (vc_clock v (vc_ticks v)) e1 = (rep, e2)"
    by fastforce
  note k = report_write_keeps [OF rep]
  have un: "unat ?n = length bs" using assms(4) by (simp add: unat_of_nat take_bit_nat_eq_self)
  have uc: "ucast ?n = (of_nat (length bs) :: u64)"
    using assms(4) by (simp add: unsigned_of_nat take_bit_nat_eq_self)
  define v1 where "v1 = (if is_ok rep then v\<lparr>vc_env := e2, vc_ticks := Suc (vc_ticks v),
      vc_written_inodes := insert i (vc_written_inodes v)\<rparr> else v\<lparr>vc_env := e2, vc_ticks := Suc (vc_ticks v)\<rparr>)"
  have run: "vfs_write i off bs flags v = (map_res (\<lambda>_. ?n) rep, v1)"
    using assms(1) w rep uc
    by (cases rep) (auto simp: vfs_write_def bind_def via_data_def via_meta_def call_def vfs_now_secs_def modify_def
        ret_def Let_def v1_def)
  have env: "vc_env v1 = e2" "resolve_data v1 i = ?D" by (auto simp: v1_def resolve_data_def split: option.splits)
  have "good e2 i" "unat off < cap e2" using k g1 assms(2) off by simp_all
  from read_law [OF this, of ?n] obtain e3 where
    "rd i off ?n e2 = (Ok (window (content e2 i) (unat off) (min (unat ?n) (cap e2 - unat off))), e3)" by blast
  moreover have "window (content e2 i) (unat off) (length bs) = bs" using k c1 by (simp add: window_overwrite)
  ultimately have "fst (vfs_read i off ?n v1) = Ok bs"
    using env assms(1) k g1 m un by (simp add: vfs_read_def via_data_def call_def)
  then show ?thesis using w rep run env k c1 by auto
qed

text \<open>Opening never changes file data; shrinking through \<^verbatim>\<open>setattr\<close> cuts it.\<close>

lemma open_keeps_data:
  assumes "routed v i"
  shows "content (vc_env (snd (vfs_open i flags v))) = content (vc_env v)"
proof -
  obtain r e where o: "mo_open M i flags (vc_env v) = (r, e)" by fastforce
  then show ?thesis using assms open_keeps [OF o]
    by (cases r) (auto simp: vfs_open_def bind_def via_meta_def call_def modify_def ret_def)
qed

lemma setattr_cuts_data:
  assumes "routed v i" and "mo_setattr M i req (vc_env v) = (Ok resp, e1)"
    and "sr_needs_truncate resp = Some n" and "good (vc_env v) i" and "unat n < cap (vc_env v)"
  shows "\<exists>v1. vfs_setattr i req v = (Ok (sr_attr resp), v1) \<and>
    content (vc_env v1) = (content (vc_env v))(i := cut (content (vc_env v) i) (unat n))"
proof -
  note k = setattr_keeps [OF assms(2)]
  obtain e2 where tr: "tr i n e1 = (Ok (), e2)"
    and c: "content e2 = (content e1)(i := cut (content e1 i) (unat n))"
    using truncate_law [of e1 i n] k assms by auto
  have "resolve_data (v\<lparr>vc_env := e1\<rparr>) i = resolve_data v i" by (simp add: resolve_data_def split: option.splits)
  then have "vfs_setattr i req v = (Ok (sr_attr resp), v\<lparr>vc_env := e2\<rparr>)"
    using assms tr by (simp add: vfs_setattr_def bind_def via_meta_def via_data_def call_def ret_def)
  then show ?thesis using c k by auto
qed

end

text \<open>A data store keeps its contract beside another service; that service does not touch it.\<close>

lemma data_store_beside:
  assumes "data_store rd wr tr fl del content cap good"
  shows "data_store (\<lambda>i off n. on_data (rd i off n)) (\<lambda>i off bs. on_data (wr i off bs)) (\<lambda>i n. on_data (tr i n))
    (\<lambda>i. on_data (fl i)) (\<lambda>i. on_data (del i))
    (\<lambda>e. content (snd e)) (\<lambda>e. cap (snd e)) (\<lambda>e. good (snd e))"
proof -
  show ?thesis
  proof (unfold_locales, goal_cases)
    case (1 s i off n)
    from data_store.read_law [OF assms 1, of n] show ?case by (auto simp: on_data_def)
  next
    case (2 s i off m bs)
    from data_store.write_law [OF assms 2] show ?case by (auto simp: on_data_def)
  next
    case (3 s i sz)
    from data_store.truncate_law [OF assms 3] show ?case by (auto simp: on_data_def)
  next
    case (4 s i)
    from data_store.flush_law [OF assms 4] show ?case by (auto simp: on_data_def)
  next
    case (5 s i)
    from data_store.delete_law [OF assms 5] show ?case by (auto simp: on_data_def)
  next
    case (6 s off i n bs)
    from data_store.range_law [OF assms 6, of i n bs] show ?case by (auto simp: on_data_def)
  qed
qed

lemma on_meta_keeps: "on_meta f e = (r, e') \<Longrightarrow> snd e' = snd e"
  by (auto simp: on_meta_def split: prod.splits)

text \<open>The metadata server beside the data server on the raw disk.\<close>

interpretation embedded: vfs_backend
  "\<lambda>i off n. on_data (do_read_data (DataServer RawDiskDataStore) i off n)"
  "\<lambda>i off bs. on_data (do_write_data (DataServer RawDiskDataStore) i off bs)"
  "\<lambda>i n. on_data (do_truncate (DataServer RawDiskDataStore) i n)"
  "\<lambda>i. on_data (do_flush (DataServer RawDiskDataStore) i)"
  "\<lambda>i. on_data (do_delete_data (DataServer RawDiskDataStore) i)"
  "\<lambda>e. disk_content (snd e)" "\<lambda>e. disk_cap (snd e)" "\<lambda>e. disk_good (snd e)"
  "beside_data (MetadataServer R L)" for R L
  by (intro vfs_backend.intro data_store_beside served.data_store_axioms vfs_backend_axioms.intro)
     (auto simp: beside_data_def dest!: on_meta_keeps)

section \<open>Properties\<close>

text \<open>The router over a metadata server and a data server on a raw disk, as the embedded client builds it.\<close>

abbreviation embedded_state ::
  "('db, 'txn) rocks \<Rightarrow> 'c lru \<Rightarrow> (('db, 'txn, 'c, 'z) server_scheme \<times> rawdisk) \<Rightarrow> (nat \<Rightarrow> u64)
   \<Rightarrow> (('db, 'txn, 'c, 'z) server_scheme \<times> rawdisk) vfs" where
  "embedded_state R L \<equiv> embedded_new (beside_data (MetadataServer R L)) (beside_meta (DataServer RawDiskDataStore))"

text \<open>With no registered data servers, every inode is routed to the default one.\<close>

lemma embedded_routed: "embedded.routed R L (embedded_state R L e clock) i"
  by (simp add: resolve_data_def beside_meta_def embedded_new_def vfs_new_def)

lemma embedded_vfs_write:
  assumes "disk_good (snd e) i" and "unat off + length bs \<le> unat (max_file_size (snd e))"
    and "length bs < 2 ^ 32" and "bs \<noteq> []"
  shows "\<exists>v1. vfs_write i off bs flags (embedded_state R L e clock) =
      (map_res (\<lambda>_. of_nat (length bs)) (fst (report_write R L i (off + of_nat (length bs)) (clock 0) (fst e))), v1) \<and>
    fst (vfs_read i off (of_nat (length bs)) v1) = Ok bs \<and>
    fst (vc_env v1) = snd (report_write R L i (off + of_nat (length bs)) (clock 0) (fst e)) \<and>
    disk_content (snd (vc_env v1)) = (disk_content (snd e))(i := overwrite (disk_content (snd e) i) (unat off) bs)"
proof -
  let ?v = "embedded_state R L e clock"
  have env: "vc_env ?v = e" "vc_clock ?v (vc_ticks ?v) = clock 0" by (simp_all add: embedded_new_def vfs_new_def)
  from embedded.write_then_read [OF embedded_routed [of R L e clock i], unfolded env, OF assms, of flags]
  obtain e1 rep v1 where w: "on_data (do_write_data (DataServer RawDiskDataStore) i off bs) e = (Ok (of_nat (length bs)), e1)"
    and m: "mo_report_write (beside_data (MetadataServer R L)) i (off + of_nat (length bs)) (clock 0) e1 = (rep, vc_env v1)"
    and v: "vfs_write i off bs flags ?v = (map_res (\<lambda>_. of_nat (length bs)) rep, v1)"
      "fst (vfs_read i off (of_nat (length bs)) v1) = Ok bs"
      "disk_content (snd (vc_env v1)) = (disk_content (snd e))(i := overwrite (disk_content (snd e) i) (unat off) bs)"
    by blast
  have "fst e1 = fst e" using w by (auto simp: on_data_def split: prod.splits)
  with m have "report_write R L i (off + of_nat (length bs)) (clock 0) (fst e) = (rep, fst (vc_env v1))"
    by (cases "vc_env v1") (auto simp: beside_data_def MetadataServer_def on_meta_def split: prod.splits)
  then show ?thesis using v by auto
qed

text \<open>
  C19. Write through the embedded client: on a working disk, bytes written to an addressable inode
  within its capacity are stored and read back through the client, no other byte of any file
  changes, and the caller is told the length exactly when the metadata server accepts the report of
  the new end of file; otherwise it gets that server's error.
\<close>

theorem embedded_write_read:
  assumes "disk_good (snd e) i" and "unat off + length bs \<le> unat (max_file_size (snd e))"
    and "length bs < 2 ^ 32" and "bs \<noteq> []"
  shows "\<exists>v1. vo_write EmbeddedClient i off bs flags (embedded_state R L e clock) =
      (map_res (\<lambda>_. of_nat (length bs)) (fst (report_write R L i (off + of_nat (length bs)) (clock 0) (fst e))), v1) \<and>
    fst (vo_read EmbeddedClient i off (of_nat (length bs)) v1) = Ok bs \<and>
    fst (vc_env v1) = snd (report_write R L i (off + of_nat (length bs)) (clock 0) (fst e)) \<and>
    disk_content (snd (vc_env v1)) = (disk_content (snd e))(i := overwrite (disk_content (snd e) i) (unat off) bs)"
  using embedded_vfs_write [OF assms, of flags R L clock] by (simp add: EmbeddedClient_def VfsCore_def)

theorem embedded_write_read_witness:
  "\<exists>v1. vo_write EmbeddedClient 2 3 [7, 9] 0 (embedded_state mem_rocks list_lru (sample_server, sample_disk 64) (\<lambda>_. 200)) =
      (Ok 2, v1) \<and> fst (vo_read EmbeddedClient 2 3 2 v1) = Ok [7, 9]"
proof -
  have "fst (report_write mem_rocks list_lru 2 5 200 sample_server) = Ok ()" by code_simp
  moreover have "disk_good (sample_disk 64) 2" by (rule sample_disk_good) simp
  ultimately show ?thesis
    using embedded_write_read [of "(sample_server, sample_disk 64)" 2 3 "[7, 9]" 0 mem_rocks list_lru "\<lambda>_. 200"]
    by auto
qed

text \<open>
  \<^verbatim>\<open>open\<close> never changes file data, not even with \<^verbatim>\<open>O_TRUNC\<close>: whatever the flags and the outcome,
  every byte of every inode on the disk stays as it was.
\<close>

theorem embedded_open_keeps_data:
  "disk_content (snd (vc_env (snd (vo_open EmbeddedClient i flags (embedded_state R L e clock))))) =
     disk_content (snd e)"
  using embedded.open_keeps_data [OF embedded_routed [of R L e clock i], of flags]
  by (simp add: EmbeddedClient_def VfsCore_def embedded_new_def vfs_new_def)

text \<open>
  Removing a name through the embedded client: the caller gets the answer of the metadata server
  (a failure to delete file data is never reported), and the bytes of the removed file stay on the
  disk, since deleting data is a no-op there.
\<close>

lemma delete_purged_embedded:
  assumes "\<forall>i. resolve_data v i = beside_meta (DataServer RawDiskDataStore)"
  shows "delete_purged is v = (Ok (), v)"
proof (induction "is")
  case Nil
  then show ?case by (simp add: delete_purged_def ret_def)
next
  case (Cons i "is")
  have "ignore (via_data i (\<lambda>ds. do_delete_data ds i)) v = (Ok (), v)"
    using assms by (simp add: ignore_def via_data_def call_def beside_meta_def on_data_def DataServer_def
        RawDiskDataStore_def delete_def ret_def)
  with Cons show ?case by (simp add: delete_purged_def bind_def)
qed

theorem embedded_unlink:
  "\<exists>v1. vo_unlink EmbeddedClient p n (embedded_state R L e clock) =
      (map_res (\<lambda>_. ()) (fst (unlink R L p n (fst e))), v1) \<and>
    vc_env v1 = (snd (unlink R L p n (fst e)), snd e)"
proof -
  let ?v = "embedded_state R L e clock"
  obtain r s where u: "unlink R L p n (fst e) = (r, s)" by fastforce
  let ?v1 = "?v\<lparr>vc_env := (s, snd e)\<rparr>"
  have "delete_purged is ?v1 = (Ok (), ?v1)" for "is"
    by (rule delete_purged_embedded) (simp add: resolve_data_def embedded_new_def vfs_new_def)
  then have "vfs_unlink p n ?v = (map_res (\<lambda>_. ()) r, ?v1)"
    using u by (cases r) (simp_all add: vfs_unlink_def bind_def via_meta_def call_def on_meta_def beside_data_def
        MetadataServer_def embedded_new_def vfs_new_def)
  then show ?thesis using u by (simp add: EmbeddedClient_def VfsCore_def)
qed

text \<open>
  The first of several closes drops the route: while the metadata server still counts open
  handles of an inode, \<^verbatim>\<open>release\<close> succeeds and removes the inode from the routing table, so that
  later reads and writes through the remaining handles go to the default data server.
\<close>

lemma release_drops_route:
  assumes "vc_metadata v = beside_data (MetadataServer R L)"
    and "sv_open_handles (fst (vc_env v)) i = Some c" and "1 < c"
  shows "\<exists>v1. vfs_release i v = (Ok (), v1) \<and> sv_open_handles (fst (vc_env v1)) i = Some (c - 1) \<and>
    vc_handle_map v1 i = None \<and> resolve_data v1 i = vc_default_data v"
proof -
  have "c \<noteq> 0" "c - 1 \<noteq> 0" using assms(3) by auto
  then show ?thesis using assms
    by (simp add: vfs_release_def bind_def via_meta_def call_def beside_data_def MetadataServer_def on_meta_def
        release_def check_and_clear_deferred_delete_def Let_def ret_def delete_purged_def modify_def resolve_data_def)
qed

text \<open>
  A flush reaches the device once per written file: after a write that succeeded, the first
  \<^verbatim>\<open>flush\<close> of the inode calls the data server and returns its answer, a second one succeeds without
  calling anything (even if the first one failed), and \<^verbatim>\<open>fsync\<close> always calls the data server.
\<close>

lemma flush_after_write:
  assumes "vfs_write i off bs flags v = (Ok n, v1)" and "do_flush (resolve_data v1 i) i (vc_env v1) = (r, e2)"
  shows "\<exists>v2. vfs_flush i v1 = (r, v2) \<and> vc_env v2 = e2 \<and> vfs_flush i v2 = (Ok (), v2) \<and>
    resolve_data v2 = resolve_data v1 \<and>
    vc_env (snd (vfs_fsync i b v2)) = snd (do_flush (resolve_data v1 i) i e2)"
proof -
  have w: "i \<in> vc_written_inodes v1"
    using assms(1) by (auto simp: vfs_write_def bind_def modify_def ret_def Let_def split: prod.splits outcome.splits)
  let ?v2 = "v1\<lparr>vc_env := e2, vc_written_inodes := vc_written_inodes v1 - {i}\<rparr>"
  have r: "resolve_data (v1\<lparr>vc_written_inodes := W\<rparr>) = resolve_data v1" "resolve_data ?v2 = resolve_data v1" for W
    by (simp_all add: resolve_data_def fun_eq_iff split: option.split)
  have "vfs_flush i v1 = (r, ?v2)"
    using w assms(2) by (simp add: vfs_flush_def bind_def gets_def modify_def via_data_def call_def r)
  moreover have "vfs_flush i ?v2 = (Ok (), ?v2)"
    by (simp add: vfs_flush_def bind_def gets_def modify_def ret_def)
  moreover have "vc_env (snd (vfs_fsync i b ?v2)) = snd (do_flush (resolve_data v1 i) i e2)"
    by (simp add: vfs_fsync_def via_data_def call_def r(2) split: prod.split)
  ultimately show ?thesis using r(2) by (intro exI [of _ ?v2]) simp
qed

end
