(* ===== verification/Rpc_Metadata.thy ===== *)
theory Rpc_Metadata
  imports Rpc_Types Vfs
begin

text \<open>
  The metadata service over gRPC: \<^verbatim>\<open>MetadataRpcServer\<close> of \<^verbatim>\<open>src/rpc/src/metadata_server.rs\<close>, which
  forwards each request to a \<^verbatim>\<open>MetadataOps\<close> backend, and \<^verbatim>\<open>MetadataRpcClient\<close> of
  \<^verbatim>\<open>src/rpc/src/metadata_client.rs\<close>, which implements \<^verbatim>\<open>MetadataOps\<close> over a pool of connections. The
  generated service trait and stubs are the record \<open>MetadataService\<close>; the channels behind the stubs
  are parameters with the contract \<open>metadata_channel\<close>.
\<close>

section \<open>The service\<close>

record 's MetadataService =
  ms_lookup :: "LookupRequest \<Rightarrow> ('s, ProtoFileAttr) rpc_op"
  ms_getattr :: "GetattrRequest \<Rightarrow> ('s, ProtoFileAttr) rpc_op"
  ms_readdir :: "ReaddirRequest \<Rightarrow> ('s, ReaddirResponse) rpc_op"
  ms_create :: "CreateRequest \<Rightarrow> ('s, ProtoFileAttr) rpc_op"
  ms_create_and_open :: "CreateAndOpenRequest \<Rightarrow> ('s, ProtoCreateAndOpenResponse) rpc_op"
  ms_mkdir :: "MkdirRequest \<Rightarrow> ('s, ProtoFileAttr) rpc_op"
  ms_unlink :: "UnlinkRequest \<Rightarrow> ('s, ProtoUnlinkResponse) rpc_op"
  ms_rmdir :: "RmdirRequest \<Rightarrow> ('s, unit) rpc_op"
  ms_rename :: "RenameRequest \<Rightarrow> ('s, ProtoRenameResponse) rpc_op"
  ms_setattr :: "ProtoSetAttrRequest \<Rightarrow> ('s, ProtoSetAttrResponse) rpc_op"
  ms_statfs :: "StatfsRequest \<Rightarrow> ('s, ProtoStatFs) rpc_op"
  ms_open :: "OpenRequest \<Rightarrow> ('s, ProtoOpenResponse) rpc_op"
  ms_report_write :: "ReportWriteRequest \<Rightarrow> ('s, unit) rpc_op"
  ms_link :: "LinkRequest \<Rightarrow> ('s, ProtoFileAttr) rpc_op"
  ms_symlink :: "SymlinkRequest \<Rightarrow> ('s, ProtoFileAttr) rpc_op"
  ms_readlink :: "ReadlinkRequest \<Rightarrow> ('s, ReadlinkResponse) rpc_op"
  ms_release :: "ReleaseRequest \<Rightarrow> ('s, ProtoReleaseResponse) rpc_op"

section \<open>MetadataRpcServer\<close>

fun server_map_error :: "FsError \<Rightarrow> Status" where
  "server_map_error NotFound = status CodeNotFound (error_text NotFound)"
| "server_map_error PermissionDenied = status CodePermissionDenied (error_text PermissionDenied)"
| "server_map_error (InvalidInput msg) = status InvalidArgument msg"
| "server_map_error (Io msg) = status Internal msg"
| "server_map_error NotImplemented = status Unimplemented (error_text NotImplemented)"
| "server_map_error AlreadyExists = status CodeAlreadyExists (error_text AlreadyExists)"
| "server_map_error NotADirectory = status InvalidArgument (error_text NotADirectory)"
| "server_map_error IsADirectory = status InvalidArgument (error_text IsADirectory)"
| "server_map_error DirectoryNotEmpty = status FailedPrecondition (error_text DirectoryNotEmpty)"
| "server_map_error NameTooLong = status OutOfRange (error_text NameTooLong)"
| "server_map_error TransactionConflict = status Aborted (error_text TransactionConflict)"
| "server_map_error (Other msg) = status Internal msg"

definition to_proto_attr :: "FileAttr \<Rightarrow> ProtoFileAttr" where
  "to_proto_attr attr =
     \<lparr>pa_inode = fa_inode attr, pa_size = fa_size attr, pa_mode = fa_mode attr, pa_nlink = fa_nlink attr,
      pa_uid = fa_uid attr, pa_gid = fa_gid attr, pa_atime = fa_atime attr, pa_mtime = fa_mtime attr,
      pa_ctime = fa_ctime attr\<rparr>"

definition to_proto_entry :: "DirEntry \<Rightarrow> ProtoDirEntry" where
  "to_proto_entry e = \<lparr>pe_name = de_name e, pe_inode = de_inode e, pe_kind = de_kind e\<rparr>"

definition to_proto_created :: "CreateAndOpenResponse \<Rightarrow> ProtoCreateAndOpenResponse" where
  "to_proto_created resp =
     \<lparr>cp_attr = Some (to_proto_attr (co_attr resp)), cp_handle = co_handle resp,
      cp_data_location = Some \<lparr>pl_server_id = server_id (co_data_location resp)\<rparr>\<rparr>"

definition to_proto_setattr :: "SetAttrResponse \<Rightarrow> ProtoSetAttrResponse" where
  "to_proto_setattr resp =
     \<lparr>sp_attr = Some (to_proto_attr (sr_attr resp)), sp_needs_truncate = sr_needs_truncate resp\<rparr>"

definition core_setattr :: "ProtoSetAttrRequest \<Rightarrow> SetAttrRequest" where
  "core_setattr req =
     \<lparr>sa_mode = sq_mode req, sa_uid = sq_uid req, sa_gid = sq_gid req, sa_size = sq_size req,
      sa_atime = sq_atime req, sa_mtime = sq_mtime req\<rparr>"

definition to_proto_statfs :: "StatFs \<Rightarrow> ProtoStatFs" where
  "to_proto_statfs s =
     \<lparr>ps_blocks = sf_blocks s, ps_bfree = sf_bfree s, ps_bavail = sf_bavail s, ps_files = sf_files s,
      ps_ffree = sf_ffree s, ps_bsize = sf_bsize s, ps_namelen = sf_namelen s\<rparr>"

definition to_proto_open :: "OpenResponse \<Rightarrow> ProtoOpenResponse" where
  "to_proto_open resp =
     \<lparr>op_handle = or_handle resp,
      op_data_location = Some \<lparr>pl_server_id = server_id (or_data_location resp)\<rparr>\<rparr>"

definition MetadataRpcServer_lookup :: "'s MetadataOps \<Rightarrow> LookupRequest \<Rightarrow> ('s, ProtoFileAttr) rpc_op" where
  "MetadataRpcServer_lookup backend req =
     serve server_map_error to_proto_attr (mo_lookup backend (lo_parent req) (lo_name req))"

definition MetadataRpcServer_getattr :: "'s MetadataOps \<Rightarrow> GetattrRequest \<Rightarrow> ('s, ProtoFileAttr) rpc_op" where
  "MetadataRpcServer_getattr backend req =
     serve server_map_error to_proto_attr (mo_getattr backend (ga_inode req))"

definition MetadataRpcServer_readdir :: "'s MetadataOps \<Rightarrow> ReaddirRequest \<Rightarrow> ('s, ReaddirResponse) rpc_op" where
  "MetadataRpcServer_readdir backend req =
     serve server_map_error (\<lambda>entries. \<lparr>rp_entries = map to_proto_entry entries\<rparr>)
        (mo_readdir backend (rq_inode req))"

definition MetadataRpcServer_create :: "'s MetadataOps \<Rightarrow> CreateRequest \<Rightarrow> ('s, ProtoFileAttr) rpc_op" where
  "MetadataRpcServer_create backend req =
     serve server_map_error to_proto_attr
        (mo_create backend (cr_parent req) (cr_name req) (cr_mode req) (cr_uid req) (cr_gid req))"

definition MetadataRpcServer_create_and_open :: "'s MetadataOps \<Rightarrow> CreateAndOpenRequest \<Rightarrow> ('s, ProtoCreateAndOpenResponse) rpc_op" where
  "MetadataRpcServer_create_and_open backend req =
     serve server_map_error to_proto_created
        (mo_create_and_open backend (cq_parent req) (cq_name req) (cq_mode req) (cq_uid req) (cq_gid req) (cq_flags req))"

definition MetadataRpcServer_mkdir :: "'s MetadataOps \<Rightarrow> MkdirRequest \<Rightarrow> ('s, ProtoFileAttr) rpc_op" where
  "MetadataRpcServer_mkdir backend req =
     serve server_map_error to_proto_attr
        (mo_mkdir backend (mk_parent req) (mk_name req) (mk_mode req) (mk_uid req) (mk_gid req))"

definition MetadataRpcServer_unlink :: "'s MetadataOps \<Rightarrow> UnlinkRequest \<Rightarrow> ('s, ProtoUnlinkResponse) rpc_op" where
  "MetadataRpcServer_unlink backend req =
     serve server_map_error (\<lambda>resp. \<lparr>up_purged_inodes = ur_purged_inodes resp\<rparr>)
        (mo_unlink backend (ul_parent req) (ul_name req))"

definition MetadataRpcServer_rmdir :: "'s MetadataOps \<Rightarrow> RmdirRequest \<Rightarrow> ('s, unit) rpc_op" where
  "MetadataRpcServer_rmdir backend req =
     serve server_map_error (\<lambda>_. ()) (mo_rmdir backend (rm_parent req) (rm_name req))"

definition MetadataRpcServer_rename :: "'s MetadataOps \<Rightarrow> RenameRequest \<Rightarrow> ('s, ProtoRenameResponse) rpc_op" where
  "MetadataRpcServer_rename backend req =
     serve server_map_error (\<lambda>resp. \<lparr>rnp_purged_inodes = rr_purged_inodes resp\<rparr>)
        (mo_rename backend (rn_parent req) (rn_name req) (rn_new_parent req) (rn_new_name req))"

definition MetadataRpcServer_setattr :: "'s MetadataOps \<Rightarrow> ProtoSetAttrRequest \<Rightarrow> ('s, ProtoSetAttrResponse) rpc_op" where
  "MetadataRpcServer_setattr backend req =
     serve server_map_error to_proto_setattr (mo_setattr backend (sq_inode req) (core_setattr req))"

definition MetadataRpcServer_statfs :: "'s MetadataOps \<Rightarrow> StatfsRequest \<Rightarrow> ('s, ProtoStatFs) rpc_op" where
  "MetadataRpcServer_statfs backend req =
     serve server_map_error to_proto_statfs (mo_statfs backend (sfq_inode req))"

definition MetadataRpcServer_open :: "'s MetadataOps \<Rightarrow> OpenRequest \<Rightarrow> ('s, ProtoOpenResponse) rpc_op" where
  "MetadataRpcServer_open backend req =
     serve server_map_error to_proto_open (mo_open backend (oq_inode req) (oq_flags req))"

definition MetadataRpcServer_report_write :: "'s MetadataOps \<Rightarrow> ReportWriteRequest \<Rightarrow> ('s, unit) rpc_op" where
  "MetadataRpcServer_report_write backend req =
     serve server_map_error (\<lambda>_. ())
        (mo_report_write backend (rw_inode req) (rw_new_size req) (rw_mtime req))"

definition MetadataRpcServer_link :: "'s MetadataOps \<Rightarrow> LinkRequest \<Rightarrow> ('s, ProtoFileAttr) rpc_op" where
  "MetadataRpcServer_link backend req =
     serve server_map_error to_proto_attr
        (mo_link backend (lk_parent req) (lk_name req) (lk_target_inode req))"

definition MetadataRpcServer_symlink :: "'s MetadataOps \<Rightarrow> SymlinkRequest \<Rightarrow> ('s, ProtoFileAttr) rpc_op" where
  "MetadataRpcServer_symlink backend req =
     serve server_map_error to_proto_attr
        (mo_symlink backend (sl_parent req) (sl_name req) (sl_link_target req) (sl_uid req) (sl_gid req))"

definition MetadataRpcServer_readlink :: "'s MetadataOps \<Rightarrow> ReadlinkRequest \<Rightarrow> ('s, ReadlinkResponse) rpc_op" where
  "MetadataRpcServer_readlink backend req =
     serve server_map_error (\<lambda>target. \<lparr>rl_target = target\<rparr>) (mo_readlink backend (rl_inode req))"

definition MetadataRpcServer_release :: "'s MetadataOps \<Rightarrow> ReleaseRequest \<Rightarrow> ('s, ProtoReleaseResponse) rpc_op" where
  "MetadataRpcServer_release backend req =
     serve server_map_error (\<lambda>resp. \<lparr>rep_purged_inodes = lr_purged_inodes resp\<rparr>)
        (mo_release backend (re_inode req))"

definition MetadataRpcServer :: "'s MetadataOps \<Rightarrow> 's MetadataService" where
  "MetadataRpcServer backend =
     \<lparr>ms_lookup = MetadataRpcServer_lookup backend,
      ms_getattr = MetadataRpcServer_getattr backend,
      ms_readdir = MetadataRpcServer_readdir backend,
      ms_create = MetadataRpcServer_create backend,
      ms_create_and_open = MetadataRpcServer_create_and_open backend,
      ms_mkdir = MetadataRpcServer_mkdir backend,
      ms_unlink = MetadataRpcServer_unlink backend,
      ms_rmdir = MetadataRpcServer_rmdir backend,
      ms_rename = MetadataRpcServer_rename backend,
      ms_setattr = MetadataRpcServer_setattr backend,
      ms_statfs = MetadataRpcServer_statfs backend,
      ms_open = MetadataRpcServer_open backend,
      ms_report_write = MetadataRpcServer_report_write backend,
      ms_link = MetadataRpcServer_link backend,
      ms_symlink = MetadataRpcServer_symlink backend,
      ms_readlink = MetadataRpcServer_readlink backend,
      ms_release = MetadataRpcServer_release backend\<rparr>"

lemmas MetadataRpcServer_defs = MetadataRpcServer_def
  MetadataRpcServer_lookup_def MetadataRpcServer_getattr_def MetadataRpcServer_readdir_def
  MetadataRpcServer_create_def MetadataRpcServer_create_and_open_def MetadataRpcServer_mkdir_def
  MetadataRpcServer_unlink_def MetadataRpcServer_rmdir_def MetadataRpcServer_rename_def
  MetadataRpcServer_setattr_def MetadataRpcServer_statfs_def MetadataRpcServer_open_def
  MetadataRpcServer_report_write_def MetadataRpcServer_link_def MetadataRpcServer_symlink_def
  MetadataRpcServer_readlink_def MetadataRpcServer_release_def

section \<open>MetadataRpcClient\<close>

text \<open>
  The pool and its counter; \<open>rc_env\<close> is the world behind the connections. The size of the pool comes
  from an environment variable (\<open>None\<close>: unset or not Unicode).
\<close>

definition DEFAULT_POOL_SIZE :: nat where
  "DEFAULT_POOL_SIZE = 1"

text \<open>\<^verbatim>\<open>str::parse::<usize>\<close>: decimal digits, at least one, an optional plus sign, no overflow.\<close>

fun parse_digits :: "nat \<Rightarrow> str \<Rightarrow> nat option" where
  "parse_digits acc [] = Some acc"
| "parse_digits acc (b # bs) =
     (if 0x30 \<le> b \<and> b \<le> 0x39 then
        (let n = acc * 10 + unat (b - 0x30) in if n < 2 ^ 64 then parse_digits n bs else None)
      else None)"

definition parse_usize :: "str \<Rightarrow> nat option" where
  "parse_usize s =
     (let digits = (case s of [] \<Rightarrow> [] | b # bs \<Rightarrow> (if b = 0x2B then bs else s))
      in if digits = [] then None else parse_digits 0 digits)"

definition pool_size_from_env :: "str option \<Rightarrow> nat" where
  "pool_size_from_env var =
     (case Option.bind var parse_usize of
        Some n \<Rightarrow> (if n \<ge> 1 then n else DEFAULT_POOL_SIZE)
      | None \<Rightarrow> DEFAULT_POOL_SIZE)"

record 's rpc_client =
  rc_clients :: "'s MetadataService list"
  rc_counter :: u64
  rc_env :: 's

text \<open>
  \<^verbatim>\<open>connect\<close> and \<^verbatim>\<open>connect_secure\<close>: parsing the address, applying the TLS settings and connecting are
  the library's; \<open>'n\<close> is the state of the network.
\<close>

fun connect_loop :: "nat \<Rightarrow> ('n, FsError, 'c) op \<Rightarrow> 'c list \<Rightarrow> ('n, FsError, 'c list) op" where
  "connect_loop 0 conn clients = ret clients"
| "connect_loop (Suc n) conn clients = bind conn (\<lambda>c. connect_loop n conn (clients @ [c]))"

definition lib_call :: "(string \<Rightarrow> FsError) \<Rightarrow> ('n \<Rightarrow> (string + 'a) \<times> 'n) \<Rightarrow> ('n, 'a) fs_op" where
  "lib_call err f s = (case f s of (Inl m, s') \<Rightarrow> (Err (err m), s') | (Inr a, s') \<Rightarrow> (Ok a, s'))"

definition connect ::
  "(str \<Rightarrow> string + 'ep) \<Rightarrow> ('ep \<Rightarrow> 'n \<Rightarrow> (string + 's MetadataService) \<times> 'n) \<Rightarrow> str option \<Rightarrow> str \<Rightarrow> 's
   \<Rightarrow> ('n, 's rpc_client) fs_op" where
  "connect from_shared dial var addr env =
     (let n = pool_size_from_env var in
      bind (connect_loop n
              (bind (lib_call InvalidInput (\<lambda>s. (from_shared addr, s))) (\<lambda>ep. lib_call Io (dial ep))) []) (\<lambda>clients.
      ret \<lparr>rc_clients = clients, rc_counter = 0, rc_env = env\<rparr>))"

definition connect_secure ::
  "(str \<Rightarrow> string + 'ep) \<Rightarrow> ('tls \<Rightarrow> 'ep \<Rightarrow> string + 'ep) \<Rightarrow> ('ep \<Rightarrow> 'n \<Rightarrow> (string + 's MetadataService) \<times> 'n)
   \<Rightarrow> ('cfg \<Rightarrow> 'n \<Rightarrow> (string + 'tls option) \<times> 'n) \<Rightarrow> str option \<Rightarrow> str \<Rightarrow> 'cfg option \<Rightarrow> 's \<Rightarrow> ('n, 's rpc_client) fs_op" where
  "connect_secure from_shared tls_config dial load var addr tls_conf env =
     (let n = pool_size_from_env var in
      bind (case tls_conf of
              Some tls \<Rightarrow> lib_call (\<lambda>e. Io (''Failed to load TLS config: '' @ e)) (load tls)
            | None \<Rightarrow> ret None) (\<lambda>loaded_tls.
      bind (connect_loop n
              (bind (lib_call InvalidInput (\<lambda>s. (from_shared addr, s))) (\<lambda>ep.
               bind (case loaded_tls of
                       Some tls \<Rightarrow> lib_call Io (\<lambda>s. (tls_config tls ep, s))
                     | None \<Rightarrow> ret ep) (\<lambda>ep.
               lib_call Io (dial ep)))) []) (\<lambda>clients.
      ret \<lparr>rc_clients = clients, rc_counter = 0, rc_env = env\<rparr>)))"

definition next_client :: "('s rpc_client, 's MetadataService) fs_op" where
  "next_client c =
     (let c' = c\<lparr>rc_counter := rc_counter c + 1\<rparr> in
      if rc_clients c = [] then (Panic ''attempt to calculate the remainder with a divisor of zero'', c')
      else (Ok (rc_clients c ! (unat (rc_counter c) mod length (rc_clients c))), c'))"

fun client_map_error :: "Status \<Rightarrow> FsError" where
  "client_map_error err =
     (case st_code err of
        CodeNotFound \<Rightarrow> NotFound
      | CodePermissionDenied \<Rightarrow> PermissionDenied
      | InvalidArgument \<Rightarrow> InvalidInput (st_message err)
      | Unauthenticated \<Rightarrow> PermissionDenied
      | Unimplemented \<Rightarrow> NotImplemented
      | CodeAlreadyExists \<Rightarrow> AlreadyExists
      | FailedPrecondition \<Rightarrow> DirectoryNotEmpty
      | Aborted \<Rightarrow> TransactionConflict
      | OutOfRange \<Rightarrow> NameTooLong
      | _ \<Rightarrow> Io (st_message err))"

definition from_proto_attr :: "ProtoFileAttr \<Rightarrow> FileAttr" where
  "from_proto_attr attr =
     \<lparr>fa_inode = pa_inode attr, fa_size = pa_size attr, fa_mode = pa_mode attr, fa_nlink = pa_nlink attr,
      fa_uid = pa_uid attr, fa_gid = pa_gid attr, fa_atime = pa_atime attr, fa_mtime = pa_mtime attr,
      fa_ctime = pa_ctime attr\<rparr>"

definition from_proto_statfs :: "ProtoStatFs \<Rightarrow> StatFs" where
  "from_proto_statfs s =
     \<lparr>sf_blocks = ps_blocks s, sf_bfree = ps_bfree s, sf_bavail = ps_bavail s, sf_files = ps_files s,
      sf_ffree = ps_ffree s, sf_bsize = ps_bsize s, sf_namelen = ps_namelen s\<rparr>"

text \<open>\<^verbatim>\<open>unwrap_or_default()\<close> of an absent attribute or location.\<close>

definition default_attr :: FileAttr where
  "default_attr =
     \<lparr>fa_inode = 0, fa_size = 0, fa_mode = 0, fa_nlink = 0, fa_uid = 0, fa_gid = 0, fa_atime = 0, fa_mtime = 0,
      fa_ctime = 0\<rparr>"

definition attr_or_default :: "ProtoFileAttr option \<Rightarrow> FileAttr" where
  "attr_or_default a = (case a of Some attr \<Rightarrow> from_proto_attr attr | None \<Rightarrow> default_attr)"

definition location_or_default :: "ProtoDataLocation option \<Rightarrow> DataLocation" where
  "location_or_default l = (case l of Some dl \<Rightarrow> \<lparr>server_id = pl_server_id dl\<rparr> | None \<Rightarrow> \<lparr>server_id = []\<rparr>)"

definition from_proto_entry :: "ProtoDirEntry \<Rightarrow> DirEntry" where
  "from_proto_entry e = \<lparr>de_name = pe_name e, de_inode = pe_inode e, de_kind = pe_kind e\<rparr>"

text \<open>A call through the next connection of the pool.\<close>

definition rpc ::
  "('s MetadataService \<Rightarrow> 'q \<Rightarrow> ('s, 'b) rpc_op) \<Rightarrow> 'q \<Rightarrow> ('b \<Rightarrow> 'a) \<Rightarrow> ('s rpc_client, 'a) fs_op" where
  "rpc method req dec =
     bind next_client (\<lambda>client c.
       case receive client_map_error dec (method client req) (rc_env c) of (r, s) \<Rightarrow> (r, c\<lparr>rc_env := s\<rparr>))"

definition MetadataRpcClient_lookup :: "inode \<Rightarrow> str \<Rightarrow> ('s rpc_client, FileAttr) fs_op" where
  "MetadataRpcClient_lookup parent name =
     rpc ms_lookup \<lparr>lo_parent = parent, lo_name = name\<rparr> from_proto_attr"

definition MetadataRpcClient_getattr :: "inode \<Rightarrow> ('s rpc_client, FileAttr) fs_op" where
  "MetadataRpcClient_getattr inode =
     rpc ms_getattr \<lparr>ga_inode = inode\<rparr> from_proto_attr"

definition MetadataRpcClient_readdir :: "inode \<Rightarrow> ('s rpc_client, DirEntry list) fs_op" where
  "MetadataRpcClient_readdir inode =
     rpc ms_readdir \<lparr>rq_inode = inode\<rparr> (\<lambda>resp. map from_proto_entry (rp_entries resp))"

definition MetadataRpcClient_create :: "inode \<Rightarrow> str \<Rightarrow> u32 \<Rightarrow> u32 \<Rightarrow> u32 \<Rightarrow> ('s rpc_client, FileAttr) fs_op" where
  "MetadataRpcClient_create parent name mode uid gid =
     rpc ms_create
        \<lparr>cr_parent = parent, cr_name = name, cr_mode = mode, cr_uid = uid, cr_gid = gid\<rparr> from_proto_attr"

definition MetadataRpcClient_mkdir :: "inode \<Rightarrow> str \<Rightarrow> u32 \<Rightarrow> u32 \<Rightarrow> u32 \<Rightarrow> ('s rpc_client, FileAttr) fs_op" where
  "MetadataRpcClient_mkdir parent name mode uid gid =
     rpc ms_mkdir
        \<lparr>mk_parent = parent, mk_name = name, mk_mode = mode, mk_uid = uid, mk_gid = gid\<rparr> from_proto_attr"

definition MetadataRpcClient_unlink :: "inode \<Rightarrow> str \<Rightarrow> ('s rpc_client, UnlinkResponse) fs_op" where
  "MetadataRpcClient_unlink parent name =
     rpc ms_unlink \<lparr>ul_parent = parent, ul_name = name\<rparr>
        (\<lambda>resp. \<lparr>ur_purged_inodes = up_purged_inodes resp\<rparr>)"

definition MetadataRpcClient_rmdir :: "inode \<Rightarrow> str \<Rightarrow> ('s rpc_client, unit) fs_op" where
  "MetadataRpcClient_rmdir parent name =
     rpc ms_rmdir \<lparr>rm_parent = parent, rm_name = name\<rparr> (\<lambda>_. ())"

definition MetadataRpcClient_rename :: "inode \<Rightarrow> str \<Rightarrow> inode \<Rightarrow> str \<Rightarrow> ('s rpc_client, RenameResponse) fs_op" where
  "MetadataRpcClient_rename parent name new_parent new_name =
     rpc ms_rename
        \<lparr>rn_parent = parent, rn_name = name, rn_new_parent = new_parent, rn_new_name = new_name\<rparr>
        (\<lambda>resp. \<lparr>rr_purged_inodes = rnp_purged_inodes resp\<rparr>)"

definition MetadataRpcClient_setattr :: "inode \<Rightarrow> SetAttrRequest \<Rightarrow> ('s rpc_client, SetAttrResponse) fs_op" where
  "MetadataRpcClient_setattr inode req =
     rpc ms_setattr
        \<lparr>sq_inode = inode, sq_mode = sa_mode req, sq_uid = sa_uid req, sq_gid = sa_gid req, sq_size = sa_size req,
        sq_atime = sa_atime req, sq_mtime = sa_mtime req\<rparr>
        (\<lambda>resp. \<lparr>sr_attr = attr_or_default (sp_attr resp), sr_needs_truncate = sp_needs_truncate resp\<rparr>)"

definition MetadataRpcClient_statfs :: "inode \<Rightarrow> ('s rpc_client, StatFs) fs_op" where
  "MetadataRpcClient_statfs inode =
     rpc ms_statfs \<lparr>sfq_inode = inode\<rparr> from_proto_statfs"

definition MetadataRpcClient_open :: "inode \<Rightarrow> u32 \<Rightarrow> ('s rpc_client, OpenResponse) fs_op" where
  "MetadataRpcClient_open inode flags =
     rpc ms_open \<lparr>oq_inode = inode, oq_flags = flags\<rparr>
        (\<lambda>resp. \<lparr>or_handle = op_handle resp, or_data_location = location_or_default (op_data_location resp)\<rparr>)"

definition MetadataRpcClient_report_write :: "inode \<Rightarrow> u64 \<Rightarrow> u64 \<Rightarrow> ('s rpc_client, unit) fs_op" where
  "MetadataRpcClient_report_write inode new_size mtime =
     rpc ms_report_write
        \<lparr>rw_inode = inode, rw_new_size = new_size, rw_mtime = mtime\<rparr> (\<lambda>_. ())"

definition MetadataRpcClient_link :: "inode \<Rightarrow> str \<Rightarrow> inode \<Rightarrow> ('s rpc_client, FileAttr) fs_op" where
  "MetadataRpcClient_link parent name target_inode =
     rpc ms_link
        \<lparr>lk_parent = parent, lk_name = name, lk_target_inode = target_inode\<rparr> from_proto_attr"

definition MetadataRpcClient_symlink :: "inode \<Rightarrow> str \<Rightarrow> str \<Rightarrow> u32 \<Rightarrow> u32 \<Rightarrow> ('s rpc_client, FileAttr) fs_op" where
  "MetadataRpcClient_symlink parent name link_target uid gid =
     rpc ms_symlink
        \<lparr>sl_parent = parent, sl_name = name, sl_link_target = link_target, sl_uid = uid, sl_gid = gid\<rparr> from_proto_attr"

definition MetadataRpcClient_readlink :: "inode \<Rightarrow> ('s rpc_client, str) fs_op" where
  "MetadataRpcClient_readlink inode =
     rpc ms_readlink \<lparr>rl_inode = inode\<rparr> rl_target"

definition MetadataRpcClient_release :: "inode \<Rightarrow> ('s rpc_client, ReleaseResponse) fs_op" where
  "MetadataRpcClient_release inode =
     rpc ms_release \<lparr>re_inode = inode\<rparr> (\<lambda>resp. \<lparr>lr_purged_inodes = rep_purged_inodes resp\<rparr>)"

definition MetadataRpcClient_create_and_open :: "inode \<Rightarrow> str \<Rightarrow> u32 \<Rightarrow> u32 \<Rightarrow> u32 \<Rightarrow> u32 \<Rightarrow> ('s rpc_client, CreateAndOpenResponse) fs_op" where
  "MetadataRpcClient_create_and_open parent name mode uid gid flags =
     rpc ms_create_and_open
        \<lparr>cq_parent = parent, cq_name = name, cq_mode = mode, cq_uid = uid, cq_gid = gid, cq_flags = flags\<rparr>
        (\<lambda>resp. \<lparr>co_attr = attr_or_default (cp_attr resp), co_handle = cp_handle resp,
        co_data_location = location_or_default (cp_data_location resp)\<rparr>)"

definition MetadataRpcClient :: "('s rpc_client) MetadataOps" where
  "MetadataRpcClient =
     \<lparr>mo_lookup = MetadataRpcClient_lookup,
      mo_getattr = MetadataRpcClient_getattr,
      mo_readdir = MetadataRpcClient_readdir,
      mo_create = MetadataRpcClient_create,
      mo_mkdir = MetadataRpcClient_mkdir,
      mo_unlink = MetadataRpcClient_unlink,
      mo_rmdir = MetadataRpcClient_rmdir,
      mo_rename = MetadataRpcClient_rename,
      mo_setattr = MetadataRpcClient_setattr,
      mo_statfs = MetadataRpcClient_statfs,
      mo_open = MetadataRpcClient_open,
      mo_report_write = MetadataRpcClient_report_write,
      mo_link = MetadataRpcClient_link,
      mo_symlink = MetadataRpcClient_symlink,
      mo_readlink = MetadataRpcClient_readlink,
      mo_release = MetadataRpcClient_release,
      mo_create_and_open = MetadataRpcClient_create_and_open\<rparr>"

lemmas MetadataRpcClient_defs = MetadataRpcClient_def
  MetadataRpcClient_lookup_def MetadataRpcClient_getattr_def MetadataRpcClient_readdir_def
  MetadataRpcClient_create_def MetadataRpcClient_mkdir_def MetadataRpcClient_unlink_def
  MetadataRpcClient_rmdir_def MetadataRpcClient_rename_def MetadataRpcClient_setattr_def
  MetadataRpcClient_statfs_def MetadataRpcClient_open_def MetadataRpcClient_report_write_def
  MetadataRpcClient_link_def MetadataRpcClient_symlink_def MetadataRpcClient_readlink_def
  MetadataRpcClient_release_def MetadataRpcClient_create_and_open_def

section \<open>The contract of the channels\<close>

text \<open>Every connection of the pool carries every method of the service.\<close>

locale metadata_channel =
  fixes svc :: "'s MetadataService" and clients :: "'s MetadataService list"
  assumes pool: "clients \<noteq> []"
    and carries_lookup: "c \<in> set clients \<Longrightarrow> carries (ms_lookup svc) (ms_lookup c)"
    and carries_getattr: "c \<in> set clients \<Longrightarrow> carries (ms_getattr svc) (ms_getattr c)"
    and carries_readdir: "c \<in> set clients \<Longrightarrow> carries (ms_readdir svc) (ms_readdir c)"
    and carries_create: "c \<in> set clients \<Longrightarrow> carries (ms_create svc) (ms_create c)"
    and carries_create_and_open: "c \<in> set clients \<Longrightarrow> carries (ms_create_and_open svc) (ms_create_and_open c)"
    and carries_mkdir: "c \<in> set clients \<Longrightarrow> carries (ms_mkdir svc) (ms_mkdir c)"
    and carries_unlink: "c \<in> set clients \<Longrightarrow> carries (ms_unlink svc) (ms_unlink c)"
    and carries_rmdir: "c \<in> set clients \<Longrightarrow> carries (ms_rmdir svc) (ms_rmdir c)"
    and carries_rename: "c \<in> set clients \<Longrightarrow> carries (ms_rename svc) (ms_rename c)"
    and carries_setattr: "c \<in> set clients \<Longrightarrow> carries (ms_setattr svc) (ms_setattr c)"
    and carries_statfs: "c \<in> set clients \<Longrightarrow> carries (ms_statfs svc) (ms_statfs c)"
    and carries_open: "c \<in> set clients \<Longrightarrow> carries (ms_open svc) (ms_open c)"
    and carries_report_write: "c \<in> set clients \<Longrightarrow> carries (ms_report_write svc) (ms_report_write c)"
    and carries_link: "c \<in> set clients \<Longrightarrow> carries (ms_link svc) (ms_link c)"
    and carries_symlink: "c \<in> set clients \<Longrightarrow> carries (ms_symlink svc) (ms_symlink c)"
    and carries_readlink: "c \<in> set clients \<Longrightarrow> carries (ms_readlink svc) (ms_readlink c)"
    and carries_release: "c \<in> set clients \<Longrightarrow> carries (ms_release svc) (ms_release c)"

text \<open>One call of the client, against the operation of the backend it stands for.\<close>

definition via_rpc :: "FsError \<Rightarrow> FsError" where
  "via_rpc e = client_map_error (server_map_error e)"

definition answered ::
  "('s, 'a) fs_op \<Rightarrow> 's rpc_client \<Rightarrow> 'a FsResult \<Rightarrow> 's rpc_client \<Rightarrow> bool" where
  "answered f c r c' \<longleftrightarrow> rc_clients c' = rc_clients c \<and> rc_counter c' = rc_counter c + 1 \<and>
     ((\<exists>r0. f (rc_env c) = (r0, rc_env c') \<and> (\<forall>m. r0 \<noteq> Panic m) \<and> r = map_error_result via_rpc r0) \<or>
      (\<exists>st. transport st \<and> r = Err (client_map_error st) \<and>
         (rc_env c' = rc_env c \<or> rc_env c' = snd (f (rc_env c)))))"

lemma rpc_answered:
  assumes "\<And>cl. cl \<in> set (rc_clients c) \<Longrightarrow> carries (method svc) (method cl)" and "rc_clients c \<noteq> []"
    and "method svc req = serve server_map_error enc f" and "\<And>a. dec (enc a) = a"
    and "rpc method req dec c = (r, c')"
  shows "answered f c r c'"
proof -
  let ?cl = "rc_clients c ! (unat (rc_counter c) mod length (rc_clients c))"
  obtain s' where s': "receive client_map_error dec (method ?cl req) (rc_env c) = (r, s')"
    and c': "c' = c\<lparr>rc_counter := rc_counter c + 1, rc_env := s'\<rparr>"
    using assms(2,5) by (auto simp: rpc_def bind_def next_client_def Let_def split: prod.splits)
  have "?cl \<in> set (rc_clients c)" using assms(2) by simp
  from carried [OF assms(1) [OF this] assms(3,4) s']
  show ?thesis unfolding answered_def c' via_rpc_def by (auto simp del: client_map_error.simps)
qed

text \<open>Encoding an answer and decoding it again.\<close>

lemma proto_roundtrips [simp]:
  "from_proto_attr (to_proto_attr a) = a" "from_proto_statfs (to_proto_statfs sf) = sf"
  "from_proto_entry (to_proto_entry e) = e" "map from_proto_entry (map to_proto_entry es) = es"
  "from_proto_entry \<circ> to_proto_entry = id"
  "attr_or_default (Some (to_proto_attr a)) = a"
  "location_or_default (Some \<lparr>pl_server_id = server_id l\<rparr>) = l"
  by (simp_all add: from_proto_attr_def to_proto_attr_def from_proto_statfs_def to_proto_statfs_def
      from_proto_entry_def to_proto_entry_def attr_or_default_def location_or_default_def map_idI fun_eq_iff)

lemma core_setattr_of_proto [simp]:
  "core_setattr \<lparr>sq_inode = i, sq_mode = sa_mode q, sq_uid = sa_uid q, sq_gid = sa_gid q, sq_size = sa_size q,
     sq_atime = sa_atime q, sq_mtime = sa_mtime q\<rparr> = q"
  by (simp add: core_setattr_def)

text \<open>A client of a service stands for the backend of that service.\<close>

definition stands_for :: "'s MetadataOps \<Rightarrow> ('s rpc_client) MetadataOps \<Rightarrow> 's rpc_client \<Rightarrow> bool" where
  "stands_for M M' c \<longleftrightarrow>
     (\<forall>p n r c'. mo_lookup M' p n c = (r, c') \<longrightarrow> answered (mo_lookup M p n) c r c') \<and>
     (\<forall>i r c'. mo_getattr M' i c = (r, c') \<longrightarrow> answered (mo_getattr M i) c r c') \<and>
     (\<forall>i r c'. mo_readdir M' i c = (r, c') \<longrightarrow> answered (mo_readdir M i) c r c') \<and>
     (\<forall>p n m u g r c'. mo_create M' p n m u g c = (r, c') \<longrightarrow> answered (mo_create M p n m u g) c r c') \<and>
     (\<forall>p n m u g f r c'. mo_create_and_open M' p n m u g f c = (r, c') \<longrightarrow> answered (mo_create_and_open M p n m u g f) c r c') \<and>
     (\<forall>p n m u g r c'. mo_mkdir M' p n m u g c = (r, c') \<longrightarrow> answered (mo_mkdir M p n m u g) c r c') \<and>
     (\<forall>p n r c'. mo_unlink M' p n c = (r, c') \<longrightarrow> answered (mo_unlink M p n) c r c') \<and>
     (\<forall>p n r c'. mo_rmdir M' p n c = (r, c') \<longrightarrow> answered (mo_rmdir M p n) c r c') \<and>
     (\<forall>p n p' n' r c'. mo_rename M' p n p' n' c = (r, c') \<longrightarrow> answered (mo_rename M p n p' n') c r c') \<and>
     (\<forall>i q r c'. mo_setattr M' i q c = (r, c') \<longrightarrow> answered (mo_setattr M i q) c r c') \<and>
     (\<forall>i r c'. mo_statfs M' i c = (r, c') \<longrightarrow> answered (mo_statfs M i) c r c') \<and>
     (\<forall>i f r c'. mo_open M' i f c = (r, c') \<longrightarrow> answered (mo_open M i f) c r c') \<and>
     (\<forall>i sz mt r c'. mo_report_write M' i sz mt c = (r, c') \<longrightarrow> answered (mo_report_write M i sz mt) c r c') \<and>
     (\<forall>p n i r c'. mo_link M' p n i c = (r, c') \<longrightarrow> answered (mo_link M p n i) c r c') \<and>
     (\<forall>p n t u g r c'. mo_symlink M' p n t u g c = (r, c') \<longrightarrow> answered (mo_symlink M p n t u g) c r c') \<and>
     (\<forall>i r c'. mo_readlink M' i c = (r, c') \<longrightarrow> answered (mo_readlink M i) c r c') \<and>
     (\<forall>i r c'. mo_release M' i c = (r, c') \<longrightarrow> answered (mo_release M i) c r c')"

context metadata_channel
begin

lemmas carries =
  carries_lookup carries_getattr carries_readdir carries_create carries_create_and_open carries_mkdir
  carries_unlink carries_rmdir carries_rename carries_setattr carries_statfs carries_open
  carries_report_write carries_link carries_symlink carries_readlink carries_release

lemma client_stands_for:
  assumes svc: "svc = MetadataRpcServer M" and c: "rc_clients c = clients"
  shows "stands_for M MetadataRpcClient c"
proof -
  note call = rpc_answered [where svc = svc and c = c, unfolded c, OF _ pool]
  show ?thesis
    unfolding stands_for_def MetadataRpcClient_def MetadataOps.simps MetadataRpcClient_defs
    by (intro conjI allI impI)
      (erule call [rotated -1], erule carries, simp add: svc MetadataRpcServer_defs,
       simp add: to_proto_created_def to_proto_setattr_def to_proto_open_def)+
qed

end

text \<open>Connections over a wire with a fixed fault.\<close>

definition over_wire :: "wire \<Rightarrow> 's MetadataService \<Rightarrow> 's MetadataService" where
  "over_wire w svc =
     \<lparr>ms_lookup = over w (ms_lookup svc),
      ms_getattr = over w (ms_getattr svc),
      ms_readdir = over w (ms_readdir svc),
      ms_create = over w (ms_create svc),
      ms_create_and_open = over w (ms_create_and_open svc),
      ms_mkdir = over w (ms_mkdir svc),
      ms_unlink = over w (ms_unlink svc),
      ms_rmdir = over w (ms_rmdir svc),
      ms_rename = over w (ms_rename svc),
      ms_setattr = over w (ms_setattr svc),
      ms_statfs = over w (ms_statfs svc),
      ms_open = over w (ms_open svc),
      ms_report_write = over w (ms_report_write svc),
      ms_link = over w (ms_link svc),
      ms_symlink = over w (ms_symlink svc),
      ms_readlink = over w (ms_readlink svc),
      ms_release = over w (ms_release svc)\<rparr>"

interpretation wires: metadata_channel svc "over_wire w svc # map (\<lambda>w. over_wire w svc) ws" for svc w ws
  by unfold_locales (auto simp: over_wire_def carries_over)

section \<open>Properties\<close>

text \<open>
  C17. The RPC client stands for the backend of the RPC server: whatever method is called and however
  the network fails, either the backend's method ran exactly once and the caller gets its answer,
  unchanged if it is a success, or the caller gets an error and the method ran once or not at all.
  No call is repeated.
\<close>

theorem rpc_client_refines:
  assumes "metadata_channel (MetadataRpcServer M) (rc_clients c)"
  shows "stands_for M MetadataRpcClient c"
  by (rule metadata_channel.client_stands_for [OF assms refl refl])

theorem rpc_client_refines_witness:
  "stands_for (MetadataServer mem_rocks list_lru) MetadataRpcClient
     \<lparr>rc_clients = map (\<lambda>w. over_wire w (MetadataRpcServer (MetadataServer mem_rocks list_lru)))
        [Delivered, Lost ''connection refused'', Unanswered ''timeout''],
      rc_counter = 0, rc_env = sample_server\<rparr>"
  by (rule rpc_client_refines) (use wires.metadata_channel_axioms [where w = Delivered and ws = "[Lost ''connection refused'', Unanswered ''timeout'']"] in simp)

lemma map_transport: "transport st \<Longrightarrow>
    (\<exists>m. client_map_error st = Io m) \<or> client_map_error st = PermissionDenied \<or> client_map_error st = NotImplemented"
  by (auto simp: transport_def)

text \<open>
  What an error of the RPC client means: the errors that describe the file system come from the
  backend, which ran and failed with that very error, except that \<^verbatim>\<open>NotADirectory\<close> and \<^verbatim>\<open>IsADirectory\<close>
  arrive as \<^verbatim>\<open>InvalidInput\<close> with their text; only I/O errors, \<^verbatim>\<open>PermissionDenied\<close> and \<^verbatim>\<open>NotImplemented\<close>
  can come from the network, and the backend's \<^verbatim>\<open>Other\<close> arrives as an I/O error.
\<close>

theorem rpc_errors_truthful:
  assumes "metadata_channel (MetadataRpcServer M) (rc_clients c)"
    and "mo_rename MetadataRpcClient p n p' n' c = (Err e, c')"
    and "\<nexists>m. e = Io m" and "e \<noteq> PermissionDenied" and "e \<noteq> NotImplemented"
  shows "\<exists>e0. mo_rename M p n p' n' (rc_env c) = (Err e0, rc_env c') \<and>
    (e = e0 \<or> e0 \<in> {NotADirectory, IsADirectory} \<and> e = InvalidInput (error_text e0))"
proof -
  have "answered (mo_rename M p n p' n') c (Err e) c'"
    using metadata_channel.client_stands_for [OF assms(1) refl refl] assms(2) by (simp add: stands_for_def)
  with map_transport assms(3-5) obtain r0 where r0: "mo_rename M p n p' n' (rc_env c) = (r0, rc_env c')"
    "Err e = map_error_result via_rpc r0" unfolding answered_def by auto
  then obtain e0 where "r0 = Err e0" "e = via_rpc e0" by (cases r0) auto
  with r0 assms(3) show ?thesis by (cases e0) (auto simp: via_rpc_def)
qed

theorem rpc_errors_truthful_witness:
  "\<exists>c'. mo_rename MetadataRpcClient 1 [0x78] 1 [0x79]
     \<lparr>rc_clients = [over_wire Delivered (MetadataRpcServer (MetadataServer mem_rocks list_lru))],
      rc_counter = 0, rc_env = sample_server\<rparr> = (Err NotFound, c') \<and>
     fst (rename mem_rocks list_lru 1 [0x78] 1 [0x79] sample_server) = Err NotFound"
proof -
  let ?M = "MetadataServer mem_rocks list_lru"
  let ?c = "\<lparr>rc_clients = [over_wire Delivered (MetadataRpcServer ?M)], rc_counter = 0, rc_env = sample_server\<rparr>"
  have f: "fst (rename mem_rocks list_lru 1 [0x78] 1 [0x79] sample_server) = Err NotFound" by code_simp
  obtain s' where s': "rename mem_rocks list_lru 1 [0x78] 1 [0x79] sample_server = (Err NotFound, s')"
    using f by (cases "rename mem_rocks list_lru 1 [0x78] 1 [0x79] sample_server") auto
  have ch: "metadata_channel (MetadataRpcServer ?M) (rc_clients ?c)"
    using wires.metadata_channel_axioms [of "MetadataRpcServer ?M" Delivered "[]"] by simp
  have run: "mo_rename MetadataRpcClient 1 [0x78] 1 [0x79] ?c = (Err NotFound, ?c\<lparr>rc_counter := 1, rc_env := s'\<rparr>)"
    by (simp add: MetadataRpcClient_defs rpc_def bind_def next_client_def over_wire_def MetadataRpcServer_defs serve_def
        receive_def MetadataServer_def s' status_def)
  from rpc_errors_truthful [OF ch run] run f show ?thesis by auto
qed

lemma connect_loop_length:
  "connect_loop n conn cs s = (Ok clients, s') \<Longrightarrow> length clients = length cs + n"
  by (induction n arbitrary: cs s) (auto simp: ret_def bind_def split: prod.splits outcome.splits)

lemma next_client_iterate:
  assumes "rc_clients c \<noteq> []"
  shows "((\<lambda>c. snd (next_client c)) ^^ k) c = c\<lparr>rc_counter := rc_counter c + of_nat k\<rparr>"
  using assms by (induction k) (simp_all add: next_client_def Let_def)

text \<open>
  The connection pool: a successful \<^verbatim>\<open>connect\<close> opens as many connections as the environment asks
  for, at least one, and the \<open>k\<close>-th call (counted from 0, before the 64-bit counter wraps around) uses
  connection \<open>k\<close> modulo the size of the pool, so consecutive calls take turns and none panics.
\<close>

lemma pool_round_robin:
  assumes "connect from_shared dial var addr env s = (Ok c, s')" and "k < 2 ^ 64"
  shows "length (rc_clients c) = pool_size_from_env var \<and> 1 \<le> length (rc_clients c) \<and>
    fst (next_client (((\<lambda>c. snd (next_client c)) ^^ k) c)) = Ok (rc_clients c ! (k mod length (rc_clients c)))"
proof -
  have n: "1 \<le> pool_size_from_env var" by (auto simp: pool_size_from_env_def DEFAULT_POOL_SIZE_def split: option.split)
  have l: "length (rc_clients c) = pool_size_from_env var" and z: "rc_counter c = 0"
    using assms(1) connect_loop_length [of "pool_size_from_env var" _ "[]"]
    by (auto simp: connect_def Let_def bind_def ret_def split: prod.splits outcome.splits)
  then have ne: "rc_clients c \<noteq> []" using n by auto
  have "unat (of_nat k :: u64) = k" using assms(2) by (simp add: unat_of_nat take_bit_nat_eq_self)
  then have "fst (next_client (c\<lparr>rc_counter := rc_counter c + of_nat k\<rparr>)) = Ok (rc_clients c ! (k mod length (rc_clients c)))"
    using z ne by (simp add: next_client_def Let_def)
  with l n show ?thesis unfolding next_client_iterate [OF ne] by simp
qed

end
