(* ===== verification/Rpc_Data.thy ===== *)
theory Rpc_Data
  imports Rpc_Metadata
begin

text \<open>
  The data service over gRPC (\<^verbatim>\<open>src/rpc/src/data_server.rs\<close>, \<^verbatim>\<open>src/rpc/src/data_client.rs\<close>), the token
  check of \<^verbatim>\<open>src/rpc/src/auth.rs\<close>, and the distributed deployment: the router over a remote metadata
  server and a remote data server. The data client keeps the contract of a data store, so the facts
  about the router hold for it as they do for the embedded client.
\<close>

section \<open>The service\<close>

record 's DataService =
  dv_read_data :: "ReadDataRequest \<Rightarrow> ('s, ReadDataResponse) rpc_op"
  dv_write_data :: "WriteDataRequest \<Rightarrow> ('s, WriteDataResponse) rpc_op"
  dv_truncate :: "TruncateRequest \<Rightarrow> ('s, unit) rpc_op"
  dv_flush :: "FlushRequest \<Rightarrow> ('s, unit) rpc_op"
  dv_delete_data :: "DeleteDataRequest \<Rightarrow> ('s, unit) rpc_op"

section \<open>DataRpcServer\<close>

fun data_server_map_error :: "FsError \<Rightarrow> Status" where
  "data_server_map_error NotFound = status CodeNotFound (error_text NotFound)"
| "data_server_map_error PermissionDenied = status CodePermissionDenied (error_text PermissionDenied)"
| "data_server_map_error (InvalidInput msg) = status InvalidArgument msg"
| "data_server_map_error (Io msg) = status Internal msg"
| "data_server_map_error NotImplemented = status Unimplemented (error_text NotImplemented)"
| "data_server_map_error err = status Internal (error_text err)"

definition DataRpcServer :: "'s DataOps \<Rightarrow> 's DataService" where
  "DataRpcServer backend =
     \<lparr>dv_read_data = (\<lambda>req. serve data_server_map_error (\<lambda>bs. \<lparr>dr_data = bs\<rparr>)
        (do_read_data backend (dr_inode req) (dr_offset req) (dr_size req))),
      dv_write_data = (\<lambda>req. serve data_server_map_error (\<lambda>n. \<lparr>dw_bytes_written = n\<rparr>)
        (do_write_data backend (dw_inode req) (dw_offset req) (dw_data req))),
      dv_truncate = (\<lambda>req. serve data_server_map_error (\<lambda>_. ()) (do_truncate backend (dt_inode req) (dt_size req))),
      dv_flush = (\<lambda>req. serve data_server_map_error (\<lambda>_. ()) (do_flush backend (df_inode req))),
      dv_delete_data = (\<lambda>req. serve data_server_map_error (\<lambda>_. ()) (do_delete_data backend (dd_inode req)))\<rparr>"

section \<open>DataRpcClient\<close>

fun data_client_map_error :: "Status \<Rightarrow> FsError" where
  "data_client_map_error err =
     (case st_code err of
        CodeNotFound \<Rightarrow> NotFound
      | CodePermissionDenied \<Rightarrow> PermissionDenied
      | InvalidArgument \<Rightarrow> InvalidInput (st_message err)
      | Unimplemented \<Rightarrow> NotImplemented
      | _ \<Rightarrow> Io (st_message err))"

definition DataRpcClient :: "'s DataService \<Rightarrow> 's DataOps" where
  "DataRpcClient client =
     \<lparr>do_read_data = (\<lambda>inode offset sz. receive data_client_map_error dr_data
        (dv_read_data client \<lparr>dr_inode = inode, dr_offset = offset, dr_size = sz\<rparr>)),
      do_write_data = (\<lambda>inode offset bs. receive data_client_map_error dw_bytes_written
        (dv_write_data client \<lparr>dw_inode = inode, dw_offset = offset, dw_data = bs\<rparr>)),
      do_truncate = (\<lambda>inode sz. receive data_client_map_error (\<lambda>_. ()) (dv_truncate client \<lparr>dt_inode = inode, dt_size = sz\<rparr>)),
      do_flush = (\<lambda>inode. receive data_client_map_error (\<lambda>_. ()) (dv_flush client \<lparr>df_inode = inode\<rparr>)),
      do_delete_data = (\<lambda>inode. receive data_client_map_error (\<lambda>_. ()) (dv_delete_data client \<lparr>dd_inode = inode\<rparr>))\<rparr>"

definition data_connect ::
  "(str \<Rightarrow> string + 'ep) \<Rightarrow> ('ep \<Rightarrow> 'n \<Rightarrow> (string + 's DataService) \<times> 'n) \<Rightarrow> str \<Rightarrow> ('n, 's DataOps) fs_op" where
  "data_connect from_shared dial addr =
     bind (lib_call InvalidInput (\<lambda>s. (from_shared addr, s))) (\<lambda>ep.
     bind (lib_call Io (dial ep)) (\<lambda>channel.
     ret (DataRpcClient channel)))"

definition data_connect_secure ::
  "(str \<Rightarrow> string + 'ep) \<Rightarrow> ('tls \<Rightarrow> 'ep \<Rightarrow> string + 'ep) \<Rightarrow> ('ep \<Rightarrow> 'n \<Rightarrow> (string + 's DataService) \<times> 'n)
   \<Rightarrow> ('cfg \<Rightarrow> 'n \<Rightarrow> (string + 'tls option) \<times> 'n) \<Rightarrow> str \<Rightarrow> 'cfg option \<Rightarrow> ('n, 's DataOps) fs_op" where
  "data_connect_secure from_shared tls_config dial load addr tls_conf =
     bind (lib_call InvalidInput (\<lambda>s. (from_shared addr, s))) (\<lambda>ep.
     bind (case tls_conf of
             Some tls \<Rightarrow>
               bind (lib_call (\<lambda>e. Io (''Failed to load TLS config: '' @ e)) (load tls)) (\<lambda>loaded.
               case loaded of
                 Some tls \<Rightarrow> lib_call Io (\<lambda>s. (tls_config tls ep, s))
               | None \<Rightarrow> ret ep)
           | None \<Rightarrow> ret ep) (\<lambda>ep.
     bind (lib_call Io (dial ep)) (\<lambda>channel.
     ret (DataRpcClient channel))))"

section \<open>Token authentication\<close>

text \<open>
  The comparison of byte strings and the reading of a header as text are the libraries'. \<open>None\<close> is an
  absent header.
\<close>

definition token_validate :: "(bytes \<Rightarrow> bytes \<Rightarrow> bool) \<Rightarrow> str \<Rightarrow> str \<Rightarrow> bool" where
  "token_validate constant_time_eq token provided = constant_time_eq token provided"

definition bearer :: str where
  "bearer = [0x42, 0x65, 0x61, 0x72, 0x65, 0x72, 0x20]"

lemma length_bearer: "length bearer = 7"
  by (simp add: bearer_def)

definition auth_interceptor ::
  "(bytes \<Rightarrow> bytes \<Rightarrow> bool) \<Rightarrow> (bytes \<Rightarrow> str option) \<Rightarrow> str \<Rightarrow> ('q \<Rightarrow> bytes option) \<Rightarrow> 'q \<Rightarrow> (Status, 'q) outcome" where
  "auth_interceptor constant_time_eq to_str token authorization req =
     (case Option.bind (authorization req) to_str of
        Some header \<Rightarrow>
          (if take 7 header = bearer then
             (let provided_token = drop 7 header in
              if constant_time_eq provided_token token then Ok req
              else Err (status Unauthenticated ''Invalid API token''))
           else Err (status Unauthenticated ''Missing or invalid authorization header (expected: Bearer <token>)''))
      | None \<Rightarrow> Err (status Unauthenticated ''Missing or invalid authorization header (expected: Bearer <token>)''))"

text \<open>
  C25. The interceptor lets a request through, unchanged, exactly when its authorization header reads
  \<^verbatim>\<open>Bearer\<close>, a space and the configured token; every other request is refused as unauthenticated.
\<close>

theorem auth_exact:
  assumes "\<And>a b. constant_time_eq a b \<longleftrightarrow> a = b" and "\<And>b t. to_str b = Some t \<Longrightarrow> t = b"
  shows "if authorization req = Some (bearer @ token) \<and> to_str (bearer @ token) \<noteq> None
    then auth_interceptor constant_time_eq to_str token authorization req = Ok req
    else \<exists>m. auth_interceptor constant_time_eq to_str token authorization req = Err (status Unauthenticated m)"
proof (cases "Option.bind (authorization req) to_str")
  case None
  then show ?thesis by (auto simp: auth_interceptor_def)
next
  case (Some t)
  then have h: "authorization req = Some t" "to_str t = Some t" using assms(2) by (auto simp: Option.bind_eq_Some_conv)
  have "t = bearer @ token \<longleftrightarrow> take 7 t = bearer \<and> drop 7 t = token"
    using append_eq_conv_conj [of bearer token t] length_bearer by auto
  then show ?thesis using h assms(1) Some by (auto simp: auth_interceptor_def Let_def)
qed

theorem auth_exact_witness:
  "auth_interceptor (=) (\<lambda>b. if \<forall>x \<in> set b. 32 \<le> x \<and> x < 127 then Some b else None) [0x73] (\<lambda>q. Some q) (bearer @ [0x73]) =
     Ok (bearer @ [0x73])"
proof -
  let ?to_str = "\<lambda>b :: bytes. if \<forall>x \<in> set b. 32 \<le> x \<and> x < 127 then Some b else None"
  have "?to_str (bearer @ [0x73]) \<noteq> None" by (simp add: bearer_def)
  moreover have "?to_str b = Some t \<Longrightarrow> t = b" for b t by (simp split: if_splits)
  ultimately show ?thesis
    using auth_exact [of "(=)" ?to_str "\<lambda>q. Some q" "bearer @ [0x73]" "[0x73]"] by simp
qed

section \<open>The data client keeps the contract of a data store\<close>

definition data_over_wire :: "wire \<Rightarrow> 's DataService \<Rightarrow> 's DataService" where
  "data_over_wire w svc =
     \<lparr>dv_read_data = over w (dv_read_data svc), dv_write_data = over w (dv_write_data svc),
      dv_truncate = over w (dv_truncate svc), dv_flush = over w (dv_flush svc),
      dv_delete_data = over w (dv_delete_data svc)\<rparr>"

abbreviation remote_data :: "'s DataOps \<Rightarrow> 's DataOps" where
  "remote_data D \<equiv> DataRpcClient (data_over_wire Delivered (DataRpcServer D))"

lemmas remote_defs = DataRpcClient_def data_over_wire_def DataRpcServer_def receive_def serve_def status_def

lemma data_store_remote:
  assumes "data_store (do_read_data D) (do_write_data D) (do_truncate D) (do_flush D) (do_delete_data D) content cap good"
  shows "data_store (do_read_data (remote_data D)) (do_write_data (remote_data D)) (do_truncate (remote_data D))
    (do_flush (remote_data D)) (do_delete_data (remote_data D)) content cap good"
proof (unfold_locales, goal_cases)
  case (1 s i off n)
  from data_store.read_law [OF assms 1, of n] show ?case by (auto simp: remote_defs)
next
  case (2 s i off m bs)
  from data_store.write_law [OF assms 2] show ?case by (auto simp: remote_defs)
next
  case (3 s i sz)
  from data_store.truncate_law [OF assms 3] show ?case by (auto simp: remote_defs)
next
  case (4 s i)
  from data_store.flush_law [OF assms 4] show ?case by (auto simp: remote_defs)
next
  case (5 s i)
  from data_store.delete_law [OF assms 5] show ?case by (auto simp: remote_defs)
next
  case (6 s off i n bs)
  from data_store.range_law [OF assms 6, of i n bs] show ?case by (auto simp: remote_defs)
qed

interpretation remote: data_store "do_read_data (remote_data (DataServer RawDiskDataStore))"
  "do_write_data (remote_data (DataServer RawDiskDataStore))" "do_truncate (remote_data (DataServer RawDiskDataStore))"
  "do_flush (remote_data (DataServer RawDiskDataStore))" "do_delete_data (remote_data (DataServer RawDiskDataStore))"
  disk_content disk_cap disk_good
  by (rule data_store_remote) (rule served.data_store_axioms)

section \<open>The distributed deployment\<close>

text \<open>The router over a remote metadata server and a remote data server.\<close>

abbreviation far_data :: "('m \<times> rawdisk) DataOps" where
  "far_data \<equiv> beside_meta (remote_data (DataServer RawDiskDataStore))"

interpretation distributed: vfs_backend
  "\<lambda>i off n. on_data (do_read_data (remote_data (DataServer RawDiskDataStore)) i off n)"
  "\<lambda>i off bs. on_data (do_write_data (remote_data (DataServer RawDiskDataStore)) i off bs)"
  "\<lambda>i n. on_data (do_truncate (remote_data (DataServer RawDiskDataStore)) i n)"
  "\<lambda>i. on_data (do_flush (remote_data (DataServer RawDiskDataStore)) i)"
  "\<lambda>i. on_data (do_delete_data (remote_data (DataServer RawDiskDataStore)) i)"
  "\<lambda>e. disk_content (snd e)" "\<lambda>e. disk_cap (snd e)" "\<lambda>e. disk_good (snd e)"
  "beside_data MetadataRpcClient"
  by (intro vfs_backend.intro data_store_beside remote.data_store_axioms vfs_backend_axioms.intro)
     (auto simp: beside_data_def dest!: on_meta_keeps)



end
