(* ===== verification/Tls.thy ===== *)
theory Tls
  imports Rpc_Data
begin

text \<open>
  \<^verbatim>\<open>src/rpc/src/tls.rs\<close>: loading of TLS settings from files. Reading a file, parsing PEM and building the
  libraries' configuration objects are the libraries'; they are arguments. Errors are boxed errors,
  here their texts. A configuration for the \<^verbatim>\<open>tonic\<close> client is the certificate bytes and the domain name
  that were set on it (\<open>None\<close>: not set), for its server whether an identity was set.
\<close>

section \<open>Server side\<close>

record TlsConfig =
  cert_path :: str
  key_path :: str

definition TlsConfig_new :: "str \<Rightarrow> str \<Rightarrow> TlsConfig" where
  "TlsConfig_new cert key = \<lparr>cert_path = cert, key_path = key\<rparr>"

definition prefixed :: "string \<Rightarrow> string + 'a \<Rightarrow> string + 'a" where
  "prefixed p r = (case r of Inl e \<Rightarrow> Inl (p @ e) | Inr a \<Rightarrow> Inr a)"

fun and_then :: "string + 'a \<Rightarrow> ('a \<Rightarrow> string + 'b) \<Rightarrow> string + 'b" where
  "and_then (Inl e) f = Inl e"
| "and_then (Inr a) f = f a"

definition load_server_config ::
  "(str \<Rightarrow> string + bytes) \<Rightarrow> (bytes \<Rightarrow> string + bytes list) \<Rightarrow> (bytes \<Rightarrow> string + 'key option)
   \<Rightarrow> (bytes list \<Rightarrow> 'key \<Rightarrow> string + 'cfg) \<Rightarrow> TlsConfig \<Rightarrow> string + 'cfg" where
  "load_server_config open_file certs private_key with_single_cert self =
     and_then (open_file (cert_path self)) (\<lambda>cert_file.
     and_then (prefixed ''Failed to load certificate: '' (certs cert_file)) (\<lambda>cs.
     and_then (open_file (key_path self)) (\<lambda>key_file.
     and_then (prefixed ''Failed to load private key: '' (private_key key_file)) (\<lambda>k.
     case k of
       Some key \<Rightarrow> with_single_cert cs key
     | None \<Rightarrow> Inl ''No private key found in file''))))"

record 'cfg ServerTlsConfig =
  stc_identity :: "'cfg option"

definition create_server_tls_config ::
  "(str \<Rightarrow> string + bytes) \<Rightarrow> (bytes \<Rightarrow> string + bytes list) \<Rightarrow> (bytes \<Rightarrow> string + 'key option)
   \<Rightarrow> (bytes list \<Rightarrow> 'key \<Rightarrow> string + 'cfg) \<Rightarrow> TlsConfig \<Rightarrow> string + 'cfg ServerTlsConfig" where
  "create_server_tls_config open_file certs private_key with_single_cert self =
     and_then (load_server_config open_file certs private_key with_single_cert self) (\<lambda>_.
     Inr \<lparr>stc_identity = None\<rparr>)"

section \<open>Client side\<close>

record ClientTlsConfig =
  ca_cert_path :: "str option"
  tls_domain :: "str option"

definition ClientTlsConfig_new :: ClientTlsConfig where
  "ClientTlsConfig_new = \<lparr>ca_cert_path = None, tls_domain = None\<rparr>"

definition with_ca_cert :: "str \<Rightarrow> ClientTlsConfig \<Rightarrow> ClientTlsConfig" where
  "with_ca_cert path self = self\<lparr>ca_cert_path := Some path\<rparr>"

definition with_domain :: "str \<Rightarrow> ClientTlsConfig \<Rightarrow> ClientTlsConfig" where
  "with_domain domain_name self = self\<lparr>tls_domain := Some domain_name\<rparr>"

record TonicClientTls =
  tc_ca_certificate :: "bytes option"
  tc_domain_name :: "str option"

definition tls_load ::
  "(str \<Rightarrow> string + bytes) \<Rightarrow> (bytes \<Rightarrow> string + bytes list) \<Rightarrow> ClientTlsConfig \<Rightarrow> string + TonicClientTls option" where
  "tls_load open_file certs self =
     (case ca_cert_path self of
        Some ca_path \<Rightarrow>
          and_then (open_file ca_path) (\<lambda>ca_file.
          and_then (prefixed ''Failed to load CA certificate: '' (certs ca_file)) (\<lambda>ca_certs.
          let pem_bytes = concat ca_certs;
              builder = \<lparr>tc_ca_certificate = Some pem_bytes, tc_domain_name = None\<rparr> in
          Inr (Some (case tls_domain self of
                       Some domain_name \<Rightarrow> builder\<lparr>tc_domain_name := Some domain_name\<rparr>
                     | None \<Rightarrow> builder))))
      | None \<Rightarrow> Inr (Some \<lparr>tc_ca_certificate = None, tc_domain_name = None\<rparr>))"

section \<open>Facts\<close>

text \<open>The server never presents the identity it has loaded and checked.\<close>

lemma server_tls_without_identity:
  "create_server_tls_config open_file certs private_key with_single_cert c = Inr cfg \<Longrightarrow> stc_identity cfg = None"
  by (cases "load_server_config open_file certs private_key with_single_cert c") (auto simp: create_server_tls_config_def)

text \<open>The domain name counts only together with a CA certificate.\<close>

lemma tls_load_domain:
  assumes "tls_load open_file certs c = Inr (Some t)"
  shows "tc_domain_name t = (if ca_cert_path c = None then None else tls_domain c)"
  using assms
  by (auto simp: tls_load_def prefixed_def Let_def split: option.splits sum.splits elim!: and_then.elims)

text \<open>
  A client whose TLS settings cannot be loaded reports that, and no connection is attempted: the
  network is as it was.
\<close>

lemma connect_secure_load_error:
  assumes "tls_load open_file certs c = Inl e"
  shows "connect_secure from_shared tls_config dial (\<lambda>c n. (tls_load open_file certs c, n)) var addr (Some c) env net =
    (Err (Io (''Failed to load TLS config: '' @ e)), net)"
  using assms by (simp add: connect_secure_def bind_def lib_call_def Let_def)

end
