(* ===== verification/Rocks_Open.thy ===== *)
theory Rocks_Open
  imports Rocks_Stores
begin

text \<open>
  Opening the database (\<^verbatim>\<open>src/storage/src/rocks.rs\<close>): the column families with their options, and the
  constructors of the stores that open a database of their own. Opening itself is a call of the
  RocksDB crate and a parameter: \<open>opener\<close> gets the database options, the path and the descriptors
  and returns a database or a message. Bits per key of the bloom filter are written as a natural
  number (the source has \<^verbatim>\<open>10.0\<close>); an option that is not set keeps the default of the crate.
\<close>

section \<open>Options\<close>

datatype DBCompressionType = Lz4

record BlockBasedOptions =
  bo_bloom_filter :: "(nat \<times> bool) option"

record CfOptions =
  cfo_prefix_extractor :: "nat option"
  cfo_block_based_table_factory :: "BlockBasedOptions option"
  cfo_compression_type :: "DBCompressionType option"

record DbOptions =
  dbo_create_if_missing :: bool
  dbo_create_missing_column_families :: bool

definition ALL_CFS :: "string list" where
  "ALL_CFS = [cf_name CF_INODES, cf_name CF_DIR_ENTRIES, cf_name CF_SYSTEM, cf_name CF_DELTA_ENTRIES]"

definition block_opts_with_bloom :: BlockBasedOptions where
  "block_opts_with_bloom = \<lparr>bo_bloom_filter = Some (10, False)\<rparr>"

definition cf_options :: "string \<Rightarrow> CfOptions" where
  "cf_options name =
     (let opts = \<lparr>cfo_prefix_extractor = None, cfo_block_based_table_factory = None, cfo_compression_type = None\<rparr> in
      if name = cf_name CF_INODES then
        opts\<lparr>cfo_block_based_table_factory := Some block_opts_with_bloom, cfo_compression_type := Some Lz4\<rparr>
      else if name = cf_name CF_DIR_ENTRIES then
        opts\<lparr>cfo_prefix_extractor := Some 9, cfo_block_based_table_factory := Some block_opts_with_bloom,
             cfo_compression_type := Some Lz4\<rparr>
      else if name = cf_name CF_DELTA_ENTRIES then
        opts\<lparr>cfo_prefix_extractor := Some 9, cfo_block_based_table_factory := Some block_opts_with_bloom\<rparr>
      else if name = cf_name CF_SYSTEM then opts\<lparr>cfo_compression_type := Some Lz4\<rparr>
      else opts)"

section \<open>Opening\<close>

type_synonym 'db opener = "DbOptions \<Rightarrow> str \<Rightarrow> (string \<times> CfOptions) list \<Rightarrow> string + 'db"

definition open_rocks_db :: "'db opener \<Rightarrow> str \<Rightarrow> 'db FsResult" where
  "open_rocks_db opener path =
     (let db_opts = \<lparr>dbo_create_if_missing = True, dbo_create_missing_column_families = True\<rparr>;
          cf_descriptors = map (\<lambda>name. (name, cf_options name)) ALL_CFS in
      case opener db_opts path cf_descriptors of
        Inl e \<Rightarrow> Err (Io (''RocksDB open failed: '' @ e))
      | Inr db \<Rightarrow> Ok db)"

text \<open>
  The stores share one handle. \<open>stores_new\<close> is the state behind \<^verbatim>\<open>RocksMetadataStore::new\<close>,
  \<^verbatim>\<open>RocksDirectoryIndex::new\<close> and \<^verbatim>\<open>RocksStorageBundle::new\<close> on a handle; \<open>idle\<close> fills the slot of the
  transaction, which is written by \<^verbatim>\<open>begin_write\<close> before anything reads it.
\<close>

definition stores_new :: "'txn \<Rightarrow> 'db \<Rightarrow> ('db, 'txn) kv" where
  "stores_new idle db = \<lparr>kv_db = db, kv_txn = idle, kv_seqs = Map.empty\<rparr>"

definition metadata_store_open :: "'db opener \<Rightarrow> 'txn \<Rightarrow> str \<Rightarrow> ('db, 'txn) kv FsResult" where
  "metadata_store_open opener idle path = map_res (stores_new idle) (open_rocks_db opener path)"

definition directory_index_open :: "'db opener \<Rightarrow> 'txn \<Rightarrow> str \<Rightarrow> ('db, 'txn) kv FsResult" where
  "directory_index_open opener idle path = map_res (stores_new idle) (open_rocks_db opener path)"

section \<open>The prefix extractors fit the keys\<close>

text \<open>What an extractor of fixed length keeps of a key; keys that are shorter are outside its domain.\<close>

definition extracted :: "CfOptions \<Rightarrow> bytes \<Rightarrow> bytes option" where
  "extracted opts k = (case cfo_prefix_extractor opts of
     None \<Rightarrow> Some k
   | Some n \<Rightarrow> (if n \<le> length k then Some (take n k) else None))"

abbreviation options_of :: "cf \<Rightarrow> CfOptions" where
  "options_of c \<equiv> cf_options (cf_name c)"

lemma cf_name_inject: "cf_name c = cf_name c' \<longleftrightarrow> c = c'"
  by (cases c; cases c') simp_all

lemma cf_name_in_ALL_CFS: "cf_name c \<in> set ALL_CFS"
  by (cases c) (simp_all add: ALL_CFS_def)

lemma cf_options_extractor:
  "cfo_prefix_extractor (options_of c) = (if c \<in> {CF_DIR_ENTRIES, CF_DELTA_ENTRIES} then Some 9 else None)"
  by (cases c) (simp_all add: cf_options_def)

text \<open>The condition under which the contract of the database promises ordered prefix scans.\<close>

lemma prefix_usable_iff: "prefix_usable c p \<longleftrightarrow> extracted (options_of c) p = Some p"
  unfolding extracted_def cf_options_extractor
  by (cases c) (auto simp: prefix_usable_def dest: arg_cong [of _ _ length])

lemma keys_extracted:
  "extracted (options_of CF_DIR_ENTRIES) (encode_dir_entry_key p n) = Some (dir_entry_prefix p)"
  "extracted (options_of CF_DELTA_ENTRIES) (encode_delta_key i sq) = Some (delta_prefix i)"
  unfolding extracted_def cf_options_extractor
  by (simp_all add: dir_entry_prefix_def delta_prefix_def encode_dir_entry_key_def encode_delta_key_def)

lemma prefixes_inject: "dir_entry_prefix p = dir_entry_prefix q \<longleftrightarrow> p = q" "delta_prefix i = delta_prefix j \<longleftrightarrow> i = j"
  by (simp_all add: dir_entry_prefix_def delta_prefix_def to_be_inject)

text \<open>
  Options that fit the scans of a family: a prefix scan is ordered exactly for the prefixes that the
  extractor keeps, and it keeps of every key the scan prefix of its own directory or inode.
\<close>

definition fits :: "cf \<Rightarrow> CfOptions \<Rightarrow> bool" where
  "fits c opts \<longleftrightarrow> (\<forall>p. prefix_usable c p \<longleftrightarrow> extracted opts p = Some p) \<and>
     (c = CF_DIR_ENTRIES \<longrightarrow> (\<forall>p q n. extracted opts (encode_dir_entry_key p n) = Some (dir_entry_prefix q) \<longleftrightarrow> p = q)) \<and>
     (c = CF_DELTA_ENTRIES \<longrightarrow> (\<forall>i j sq. extracted opts (encode_delta_key i sq) = Some (delta_prefix j) \<longleftrightarrow> i = j))"

lemma options_fit: "fits c (options_of c)"
  using keys_extracted by (auto simp: fits_def prefix_usable_iff prefixes_inject simp del: cf_name.simps)

text \<open>
  C22. The database that is opened fits the stores: it is created when it is missing, with every column
  family they use; a prefix scan is ordered exactly for the prefixes that the family's extractor keeps;
  and the extractor maps every directory-entry key to the scan prefix of its own directory and every
  delta key to that of its own inode, distinct ones for distinct inodes.
\<close>

theorem opened_database_fits:
  assumes "open_rocks_db opener path = Ok db"
  shows "\<exists>opts cfs. opener opts path cfs = Inr db \<and>
    dbo_create_if_missing opts \<and> dbo_create_missing_column_families opts \<and> distinct (map fst cfs) \<and>
    (\<forall>c. \<exists>oc. map_of cfs (cf_name c) = Some oc \<and> fits c oc)"
proof -
  let ?cfs = "map (\<lambda>name. (name, cf_options name)) ALL_CFS"
  let ?opts = "\<lparr>dbo_create_if_missing = True, dbo_create_missing_column_families = True\<rparr>"
  have "map_of ?cfs (cf_name c) = Some (options_of c)" for c
    using cf_name_in_ALL_CFS [of c] by (simp add: map_of_map_restrict [of cf_options, unfolded comp_def] restrict_map_def)
  then have cfs: "\<forall>c. \<exists>oc. map_of ?cfs (cf_name c) = Some oc \<and> fits c oc" using options_fit by blast
  have dist: "distinct (map fst ?cfs)" by (simp add: ALL_CFS_def)
  have run: "opener ?opts path ?cfs = Inr db"
    using assms by (auto simp: open_rocks_db_def Let_def split: sum.splits)
  have opts: "dbo_create_if_missing ?opts" "dbo_create_missing_column_families ?opts" by simp_all
  show ?thesis by (intro exI conjI) (rule run opts dist cfs)+
qed

text \<open>An opener that reports which families it was given.\<close>

theorem opened_database_fits_witness:
  "open_rocks_db (\<lambda>opts path cfs. Inr (map fst cfs)) [0x64] = Ok ALL_CFS \<and>
   (\<exists>cfs. map fst cfs = ALL_CFS \<and> (\<forall>c. \<exists>oc. map_of cfs (cf_name c) = Some oc \<and> fits c oc))"
proof -
  have run: "open_rocks_db (\<lambda>opts path cfs. Inr (map fst cfs)) [0x64] = Ok ALL_CFS"
    by (simp add: open_rocks_db_def comp_def)
  from opened_database_fits [OF run] show ?thesis unfolding run by (elim exE conjE) (intro conjI exI; (assumption | simp))
qed

end
