(* ===== verification/Fuse.thy ===== *)
theory Fuse
  imports Rpc_Data
begin

unbundle bit_operations_syntax

text \<open>
  The FUSE front end of \<^verbatim>\<open>src/client/src/fuse.rs\<close>: every handler of the kernel's requests over any
  \<^verbatim>\<open>VfsOps\<close> implementation. Errors are errno numbers. The state holds the client and the releases that
  were handed to background tasks and have not run yet. Mounting is in the theory \<open>Programs\<close>.
\<close>

section \<open>Types of the FUSE protocol\<close>

datatype FileType = Directory | Symlink_file | RegularFile

record FuseAttr =
  ff_ino :: u64
  ff_size :: u64
  ff_blocks :: u64
  ff_atime :: u64
  ff_mtime :: u64
  ff_ctime :: u64
  ff_kind :: FileType
  ff_perm :: "16 word"
  ff_nlink :: u32
  ff_uid :: u32
  ff_gid :: u32
  ff_rdev :: u32
  ff_blksize :: u32

record ReplyEntry =
  ry_ttl :: nat
  ry_attr :: FuseAttr
  ry_generation :: u64

record ReplyAttr =
  ra_ttl :: nat
  ra_attr :: FuseAttr

record ReplyCreated =
  rc_ttl :: nat
  rc_attr :: FuseAttr
  rc_generation :: u64
  rc_fh :: u64
  rc_flags :: u32

record ReplyOpen =
  ro_fh :: u64
  ro_flags :: u32

record ReplyStatFs =
  rs_blocks :: u64
  rs_bfree :: u64
  rs_bavail :: u64
  rs_files :: u64
  rs_ffree :: u64
  rs_bsize :: u32
  rs_namelen :: u32
  rs_frsize :: u32

record DirectoryEntryPlus =
  dp_inode :: u64
  dp_generation :: u64
  dp_kind :: FileType
  dp_name :: str
  dp_offset :: int
  dp_attr :: FuseAttr
  dp_entry_ttl :: nat
  dp_attr_ttl :: nat

text \<open>The caller's identity, and a change of attributes; times are signed seconds.\<close>

record FuseRequest =
  fq_uid :: u32
  fq_gid :: u32

record SetAttr =
  ss_mode :: "u32 option"
  ss_uid :: "u32 option"
  ss_gid :: "u32 option"
  ss_size :: "u64 option"
  ss_atime :: "int option"
  ss_mtime :: "int option"

record 'v fuse =
  fu_client :: 'v
  fu_spawned :: "inode list"

type_synonym ('v, 'a) fuse_op = "('v fuse, int, 'a) op"

section \<open>Conversions\<close>

definition TTL :: nat where
  "TTL = 0"

definition S_IFMT :: u32 where
  "S_IFMT = 0xF000"

text \<open>\<^verbatim>\<open>OsStr::to_string_lossy\<close>: each malformed sequence becomes U+FFFD.\<close>

function to_string_lossy :: "bytes \<Rightarrow> str" where
  "to_string_lossy [] = []"
| "to_string_lossy (b0 # bs) =
     (case utf8_head_error (b0 # bs) of
        Some (Some n) \<Rightarrow> [0xEF, 0xBF, 0xBD] @ to_string_lossy (drop (n - 1) bs)
      | Some None \<Rightarrow> [0xEF, 0xBF, 0xBD]
      | None \<Rightarrow> (case utf8_width b0 of
                   Some w \<Rightarrow> take w (b0 # bs) @ to_string_lossy (drop (w - 1) bs)
                 | None \<Rightarrow> []))"
  by pat_completeness auto
termination
  by (relation "measure length") auto

text \<open>\<^verbatim>\<open>UNIX_EPOCH + Duration::from_secs(secs)\<close>: the clock type holds signed 64-bit seconds.\<close>

definition secs_to_systime :: "u64 \<Rightarrow> ('e, u64) outcome" where
  "secs_to_systime secs = (if unat secs < 2 ^ 63 then Ok secs else Panic ''overflow when adding duration to instant'')"

definition file_kind :: "u32 \<Rightarrow> FileType" where
  "file_kind mode =
     (if mode AND S_IFMT = S_IFDIR then Directory
      else if mode AND S_IFMT = S_IFLNK then Symlink_file
      else RegularFile)"

definition to_fuse3_attr :: "FileAttr \<Rightarrow> ('s, 'e, FuseAttr) op" where
  "to_fuse3_attr attr =
     (let kind = file_kind (fa_mode attr) in
      bind (lift (secs_to_systime (fa_atime attr))) (\<lambda>atime.
      bind (lift (secs_to_systime (fa_mtime attr))) (\<lambda>mtime.
      bind (lift (secs_to_systime (fa_ctime attr))) (\<lambda>ctime.
      ret \<lparr>ff_ino = fa_inode attr, ff_size = fa_size attr, ff_blocks = 0, ff_atime = atime, ff_mtime = mtime,
           ff_ctime = ctime, ff_kind = kind, ff_perm = ucast (fa_mode attr AND 0xFFF), ff_nlink = fa_nlink attr,
           ff_uid = fa_uid attr, ff_gid = fa_gid attr, ff_rdev = 0, ff_blksize = 512\<rparr>))))"

definition EOPNOTSUPP :: int where
  "EOPNOTSUPP = 95"

definition ENOSYS :: int where
  "ENOSYS = 38"

fun fs_error_to_errno :: "FsError \<Rightarrow> int" where
  "fs_error_to_errno NotImplemented = EOPNOTSUPP"
| "fs_error_to_errno NotFound = 2"
| "fs_error_to_errno AlreadyExists = 17"
| "fs_error_to_errno NotADirectory = 20"
| "fs_error_to_errno IsADirectory = 21"
| "fs_error_to_errno DirectoryNotEmpty = 39"
| "fs_error_to_errno NameTooLong = 36"
| "fs_error_to_errno PermissionDenied = 1"
| "fs_error_to_errno (InvalidInput _) = 22"
| "fs_error_to_errno (Io _) = 5"
| "fs_error_to_errno (Other _) = 5"
| "fs_error_to_errno TransactionConflict = 11"

section \<open>FuseClient\<close>

text \<open>A call of the client; its error becomes an errno.\<close>

definition on_client :: "('v, 'a) fs_op \<Rightarrow> ('v, 'a) fuse_op" where
  "on_client f s =
     (case f (fu_client s) of
        (Ok a, v) \<Rightarrow> (Ok a, s\<lparr>fu_client := v\<rparr>)
      | (Err e, v) \<Rightarrow> (Err (fs_error_to_errno e), s\<lparr>fu_client := v\<rparr>)
      | (Panic q, v) \<Rightarrow> (Panic q, s\<lparr>fu_client := v\<rparr>))"

definition FuseClient_new :: "'v \<Rightarrow> 'v fuse" where
  "FuseClient_new client = \<lparr>fu_client = client, fu_spawned = []\<rparr>"

definition entry_reply :: "FileAttr \<Rightarrow> ('v, ReplyEntry) fuse_op" where
  "entry_reply attr = bind (to_fuse3_attr attr) (\<lambda>a. ret \<lparr>ry_ttl = TTL, ry_attr = a, ry_generation = 0\<rparr>)"

definition attr_reply :: "FileAttr \<Rightarrow> ('v, ReplyAttr) fuse_op" where
  "attr_reply attr = bind (to_fuse3_attr attr) (\<lambda>a. ret \<lparr>ra_ttl = TTL, ra_attr = a\<rparr>)"

definition fuse_init :: "('v, nat) fuse_op" where
  "fuse_init = ret (128 * 1024)"

definition fuse_lookup :: "'v VfsOps \<Rightarrow> u64 \<Rightarrow> bytes \<Rightarrow> ('v, ReplyEntry) fuse_op" where
  "fuse_lookup V parent os_name =
     (let name = to_string_lossy os_name in
      bind (on_client (vo_lookup V parent name)) (\<lambda>attr. entry_reply attr))"

definition fuse_getattr :: "'v VfsOps \<Rightarrow> u64 \<Rightarrow> ('v, ReplyAttr) fuse_op" where
  "fuse_getattr V inode = bind (on_client (vo_getattr V inode)) (\<lambda>attr. attr_reply attr)"

definition setattr_request :: "SetAttr \<Rightarrow> SetAttrRequest" where
  "setattr_request set_attr =
     \<lparr>sa_mode = ss_mode set_attr, sa_uid = ss_uid set_attr, sa_gid = ss_gid set_attr, sa_size = ss_size set_attr,
      sa_atime = map_option word_of_int (ss_atime set_attr), sa_mtime = map_option word_of_int (ss_mtime set_attr)\<rparr>"

definition fuse_setattr :: "'v VfsOps \<Rightarrow> u64 \<Rightarrow> SetAttr \<Rightarrow> ('v, ReplyAttr) fuse_op" where
  "fuse_setattr V inode set_attr =
     bind (on_client (vo_setattr V inode (setattr_request set_attr))) (\<lambda>attr. attr_reply attr)"

definition fuse_mkdir :: "'v VfsOps \<Rightarrow> FuseRequest \<Rightarrow> u64 \<Rightarrow> bytes \<Rightarrow> u32 \<Rightarrow> u32 \<Rightarrow> ('v, ReplyEntry) fuse_op" where
  "fuse_mkdir V req parent os_name mode umask =
     (let name = to_string_lossy os_name;
          effective_mode = mode AND NOT umask AND 0xFFF in
      bind (on_client (vo_mkdir V parent name effective_mode (fq_uid req) (fq_gid req))) (\<lambda>attr. entry_reply attr))"

definition fuse_create ::
  "'v VfsOps \<Rightarrow> FuseRequest \<Rightarrow> u64 \<Rightarrow> bytes \<Rightarrow> u32 \<Rightarrow> u32 \<Rightarrow> ('v, ReplyCreated) fuse_op" where
  "fuse_create V req parent os_name mode flags =
     (let name = to_string_lossy os_name;
          effective_mode = mode AND 0xFFF in
      bind (on_client (vo_create_and_open V parent name effective_mode (fq_uid req) (fq_gid req) flags)) (\<lambda>(attr, fh).
      bind (to_fuse3_attr attr) (\<lambda>a.
      ret \<lparr>rc_ttl = TTL, rc_attr = a, rc_generation = 0, rc_fh = fh, rc_flags = 0\<rparr>)))"

definition fuse_mknod :: "'v VfsOps \<Rightarrow> FuseRequest \<Rightarrow> u64 \<Rightarrow> bytes \<Rightarrow> u32 \<Rightarrow> ('v, ReplyEntry) fuse_op" where
  "fuse_mknod V req parent os_name mode =
     (let file_type = mode AND S_IFMT in
      if file_type \<noteq> S_IFREG \<and> file_type \<noteq> 0 then throw EOPNOTSUPP
      else
        let name = to_string_lossy os_name;
            effective_mode = mode AND 0xFFF in
        bind (on_client (vo_create V parent name effective_mode (fq_uid req) (fq_gid req))) (\<lambda>attr. entry_reply attr))"

definition fuse_unlink :: "'v VfsOps \<Rightarrow> u64 \<Rightarrow> bytes \<Rightarrow> ('v, unit) fuse_op" where
  "fuse_unlink V parent os_name = (let name = to_string_lossy os_name in on_client (vo_unlink V parent name))"

definition fuse_rmdir :: "'v VfsOps \<Rightarrow> u64 \<Rightarrow> bytes \<Rightarrow> ('v, unit) fuse_op" where
  "fuse_rmdir V parent os_name = (let name = to_string_lossy os_name in on_client (vo_rmdir V parent name))"

definition fuse_rename :: "'v VfsOps \<Rightarrow> u64 \<Rightarrow> bytes \<Rightarrow> u64 \<Rightarrow> bytes \<Rightarrow> ('v, unit) fuse_op" where
  "fuse_rename V parent os_name new_parent os_new_name =
     (let name = to_string_lossy os_name;
          new_name = to_string_lossy os_new_name in
      on_client (vo_rename V parent name new_parent new_name))"

definition fuse_open :: "'v VfsOps \<Rightarrow> u64 \<Rightarrow> u32 \<Rightarrow> ('v, ReplyOpen) fuse_op" where
  "fuse_open V inode flags =
     bind (on_client (vo_open V inode flags)) (\<lambda>fh. ret \<lparr>ro_fh = fh, ro_flags = 0\<rparr>)"

definition fuse_read :: "'v VfsOps \<Rightarrow> u64 \<Rightarrow> u64 \<Rightarrow> u32 \<Rightarrow> ('v, bytes) fuse_op" where
  "fuse_read V inode offset sz = on_client (vo_read V inode offset sz)"

definition fuse_write :: "'v VfsOps \<Rightarrow> u64 \<Rightarrow> u64 \<Rightarrow> bytes \<Rightarrow> u32 \<Rightarrow> ('v, u32) fuse_op" where
  "fuse_write V inode offset buf flags = on_client (vo_write V inode offset buf flags)"

text \<open>
  \<^verbatim>\<open>release\<close> answers at once and leaves the call to a background task; \<open>run_spawned\<close> is the run of the
  oldest task of an inode, whose outcome is only logged.
\<close>

definition fuse_release :: "u64 \<Rightarrow> ('v, unit) fuse_op" where
  "fuse_release inode = modify (\<lambda>s. s\<lparr>fu_spawned := fu_spawned s @ [inode]\<rparr>)"

definition run_spawned :: "'v VfsOps \<Rightarrow> u64 \<Rightarrow> 'v fuse \<Rightarrow> 'v fuse" where
  "run_spawned V inode s =
     (if inode \<in> set (fu_spawned s)
      then s\<lparr>fu_client := snd (vo_release V inode (fu_client s)), fu_spawned := remove1 inode (fu_spawned s)\<rparr>
      else s)"

definition fuse_flush :: "'v VfsOps \<Rightarrow> u64 \<Rightarrow> ('v, unit) fuse_op" where
  "fuse_flush V inode = on_client (vo_flush V inode)"

definition fuse_fsync :: "'v VfsOps \<Rightarrow> u64 \<Rightarrow> bool \<Rightarrow> ('v, unit) fuse_op" where
  "fuse_fsync V inode datasync = on_client (vo_fsync V inode datasync)"

definition fuse_readdir :: "u64 \<Rightarrow> ('v, unit) fuse_op" where
  "fuse_readdir parent = throw ENOSYS"

definition fuse_opendir :: "u64 \<Rightarrow> ('v, ReplyOpen) fuse_op" where
  "fuse_opendir inode = ret \<lparr>ro_fh = 0, ro_flags = 0\<rparr>"

definition fuse_releasedir :: "u64 \<Rightarrow> ('v, unit) fuse_op" where
  "fuse_releasedir inode = ret ()"

definition plus_entry :: "nat \<Rightarrow> DirEntry \<Rightarrow> DirectoryEntryPlus" where
  "plus_entry i entry =
     (let kind = file_kind (de_kind entry) in
      \<lparr>dp_inode = de_inode entry, dp_generation = 0, dp_kind = kind, dp_name = de_name entry, dp_offset = int (i + 1),
       dp_attr = \<lparr>ff_ino = de_inode entry, ff_size = 0, ff_blocks = 0, ff_atime = 0, ff_mtime = 0, ff_ctime = 0,
         ff_kind = kind, ff_perm = 0x1ED, ff_nlink = 1, ff_uid = 0, ff_gid = 0, ff_rdev = 0, ff_blksize = 512\<rparr>,
       dp_entry_ttl = TTL, dp_attr_ttl = TTL\<rparr>)"

definition fuse_readdirplus :: "'v VfsOps \<Rightarrow> u64 \<Rightarrow> u64 \<Rightarrow> ('v, DirectoryEntryPlus list) fuse_op" where
  "fuse_readdirplus V parent offset =
     bind (on_client (vo_readdir V parent)) (\<lambda>entries.
     ret (map (\<lambda>(i, entry). plus_entry i entry) (drop (unat offset) (enumerate 0 entries))))"

definition fuse_access :: "'v VfsOps \<Rightarrow> u64 \<Rightarrow> u32 \<Rightarrow> ('v, unit) fuse_op" where
  "fuse_access V inode access_mask = bind (on_client (vo_getattr V inode)) (\<lambda>_. ret ())"

definition fuse_statfs :: "'v VfsOps \<Rightarrow> u64 \<Rightarrow> ('v, ReplyStatFs) fuse_op" where
  "fuse_statfs V inode =
     bind (on_client (vo_statfs V inode)) (\<lambda>st.
     ret \<lparr>rs_blocks = sf_blocks st, rs_bfree = sf_bfree st, rs_bavail = sf_bavail st, rs_files = sf_files st,
          rs_ffree = sf_ffree st, rs_bsize = sf_bsize st, rs_namelen = sf_namelen st, rs_frsize = sf_bsize st\<rparr>)"

definition fuse_fallocate :: "'v VfsOps \<Rightarrow> u64 \<Rightarrow> u64 \<Rightarrow> u64 \<Rightarrow> u32 \<Rightarrow> ('v, unit) fuse_op" where
  "fuse_fallocate V inode offset len mode =
     (let keep_size = mode AND 1 \<noteq> 0;
          punch_hole = mode AND 2 \<noteq> 0;
          unsupported = mode AND NOT (1 OR 2) in
      if unsupported \<noteq> 0 then throw EOPNOTSUPP
      else if punch_hole \<or> keep_size then ret ()
      else
        let new_end = offset + len in
        bind (on_client (vo_getattr V inode)) (\<lambda>attr.
        if new_end > fa_size attr then
          let req = \<lparr>sa_mode = None, sa_uid = None, sa_gid = None, sa_size = Some new_end, sa_atime = None, sa_mtime = None\<rparr> in
          bind (on_client (vo_setattr V inode req)) (\<lambda>_. ret ())
        else ret ()))"

definition fuse_link :: "'v VfsOps \<Rightarrow> u64 \<Rightarrow> u64 \<Rightarrow> bytes \<Rightarrow> ('v, ReplyEntry) fuse_op" where
  "fuse_link V inode new_parent os_new_name =
     (let new_name = to_string_lossy os_new_name in
      bind (on_client (vo_link V new_parent new_name inode)) (\<lambda>attr. entry_reply attr))"

definition fuse_symlink :: "'v VfsOps \<Rightarrow> FuseRequest \<Rightarrow> u64 \<Rightarrow> bytes \<Rightarrow> bytes \<Rightarrow> ('v, ReplyEntry) fuse_op" where
  "fuse_symlink V req parent os_name os_link =
     (let name = to_string_lossy os_name;
          link = to_string_lossy os_link in
      bind (on_client (vo_symlink V parent name link (fq_uid req) (fq_gid req))) (\<lambda>attr. entry_reply attr))"

definition fuse_readlink :: "'v VfsOps \<Rightarrow> u64 \<Rightarrow> ('v, bytes) fuse_op" where
  "fuse_readlink V inode = on_client (vo_readlink V inode)"

fun fs_error_to_libc_errno :: "FsError \<Rightarrow> int" where
  "fs_error_to_libc_errno NotImplemented = EOPNOTSUPP"
| "fs_error_to_libc_errno NotFound = 2"
| "fs_error_to_libc_errno AlreadyExists = 17"
| "fs_error_to_libc_errno NotADirectory = 20"
| "fs_error_to_libc_errno IsADirectory = 21"
| "fs_error_to_libc_errno DirectoryNotEmpty = 39"
| "fs_error_to_libc_errno NameTooLong = 36"
| "fs_error_to_libc_errno PermissionDenied = 1"
| "fs_error_to_libc_errno (InvalidInput _) = 22"
| "fs_error_to_libc_errno (Io _) = 5"
| "fs_error_to_libc_errno (Other _) = 5"
| "fs_error_to_libc_errno TransactionConflict = 11"

section \<open>Names\<close>

lemma utf8_check_shift: "utf8_check i bs = None \<longleftrightarrow> utf8_check j bs = None"
proof (induction i bs arbitrary: j rule: utf8_check.induct)
  case (2 i b0 bs)
  show ?case
  proof (cases "utf8_head_error (b0 # bs)")
    case None
    then show ?thesis
    proof (cases "utf8_width b0")
      case (Some w)
      with None show ?thesis using "2.IH" [OF None Some, of "j + w"] by (simp del: utf8_head_error.simps)
    qed (simp del: utf8_head_error.simps)
  qed (simp del: utf8_head_error.simps)
qed simp

lemma utf8_tail_extend:
  "utf8_tail n k bs = None \<Longrightarrow> n \<le> length bs \<and> utf8_tail n k (take n bs @ r) = None"
  by (induction n k bs rule: utf8_tail.induct) (auto split: if_splits)

text \<open>A well-formed first sequence stays one, whatever follows it.\<close>

lemma utf8_head_extend:
  assumes "utf8_head_error (b0 # bs) = None" and "utf8_width b0 = Some w"
  shows "0 < w \<and> w - 1 \<le> length bs \<and> utf8_head_error (b0 # take (w - 1) bs @ r) = None"
proof (cases "w = 1")
  case True
  then show ?thesis using assms by simp
next
  case False
  have "w \<noteq> 0" using assms(2) by (auto simp: utf8_width_def split: if_splits)
  with False obtain k where w: "w = Suc (Suc k)" by (metis One_nat_def not0_implies_Suc)
  with False assms obtain b1 cs where bs: "bs = b1 # cs" "utf8_second_ok b0 b1" "utf8_tail k 2 cs = None"
    by (cases bs) (auto split: if_splits)
  from utf8_tail_extend [OF bs(3), of r] show ?thesis using assms(2) bs w by simp
qed

lemma utf8_valid_Cons:
  assumes "utf8_head_error (b0 # bs) = None" and "utf8_width b0 = Some w"
  shows "utf8_valid (b0 # bs) \<longleftrightarrow> utf8_valid (drop (w - 1) bs)"
  using assms utf8_check_shift [of w "drop (w - 1) bs" 0] by (simp add: utf8_valid_def)

lemma head_ok_width: "utf8_head_error (b0 # bs) = None \<Longrightarrow> \<exists>w. utf8_width b0 = Some w"
  by (simp split: option.splits)

lemma utf8_valid_replacement: "utf8_valid ([0xEF, 0xBF, 0xBD] @ r) \<longleftrightarrow> utf8_valid r"
  using utf8_valid_Cons [of "0xEF" "0xBF # 0xBD # r" 3]
  by (simp add: utf8_width_def in_rng_def utf8_second_ok_def)

lemma utf8_valid_Nil [simp]: "utf8_valid []"
  by (simp add: utf8_valid_def)

lemma to_string_lossy_valid: "utf8_valid (to_string_lossy bs)"
proof (induction bs rule: to_string_lossy.induct)
  case (2 b0 bs)
  show ?case
  proof (cases "utf8_head_error (b0 # bs)")
    case None
    then obtain w where w: "utf8_width b0 = Some w" using head_ok_width by blast
    let ?r = "to_string_lossy (drop (w - 1) bs)"
    note h = utf8_head_extend [OF None w, of ?r]
    have "take w (b0 # bs) = b0 # take (w - 1) bs" using h by (cases w) auto
    moreover have "drop (w - 1) (take (w - 1) bs @ ?r) = ?r" using h by simp
    ultimately show ?thesis using utf8_valid_Cons [of b0 "take (w - 1) bs @ ?r" w] h None w "2.IH" by simp
  next
    case (Some e)
    then show ?thesis using "2.IH" utf8_valid_replacement [of "[]"] utf8_valid_replacement by (cases e) simp_all
  qed
qed simp

lemma to_string_lossy_id: "utf8_valid bs \<Longrightarrow> to_string_lossy bs = bs"
proof (induction bs rule: to_string_lossy.induct)
  case (2 b0 bs)
  have n: "utf8_head_error (b0 # bs) = None" using "2.prems" by (auto simp: utf8_valid_def split: option.splits)
  then obtain w where w: "utf8_width b0 = Some w" using head_ok_width by blast
  have "to_string_lossy (drop (w - 1) bs) = drop (w - 1) bs"
    using "2.IH" n w "2.prems" utf8_valid_Cons [OF n w] by blast
  moreover have "take w (b0 # bs) = b0 # take (w - 1) bs" using utf8_head_extend [OF n w] by (cases w) auto
  ultimately show ?case using n w by simp
qed simp



section \<open>Listing directories\<close>

lemma map_enumerate_snd: "map (\<lambda>x. g (snd x)) (enumerate n xs) = map g xs"
  using map_snd_enumerate [of n xs] by (simp flip: list.map_comp [unfolded comp_def])

text \<open>
  C24. Directory listings can be read in pages: while a directory does not change, resuming at the
  offset that came with an entry continues right after it, so cutting a listing anywhere and resuming
  there gives every entry once, in order.
\<close>

theorem readdirplus_resumes:
  assumes "vo_readdir V p (fu_client s) = (Ok es, v)" and "vo_readdir V p (fu_client t) = (Ok es, u)"
    and "unat off + k < length es" and "length es < 2 ^ 63"
  shows "\<exists>ps qs s' t'. fuse_readdirplus V p off s = (Ok ps, s') \<and>
    fuse_readdirplus V p (word_of_int (dp_offset (ps ! k))) t = (Ok qs, t') \<and>
    length ps = length es - unat off \<and> take (Suc k) ps @ qs = ps \<and>
    map dp_name ps = map de_name (drop (unat off) es) \<and> map dp_inode ps = map de_inode (drop (unat off) es)"
proof -
  define page where "page j = map (\<lambda>(i, entry). plus_entry i entry) (drop j (enumerate 0 es))" for j
  have run: "fuse_readdirplus V p off s = (Ok (page (unat off)), s\<lparr>fu_client := v\<rparr>)"
    "fuse_readdirplus V p o' t = (Ok (page (unat o')), t\<lparr>fu_client := u\<rparr>)" for off o'
    using assms(1,2) by (simp_all add: fuse_readdirplus_def bind_def on_client_def ret_def page_def)
  have "dp_offset (page (unat off) ! k) = int (unat off + k + 1)"
    using assms(3) by (simp add: page_def nth_enumerate_eq plus_entry_def Let_def)
  moreover have "unat (word_of_int (int (unat off + k + 1)) :: u64) = unat off + Suc k"
  proof -
    have "unat (of_nat m :: u64) = m" if "m < 2 ^ 63" for m
      using that by (simp add: unat_of_nat take_bit_nat_eq_self)
    from this [of "unat off + k + 1"] show ?thesis
      using assms(3,4) by (simp only: of_int_of_nat_eq)
  qed
  ultimately have o: "unat (word_of_int (dp_offset (page (unat off) ! k)) :: u64) = unat off + Suc k" by simp
  have "take (Suc k) (page (unat off)) @ page (unat off + Suc k) = page (unat off)"
  proof -
    have "page (j + m) = drop m (page j)" for j m by (simp add: page_def drop_map add.commute)
    from this [of "unat off" "Suc k"] show ?thesis by simp
  qed
  moreover have "map dp_name (page j) = map de_name (drop j es)" "map dp_inode (page j) = map de_inode (drop j es)"
    "length (page j) = length es - j" for j
    by (auto simp: page_def plus_entry_def Let_def comp_def case_prod_beta map_enumerate_snd simp flip: drop_map)
  ultimately show ?thesis using run o by simp
qed

text \<open>The embedded client on the sample server, behind the FUSE front end.\<close>

abbreviation sample_fuse :: "((mem_db, mem_txn, lru_list) server \<times> rawdisk) vfs fuse" where
  "sample_fuse \<equiv> \<lparr>fu_client = embedded_state mem_rocks list_lru (sample_server, sample_disk 64) (\<lambda>_. 200), fu_spawned = []\<rparr>"

lemma embedded_meta:
  "vo_readdir EmbeddedClient i (embedded_state R L (m, d) clock) =
     (fst (readdir R L i m), embedded_state R L (snd (readdir R L i m), d) clock)"
  "vo_getattr EmbeddedClient i (embedded_state R L (m, d) clock) =
     (fst (getattr R L i m), embedded_state R L (snd (getattr R L i m), d) clock)"
  "setattr R L i q m = (Ok \<lparr>sr_attr = attr, sr_needs_truncate = None\<rparr>, m') \<Longrightarrow>
     vo_setattr EmbeddedClient i q (embedded_state R L (m, d) clock) = (Ok attr, embedded_state R L (m', d) clock)"
  by (auto simp: EmbeddedClient_def VfsCore_def vfs_setattr_def via_meta_def call_def beside_data_def MetadataServer_def
      on_meta_def embedded_new_def vfs_new_def bind_def ret_def split: prod.splits)

theorem readdirplus_resumes_witness:
  "\<exists>ps qs s' t'. fuse_readdirplus EmbeddedClient 1 0 sample_fuse = (Ok ps, s') \<and>
     fuse_readdirplus EmbeddedClient 1 (word_of_int (dp_offset (ps ! 0))) sample_fuse = (Ok qs, t') \<and>
     take 1 ps @ qs = ps"
proof -
  have "map_outcome length (fst (readdir mem_rocks list_lru 1 sample_server)) = Ok 2" by code_simp
  then obtain es where es: "fst (readdir mem_rocks list_lru 1 sample_server) = Ok es" "length es = 2"
    by (cases "fst (readdir mem_rocks list_lru 1 sample_server)") auto
  then have run: "vo_readdir EmbeddedClient 1 (fu_client sample_fuse) =
      (Ok es, embedded_state mem_rocks list_lru (snd (readdir mem_rocks list_lru 1 sample_server), sample_disk 64) (\<lambda>_. 200))"
    by (simp add: embedded_meta)
  from readdirplus_resumes [OF run run, of 0 0] es(2) show ?thesis by auto
qed

section \<open>Times\<close>

lemma negative_seconds: "- (2 ^ 63) \<le> t \<Longrightarrow> t < 0 \<Longrightarrow> \<not> unat (word_of_int t :: u64) < 2 ^ 63"
proof -
  assume t: "- (2 ^ 63) \<le> t" "t < 0"
  have "t mod 2 ^ 64 = (t + 2 ^ 64) mod 2 ^ 64" by simp
  also have "\<dots> = t + 2 ^ 64" using t by (intro mod_pos_pos_trivial) auto
  finally have "uint (word_of_int t :: u64) = t + 2 ^ 64" by (simp add: unsigned_of_int take_bit_eq_mod)
  moreover have "(2 :: int) ^ 64 = 2 * 2 ^ 63" by simp
  ultimately have "int (2 ^ 63) \<le> int (unat (word_of_int t :: u64))" using t unfolding uint_nat by (simp only: of_nat_power of_nat_numeral)
  then show "\<not> unat (word_of_int t :: u64) < 2 ^ 63" by (simp only: of_nat_le_iff not_less)
qed

lemma late_mtime_panics: "\<not> unat (fa_mtime attr) < 2 ^ 63 \<Longrightarrow> \<exists>m. attr_reply attr s = (Panic m, s)"
  by (simp add: attr_reply_def to_fuse3_attr_def Let_def bind_def lift_def secs_to_systime_def)


definition time_request :: "int \<Rightarrow> SetAttr" where
  "time_request t = \<lparr>ss_mode = None, ss_uid = None, ss_gid = None, ss_size = None, ss_atime = None, ss_mtime = Some t\<rparr>"


section \<open>Error numbers\<close>

text \<open>
  Errors at the FUSE boundary: the two translation tables agree; behind the RPC layer the kernel
  gets the same error number as from the embedded client, except that "not a directory" and "is a
  directory" become "invalid argument".
\<close>

theorem errno_over_rpc:
  "fs_error_to_libc_errno e = fs_error_to_errno e \<and>
   fs_error_to_errno (via_rpc e) = (if e \<in> {NotADirectory, IsADirectory} then 22 else fs_error_to_errno e)"
  by (cases e) (simp_all add: via_rpc_def)

end
