(* ===== verification/Demo.thy ===== *)
theory Demo
  imports Server_Props Rocks_Open Fsck Fuse
begin

text \<open>
  The stand-alone program of \<^verbatim>\<open>src/demo/src/main.rs\<close>: the resolution of paths, the interactive shell
  over any \<^verbatim>\<open>VfsOps\<close> client and the construction of the embedded client. Output is a list of chunks; input is what successive calls of \<^verbatim>\<open>read_line\<close> return (no more items: end of file).

  The contract \<open>reading_client\<close> says what the shell's reading commands need of a client: reads answer
  from the names and keep what can be seen. The embedded client over any RocksDB and LRU cache that
  keep their contracts satisfies it. The modes of the program are in the theory \<open>Programs\<close>.
\<close>

section \<open>Text\<close>

definition lit :: "string \<Rightarrow> str" where
  "lit s = map of_char s"

definition show_int :: "'a::len word \<Rightarrow> str" where
  "show_int w = lit (show_nat (unat w))"

text \<open>\<^verbatim>\<open>{:#o}\<close>.\<close>

fun octal_digits :: "nat \<Rightarrow> nat \<Rightarrow> string" where
  "octal_digits 0 n = ''''"
| "octal_digits (Suc fuel) n =
     (if n < 8 then [char_of (48 + n)] else octal_digits fuel (n div 8) @ [char_of (48 + n mod 8)])"

definition show_octal :: "u32 \<Rightarrow> str" where
  "show_octal w = lit (''0o'' @ octal_digits 11 (unat w))"

text \<open>\<^verbatim>\<open>str::trim\<close>: the characters with the Unicode property White_Space, in UTF-8.\<close>

definition white_space :: "str list" where
  "white_space =
     [[0x09], [0x0A], [0x0B], [0x0C], [0x0D], [0x20], [0xC2, 0x85], [0xC2, 0xA0], [0xE1, 0x9A, 0x80]] @
     map (\<lambda>k. [0xE2, 0x80, k]) [0x80, 0x81, 0x82, 0x83, 0x84, 0x85, 0x86, 0x87, 0x88, 0x89, 0x8A, 0xA8, 0xA9, 0xAF] @
     [[0xE2, 0x81, 0x9F], [0xE3, 0x80, 0x80]]"

function strip_chars :: "str list \<Rightarrow> str \<Rightarrow> str" where
  "strip_chars ws s =
     (case find (\<lambda>w. w \<noteq> [] \<and> prefix w s) ws of
        None \<Rightarrow> s
      | Some w \<Rightarrow> strip_chars ws (drop (length w) s))"
  by pat_completeness auto
termination
  by (relation "measure (length \<circ> snd)") (auto simp: find_Some_iff prefix_def)

declare strip_chars.simps [simp del]

definition trim :: "str \<Rightarrow> str" where
  "trim s = rev (strip_chars (map rev white_space) (rev (strip_chars white_space s)))"

text \<open>\<^verbatim>\<open>split(c)\<close>, \<^verbatim>\<open>splitn(n, c)\<close>, \<^verbatim>\<open>strip_prefix(c)\<close>, \<^verbatim>\<open>join(c)\<close> and \<^verbatim>\<open>trim_end_matches(c)\<close> for an ASCII character.\<close>

fun split_at :: "u8 \<Rightarrow> str \<Rightarrow> str list" where
  "split_at c [] = [[]]"
| "split_at c (b # bs) =
     (if b = c then [] # split_at c bs
      else case split_at c bs of [] \<Rightarrow> [[b]] | p # ps \<Rightarrow> (b # p) # ps)"

fun splitn :: "nat \<Rightarrow> u8 \<Rightarrow> str \<Rightarrow> str list" where
  "splitn 0 c s = []"
| "splitn (Suc 0) c s = [s]"
| "splitn (Suc (Suc n)) c s =
     (if c \<in> set s then takeWhile (\<lambda>b. b \<noteq> c) s # splitn (Suc n) c (tl (dropWhile (\<lambda>b. b \<noteq> c) s)) else [s])"

definition strip_prefix :: "u8 \<Rightarrow> str \<Rightarrow> str option" where
  "strip_prefix c s = (case s of b # bs \<Rightarrow> (if b = c then Some bs else None) | [] \<Rightarrow> None)"

fun join :: "u8 \<Rightarrow> str list \<Rightarrow> str" where
  "join c [] = []"
| "join c [s] = s"
| "join c (s # ss) = s @ [c] @ join c ss"

definition trim_end_matches :: "u8 \<Rightarrow> str \<Rightarrow> str" where
  "trim_end_matches c s = rev (dropWhile (\<lambda>b. b = c) (rev s))"

section \<open>Paths\<close>

abbreviation slash :: u8 where "slash \<equiv> 0x2F"
abbreviation quote :: str where "quote \<equiv> [0x27]"

text \<open>The components of a path; empty ones are dropped.\<close>

definition components :: "str \<Rightarrow> str list" where
  "components path =
     (let path = (case strip_prefix slash path of Some p \<Rightarrow> p | None \<Rightarrow> path)
      in filter (\<lambda>s. s \<noteq> []) (split_at slash path))"

text \<open>A call of the client whose error is turned into a message; a panic goes on.\<close>

definition or_message :: "(FsError \<Rightarrow> str) \<Rightarrow> ('v, 'a) fs_op \<Rightarrow> ('v, str, 'a) op" where
  "or_message msg f v =
     (case f v of (Ok a, v') \<Rightarrow> (Ok a, v') | (Err e, v') \<Rightarrow> (Err (msg e), v') | (Panic q, v') \<Rightarrow> (Panic q, v'))"

fun resolve_loop :: "'v VfsOps \<Rightarrow> str list \<Rightarrow> str list \<Rightarrow> inode \<Rightarrow> ('v, str, inode \<times> str \<times> inode) op" where
  "resolve_loop V seen [] current = panic ''internal error: entered unreachable code''"
| "resolve_loop V seen (c # rest) current =
     (let at = lit '' not found in path '' @ quote @ [slash] @ join slash (seen @ [c]) @ quote in
      if rest = [] then
        bind (or_message (\<lambda>_. quote @ c @ quote @ at) (vo_lookup V current c)) (\<lambda>attr.
        ret (current, c, fa_inode attr))
      else
        bind (or_message (\<lambda>_. lit ''directory '' @ quote @ c @ quote @ at) (vo_lookup V current c)) (\<lambda>attr.
        resolve_loop V (seen @ [c]) rest (fa_inode attr)))"

definition shell_resolve_path :: "'v VfsOps \<Rightarrow> str \<Rightarrow> ('v, str, inode \<times> str \<times> inode) op" where
  "shell_resolve_path V path0 =
     (let path = trim path0 in
      if path = [slash] then ret (ROOT_INODE, [slash], ROOT_INODE)
      else if components path = [] then ret (ROOT_INODE, [slash], ROOT_INODE)
      else resolve_loop V [] (components path) ROOT_INODE)"

fun parent_loop :: "'v VfsOps \<Rightarrow> str list \<Rightarrow> inode \<Rightarrow> ('v, str, inode) op" where
  "parent_loop V [] current = ret current"
| "parent_loop V (c # rest) current =
     bind (or_message (\<lambda>_. lit ''directory '' @ quote @ c @ quote @ lit '' not found'') (vo_lookup V current c)) (\<lambda>attr.
     parent_loop V rest (fa_inode attr))"

definition resolve_parent :: "'v VfsOps \<Rightarrow> str \<Rightarrow> ('v, str, inode \<times> str) op" where
  "resolve_parent V path0 =
     (let comps = components (trim path0) in
      if comps = [] then throw (lit ''cannot resolve parent of root'')
      else if length comps = 1 then ret (ROOT_INODE, last comps)
      else bind (parent_loop V (butlast comps) ROOT_INODE) (\<lambda>current. ret (current, last comps)))"

section \<open>Commands\<close>

text \<open>
  A command returns the lines it prints, or the one line it writes to the error stream. The error of
  the client or of the path resolution is printed after \<^verbatim>\<open>error:\<close>.
\<close>

definition error_line :: "FsError \<Rightarrow> str" where
  "error_line e = lit ''  error: '' @ lit (error_text e)"

definition relabel :: "str \<Rightarrow> ('v, str, 'a) op \<Rightarrow> ('v, str, 'a) op" where
  "relabel label f v =
     (case f v of (Ok a, v') \<Rightarrow> (Ok a, v') | (Err m, v') \<Rightarrow> (Err (label @ m), v') | (Panic q, v') \<Rightarrow> (Panic q, v'))"

abbreviation resolved :: "'v VfsOps \<Rightarrow> str \<Rightarrow> ('v, str, inode \<times> str \<times> inode) op" where
  "resolved V path \<equiv> relabel (lit ''  error: '') (shell_resolve_path V path)"

abbreviation parent_of :: "'v VfsOps \<Rightarrow> str \<Rightarrow> ('v, str, inode \<times> str) op" where
  "parent_of V path \<equiv> relabel (lit ''  error: '') (resolve_parent V path)"

text \<open>\<^verbatim>\<open>parts.get(i)\<close>, with the usage line when it is missing.\<close>

definition part :: "str list \<Rightarrow> nat \<Rightarrow> str option" where
  "part parts i = (if i < length parts then Some (parts ! i) else None)"

definition cmd_ls :: "'v VfsOps \<Rightarrow> str list \<Rightarrow> ('v, str, str list) op" where
  "cmd_ls V parts =
     (let path = (case part parts 1 of Some p \<Rightarrow> p | None \<Rightarrow> [slash]) in
      bind (resolved V path) (\<lambda>(_, _, inode).
      bind (or_message error_line (vo_readdir V inode)) (\<lambda>entries.
      ret ((if entries = [] then [lit ''  (empty directory)''] else []) @
        map (\<lambda>e. let kind = (if and (de_kind e) 0x4000 \<noteq> 0 then lit ''d'' else lit ''-'')
                 in lit ''  '' @ kind @ lit '' '' @ de_name e @ lit '' (inode='' @ show_int (de_inode e) @ lit '')'')
          entries))))"

definition cmd_mkdir :: "'v VfsOps \<Rightarrow> str list \<Rightarrow> ('v, str, str list) op" where
  "cmd_mkdir V parts =
     bind (ok_or (lit ''  usage: mkdir <path>'') (part parts 1)) (\<lambda>path.
     bind (parent_of V path) (\<lambda>(parent, name).
     bind (or_message error_line (vo_mkdir V parent name 0x1ED 0 0)) (\<lambda>attr.
     ret [lit ''  created directory inode='' @ show_int (fa_inode attr)])))"

definition cmd_touch :: "'v VfsOps \<Rightarrow> str list \<Rightarrow> ('v, str, str list) op" where
  "cmd_touch V parts =
     bind (ok_or (lit ''  usage: touch <path>'') (part parts 1)) (\<lambda>path.
     bind (parent_of V path) (\<lambda>(parent, name).
     bind (or_message error_line (vo_create V parent name 0x1A4 0 0)) (\<lambda>attr.
     ret [lit ''  created file inode='' @ show_int (fa_inode attr)])))"

definition cmd_write :: "'v VfsOps \<Rightarrow> str list \<Rightarrow> ('v, str, str list) op" where
  "cmd_write V parts =
     bind (ok_or (lit ''  usage: write <path> <content>'') (part parts 1)) (\<lambda>path.
     bind (ok_or (lit ''  usage: write <path> <content>'') (part parts 2)) (\<lambda>content.
     bind (resolved V path) (\<lambda>(_, _, inode).
     bind (or_message error_line (vo_write V inode 0 content 0)) (\<lambda>n.
     ret [lit ''  wrote '' @ show_int n @ lit '' bytes'']))))"

definition cmd_cat :: "'v VfsOps \<Rightarrow> str list \<Rightarrow> ('v, str, str list) op" where
  "cmd_cat V parts =
     bind (ok_or (lit ''  usage: cat <path>'') (part parts 1)) (\<lambda>path.
     bind (resolved V path) (\<lambda>(_, _, inode).
     bind (or_message error_line (vo_read V inode 0 (1024 * 1024))) (\<lambda>data.
     let trimmed = trim_end_matches 0 (to_string_lossy data) in
     ret [if trimmed = [] then lit ''  (empty file)'' else trimmed])))"

definition cmd_rm :: "'v VfsOps \<Rightarrow> str list \<Rightarrow> ('v, str, str list) op" where
  "cmd_rm V parts =
     bind (ok_or (lit ''  usage: rm <path>'') (part parts 1)) (\<lambda>path.
     bind (parent_of V path) (\<lambda>(parent, name).
     bind (or_message error_line (vo_unlink V parent name)) (\<lambda>_.
     ret [lit ''  removed''])))"

definition cmd_rmdir :: "'v VfsOps \<Rightarrow> str list \<Rightarrow> ('v, str, str list) op" where
  "cmd_rmdir V parts =
     bind (ok_or (lit ''  usage: rmdir <path>'') (part parts 1)) (\<lambda>path.
     bind (parent_of V path) (\<lambda>(parent, name).
     bind (or_message error_line (vo_rmdir V parent name)) (\<lambda>_.
     ret [lit ''  removed directory''])))"

definition cmd_mv :: "'v VfsOps \<Rightarrow> str list \<Rightarrow> ('v, str, str list) op" where
  "cmd_mv V parts =
     bind (ok_or (lit ''  usage: mv <src> <dst>'') (part parts 1)) (\<lambda>src.
     bind (ok_or (lit ''  usage: mv <src> <dst>'') (part parts 2)) (\<lambda>dst.
     bind (relabel (lit ''  error resolving src: '') (resolve_parent V src)) (\<lambda>(src_parent, src_name).
     bind (relabel (lit ''  error resolving dst: '') (resolve_parent V dst)) (\<lambda>(dst_parent, dst_name).
     bind (or_message error_line (vo_rename V src_parent src_name dst_parent dst_name)) (\<lambda>_.
     ret [lit ''  renamed''])))))"

definition cmd_stat :: "'v VfsOps \<Rightarrow> str list \<Rightarrow> ('v, str, str list) op" where
  "cmd_stat V parts =
     bind (ok_or (lit ''  usage: stat <path>'') (part parts 1)) (\<lambda>path.
     bind (resolved V path) (\<lambda>(_, _, inode).
     bind (or_message error_line (vo_getattr V inode)) (\<lambda>attr.
     let kind = (if and (fa_mode attr) 0x4000 \<noteq> 0 then lit ''directory'' else lit ''file'') in
     ret [lit ''  inode:  '' @ show_int (fa_inode attr),
          lit ''  type:   '' @ kind,
          lit ''  size:   '' @ show_int (fa_size attr) @ lit '' bytes'',
          lit ''  mode:   '' @ show_octal (fa_mode attr),
          lit ''  nlink:  '' @ show_int (fa_nlink attr),
          lit ''  uid:    '' @ show_int (fa_uid attr),
          lit ''  gid:    '' @ show_int (fa_gid attr)])))"

definition cmd_statfs :: "'v VfsOps \<Rightarrow> ('v, str, str list) op" where
  "cmd_statfs V =
     bind (or_message error_line (vo_statfs V ROOT_INODE)) (\<lambda>st.
     ret [lit ''  blocks:  '' @ show_int (sf_blocks st),
          lit ''  bfree:   '' @ show_int (sf_bfree st),
          lit ''  bavail:  '' @ show_int (sf_bavail st),
          lit ''  files:   '' @ show_int (sf_files st),
          lit ''  ffree:   '' @ show_int (sf_ffree st),
          lit ''  bsize:   '' @ show_int (sf_bsize st),
          lit ''  namelen: '' @ show_int (sf_namelen st)])"

definition print_help :: "str list" where
  "print_help =
     [lit ''Available commands:'',
      lit ''  ls [path]              List directory contents (default: /)'',
      lit ''  mkdir <path>           Create a directory'',
      lit ''  touch <path>           Create an empty file'',
      lit ''  write <path> <text>    Write text content to a file'',
      lit ''  cat <path>             Read and display file content'',
      lit ''  rm <path>              Remove a file'',
      lit ''  rmdir <path>           Remove an empty directory'',
      lit ''  mv <src> <dst>         Rename / move a file or directory'',
      lit ''  stat <path>            Show file or directory attributes'',
      lit ''  statfs                 Show filesystem statistics'',
      lit ''  help                   Show this help message'',
      lit ''  exit                   Exit the REPL'']"

definition shell_command :: "'v VfsOps \<Rightarrow> str list \<Rightarrow> ('v, str, str list) op" where
  "shell_command V parts =
     (let cmd = parts ! 0 in
      if cmd = lit ''help'' then ret print_help
      else if cmd = lit ''ls'' then cmd_ls V parts
      else if cmd = lit ''mkdir'' then cmd_mkdir V parts
      else if cmd = lit ''touch'' then cmd_touch V parts
      else if cmd = lit ''write'' then cmd_write V parts
      else if cmd = lit ''cat'' then cmd_cat V parts
      else if cmd = lit ''rm'' then cmd_rm V parts
      else if cmd = lit ''rmdir'' then cmd_rmdir V parts
      else if cmd = lit ''mv'' then cmd_mv V parts
      else if cmd = lit ''stat'' then cmd_stat V parts
      else if cmd = lit ''statfs'' then cmd_statfs V
      else throw (lit ''  unknown command: '' @ quote @ cmd @ quote @ lit ''. Type '' @ quote @ lit ''help'' @ quote @
        lit '' for usage.''))"

section \<open>The loop\<close>

datatype input = Line str | ReadError string

datatype chunk = Stdout str | Stderr str

record 'v shell =
  sh_client :: 'v
  sh_output :: "chunk list"

definition emit :: "chunk list \<Rightarrow> ('v shell, unit, unit) op" where
  "emit cs = modify (\<lambda>s. s\<lparr>sh_output := sh_output s @ cs\<rparr>)"

definition println :: "str \<Rightarrow> chunk" where
  "println l = Stdout (l @ [0x0A])"

definition eprintln :: "str \<Rightarrow> chunk" where
  "eprintln l = Stderr (l @ [0x0A])"

definition run_command :: "'v VfsOps \<Rightarrow> str list \<Rightarrow> ('v shell, unit, unit) op" where
  "run_command V parts s =
     (case shell_command V parts (sh_client s) of
        (Ok ls, v) \<Rightarrow> emit (map println ls) (s\<lparr>sh_client := v\<rparr>)
      | (Err l, v) \<Rightarrow> emit [eprintln l] (s\<lparr>sh_client := v\<rparr>)
      | (Panic q, v) \<Rightarrow> (Panic q, s\<lparr>sh_client := v\<rparr>))"

fun repl_loop :: "'v VfsOps \<Rightarrow> input list \<Rightarrow> ('v shell, unit, unit) op" where
  "repl_loop V [] = emit [Stdout (lit ''rucksfs> '')]"
| "repl_loop V (i # is) =
     bind (emit [Stdout (lit ''rucksfs> '')]) (\<lambda>_.
     case i of
       ReadError e \<Rightarrow> emit [eprintln (lit ''read error: '' @ lit e)]
     | Line l \<Rightarrow>
         if l = [] then ret ()
         else
           let line = trim l in
           if line = [] then repl_loop V is
           else
             let parts = splitn 3 0x20 line;
                 cmd = parts ! 0 in
             if cmd = lit ''exit'' \<or> cmd = lit ''quit'' then emit [println (lit ''Goodbye!'')]
             else bind (run_command V parts) (\<lambda>_. repl_loop V is))"

definition run_repl :: "'v VfsOps \<Rightarrow> input list \<Rightarrow> ('v shell, unit, unit) op" where
  "run_repl V is =
     bind (emit [println (lit ''Type '' @ quote @ lit ''help'' @ quote @ lit '' for available commands, '' @ quote @
       lit ''exit'' @ quote @ lit '' to quit.'' @ [0x0A])]) (\<lambda>_. repl_loop V is)"

section \<open>Modes\<close>

text \<open>
  The operating system as the programs use it, a parameter: creating a directory and its parents,
  opening the database and the data file (its length and bytes), testing for a path, reading \<^verbatim>\<open>HOME\<close>.
  An error is its message.
\<close>

record 'db host =
  ho_create_dir_all :: "str \<Rightarrow> string + unit"
  ho_open_db :: "'db opener"
  ho_open_file :: "str \<Rightarrow> string + nat \<times> (nat \<Rightarrow> u8)"
  ho_exists :: "str \<Rightarrow> bool"
  ho_home :: "str option"

text \<open>\<^verbatim>\<open>Path::join\<close> with a relative path.\<close>

definition path_join :: "str \<Rightarrow> str \<Rightarrow> str" where
  "path_join p q = (if p = [] \<or> last p = slash then p @ q else p @ [slash] @ q)"

text \<open>\<^verbatim>\<open>expect\<close> turns an error into a panic (the model leaves the error's text out of the message).\<close>

definition expect :: "string \<Rightarrow> string + 'a \<Rightarrow> ('e, 'a) outcome" where
  "expect msg r = (case r of Inl e \<Rightarrow> Panic msg | Inr a \<Rightarrow> Ok a)"

definition expect_fs :: "string \<Rightarrow> 'a FsResult \<Rightarrow> ('e, 'a) outcome" where
  "expect_fs msg r = (case r of Ok a \<Rightarrow> Ok a | Err e \<Rightarrow> Panic msg | Panic q \<Rightarrow> Panic q)"

fun then_do :: "('e, 'a) outcome \<Rightarrow> ('a \<Rightarrow> ('e, 'b) outcome) \<Rightarrow> ('e, 'b) outcome" where
  "then_do (Ok a) f = f a"
| "then_do (Err e) f = Err e"
| "then_do (Panic q) f = Panic q"

definition build_client ::
  "('db, 'txn) rocks \<Rightarrow> 'c lru \<Rightarrow> 'db host \<Rightarrow> 'txn \<Rightarrow> (nat \<Rightarrow> io_event) \<Rightarrow> str \<Rightarrow> u64 \<Rightarrow> u32 \<Rightarrow> u32
   \<Rightarrow> (nat \<Rightarrow> u64) \<Rightarrow> (nat \<Rightarrow> u64) \<Rightarrow> (((('db, 'txn, 'c) server \<times> rawdisk) vfs)) FsResult" where
  "build_client R L H idle io data_dir mfs uid gid server_clock client_clock =
     (let db_path = path_join data_dir (lit ''metadata.db'');
          data_path = path_join data_dir (lit ''data.raw'') in
      then_do (expect ''failed to create data directory'' (ho_create_dir_all H data_dir)) (\<lambda>_.
      then_do (expect_fs ''failed to open RocksDB'' (open_rocks_db (ho_open_db H) db_path)) (\<lambda>db.
      case delta_store_new R (stores_new idle db) of (r, kv1) \<Rightarrow>
      then_do r (\<lambda>_.
      then_do (expect_fs ''failed to open RawDisk data store'' (rawdisk_open (ho_open_file H data_path) io mfs)) (\<lambda>disk.
      then_do (server_new R L \<lparr>server_id = lit ''default''\<rparr> uid gid server_clock kv1) (\<lambda>server.
      Ok (embedded_new (beside_data (MetadataServer R L)) (beside_meta (DataServer RawDiskDataStore)) (server, disk) client_clock)))))))"

lemma bind_emit: "bind (emit cs) f s = f () (s\<lparr>sh_output := sh_output s @ cs\<rparr>)"
  by (simp add: bind_def emit_def modify_def)

section \<open>The contract of a client that can be read\<close>

text \<open>
  \<open>seen\<close> is what can be observed of the client's file system, \<open>names\<close> reads the names out of it.
  A reading call never changes it, and a name that is found is one of the names.
\<close>

fun walk :: "(inode \<Rightarrow> str \<Rightarrow> inode option) \<Rightarrow> inode \<Rightarrow> str list \<Rightarrow> inode option" where
  "walk N p [] = Some p"
| "walk N p (c # cs) = (case N p c of None \<Rightarrow> None | Some i \<Rightarrow> walk N i cs)"

lemma walk_snoc: "walk N p (cs @ [c]) = (case walk N p cs of None \<Rightarrow> None | Some q \<Rightarrow> N q c)"
  by (induction cs arbitrary: p) (auto split: option.splits)

locale reading_client =
  fixes V :: "'v VfsOps" and inv :: "'v \<Rightarrow> bool" and seen :: "'v \<Rightarrow> 'x"
    and names :: "'x \<Rightarrow> inode \<Rightarrow> str \<Rightarrow> inode option"
  assumes lookup_law: "inv v \<Longrightarrow> vo_lookup V p n v = (r, v') \<Longrightarrow> inv v' \<and> seen v' = seen v \<and>
      (\<forall>a. r = Ok a \<longrightarrow> names (seen v) p n = Some (fa_inode a)) \<and> (\<forall>q. r \<noteq> Panic q)"
    and readdir_law: "inv v \<Longrightarrow> vo_readdir V i v = (rd, v') \<Longrightarrow> inv v' \<and> seen v' = seen v"
    and getattr_law: "inv v \<Longrightarrow> vo_getattr V i v = (ra, v') \<Longrightarrow> inv v' \<and> seen v' = seen v"
    and statfs_law: "inv v \<Longrightarrow> vo_statfs V i v = (rs, v') \<Longrightarrow> inv v' \<and> seen v' = seen v"
    and read_law: "inv v \<Longrightarrow> vo_read V i off sz v = (rb, v') \<Longrightarrow> inv v' \<and> seen v' = seen v"
begin

definition keeps :: "('v, 'e, 'a) op \<Rightarrow> bool" where
  "keeps f \<longleftrightarrow> (\<forall>v r v'. inv v \<longrightarrow> f v = (r, v') \<longrightarrow> inv v' \<and> seen v' = seen v)"

lemma keepsD: "keeps f \<Longrightarrow> inv v \<Longrightarrow> f v = (r, v') \<Longrightarrow> inv v' \<and> seen v' = seen v"
  unfolding keeps_def by blast

lemma keeps_simple: "keeps (ret a)" "keeps (throw e)" "keeps (panic q)" "keeps (ok_or e x)"
  by (auto simp: keeps_def ret_def throw_def panic_def ok_or_def split: option.splits)

lemma keepsI: "(\<And>v. inv v \<Longrightarrow> inv (snd (f v)) \<and> seen (snd (f v)) = seen v) \<Longrightarrow> keeps f"
  unfolding keeps_def by (metis snd_conv)

lemma keeps_snd: "keeps f \<Longrightarrow> inv v \<Longrightarrow> inv (snd (f v)) \<and> seen (snd (f v)) = seen v"
  unfolding keeps_def by (metis prod.collapse)

lemma keeps_bind:
  assumes "keeps f" and "\<And>a. keeps (g a)"
  shows "keeps (bind f g)"
proof (rule keepsI)
  fix v assume "inv v"
  with assms(1) have "inv (snd (f v)) \<and> seen (snd (f v)) = seen v" by (rule keeps_snd)
  then show "inv (snd (bind f g v)) \<and> seen (snd (bind f g v)) = seen v"
    using keeps_snd [OF assms(2)] by (auto simp: bind_def split: prod.splits outcome.splits)
qed

lemma keeps_messages: "keeps f \<Longrightarrow> keeps (or_message m f)" "keeps f' \<Longrightarrow> keeps (relabel l f')"
proof -
  have "snd (or_message m f v) = snd (f v)" "snd (relabel l f' v) = snd (f' v)" for v
    by (auto simp: or_message_def relabel_def split: prod.splits outcome.splits)
  then show "keeps f \<Longrightarrow> keeps (or_message m f)" "keeps f' \<Longrightarrow> keeps (relabel l f')"
    by (auto intro!: keepsI dest: keeps_snd)
qed

lemma keeps_reads:
  "keeps (vo_lookup V p n)" "keeps (vo_readdir V i)" "keeps (vo_getattr V i)" "keeps (vo_statfs V i)"
  "keeps (vo_read V i off sz)"
  by (simp_all add: keeps_def) (meson lookup_law readdir_law getattr_law statfs_law read_law)+

lemma keeps_case_prod: "(\<And>a b. keeps (f a b)) \<Longrightarrow> keeps (case x of (a, b) \<Rightarrow> f a b)"
  by (simp split: prod.split)

lemmas keeps_rules = keeps_simple keeps_bind keeps_messages keeps_reads keeps_case_prod

lemma keeps_resolve: "keeps (shell_resolve_path V path)"
proof -
  have "keeps (resolve_loop V sn cs p)" for sn cs p
    by (induction cs arbitrary: sn p) (simp_all add: Let_def keeps_rules)
  then show ?thesis by (simp add: shell_resolve_path_def Let_def keeps_rules)
qed

lemma or_message_lookup:
  assumes "inv v" and "or_message m (vo_lookup V p n) v = (r, v')"
  shows "(\<forall>a. r = Ok a \<longrightarrow> names (seen v) p n = Some (fa_inode a)) \<and> (\<forall>q. r \<noteq> Panic q) \<and> inv v' \<and> seen v' = seen v"
  using assms(2) lookup_law [OF assms(1), of p n]
  by (auto simp: or_message_def split: prod.splits outcome.splits)

text \<open>A path that is resolved is a walk along the names; resolving never panics.\<close>

lemma resolve_loop_walks:
  assumes "inv v" and "cs \<noteq> []" and "resolve_loop V sn cs p v = (r, v')"
  shows "(\<forall>q n i. r = Ok (q, n, i) \<longrightarrow> walk (names (seen v)) p (butlast cs) = Some q \<and> n = last cs \<and>
      names (seen v) q n = Some i) \<and> (\<forall>m. r \<noteq> Panic m)"
  using assms
proof (induction cs arbitrary: v sn p)
  case (Cons c cs)
  let ?f = "if cs = [] then or_message (\<lambda>_. quote @ c @ quote @ lit '' not found in path '' @ quote @ [slash] @ join slash (sn @ [c]) @ quote) (vo_lookup V p c)
    else or_message (\<lambda>_. lit ''directory '' @ quote @ c @ quote @ lit '' not found in path '' @ quote @ [slash] @ join slash (sn @ [c]) @ quote) (vo_lookup V p c)"
  obtain r1 v1 where l: "?f v = (r1, v1)" by fastforce
  then have n: "\<And>a. r1 = Ok a \<Longrightarrow> names (seen v) p c = Some (fa_inode a)" "\<And>q. r1 \<noteq> Panic q" "inv v1" "seen v1 = seen v"
    using or_message_lookup [OF Cons.prems(1)] by (auto split: if_splits)
  show ?case
  proof (cases "cs = []")
    case True
    then show ?thesis using Cons.prems(3) l n by (cases r1) (auto simp: bind_def Let_def ret_def)
  next
    case False
    then show ?thesis using Cons.prems(3) l n Cons.IH [OF n(3) False]
      by (cases r1) (auto simp: bind_def Let_def)
  qed
qed simp

lemma resolve_walks:
  assumes "inv v" and "shell_resolve_path V path v = (r, v')"
  shows "(\<forall>q n i. r = Ok (q, n, i) \<longrightarrow> walk (names (seen v)) ROOT_INODE (components (trim path)) = Some i) \<and> (\<forall>m. r \<noteq> Panic m)"
proof (cases "components (trim path) = []")
  case True
  then show ?thesis using assms(2) by (auto simp: shell_resolve_path_def Let_def ret_def split: if_splits)
next
  case False
  let ?cs = "components (trim path)"
  have "trim path \<noteq> [slash]" using False by (auto simp: components_def strip_prefix_def)
  then have "resolve_loop V [] ?cs ROOT_INODE v = (r, v')" using assms(2) False by (simp add: shell_resolve_path_def)
  from resolve_loop_walks [OF assms(1) False this]
  show ?thesis using walk_snoc [of "names (seen v)" ROOT_INODE "butlast ?cs" "last ?cs"] False by auto
qed

lemma parent_walks:
  assumes "inv v" and "resolve_parent V path v = (Ok (p, n), v')"
  shows "components (trim path) \<noteq> [] \<and> n = last (components (trim path)) \<and>
    walk (names (seen v)) ROOT_INODE (butlast (components (trim path))) = Some p"
proof -
  have loop: "parent_loop V cs q v0 = (Ok i, v1) \<Longrightarrow> inv v0 \<Longrightarrow> walk (names (seen v0)) q cs = Some i" for cs q v0 i v1
  proof (induction cs arbitrary: q v0)
    case (Cons c cs)
    obtain r v2 where l: "or_message (\<lambda>_. lit ''directory '' @ quote @ c @ quote @ lit '' not found'') (vo_lookup V q c) v0 = (r, v2)"
      by fastforce
    with or_message_lookup [OF Cons.prems(2)] have n: "\<And>a. r = Ok a \<Longrightarrow> names (seen v0) q c = Some (fa_inode a)"
      "inv v2" "seen v2 = seen v0" by blast+
    then show ?case using Cons.prems(1) l Cons.IH [of _ v2] by (cases r) (auto simp: bind_def)
  qed (simp add: ret_def)
  let ?cs = "components (trim path)"
  have "length ?cs = 1 \<Longrightarrow> butlast ?cs = []" by (cases ?cs) auto
  then show ?thesis using assms loop [of "butlast ?cs" ROOT_INODE v]
    by (auto simp: resolve_parent_def Let_def ret_def throw_def bind_def split: if_splits prod.splits outcome.splits)
qed

text \<open>Commands that only read.\<close>

lemma keeps_commands:
  assumes "parts ! 0 \<notin> set (map lit [''mkdir'', ''touch'', ''write'', ''rm'', ''rmdir'', ''mv''])"
  shows "keeps (shell_command V parts)"
proof -
  have "keeps (cmd_ls V parts)" "keeps (cmd_cat V parts)" "keeps (cmd_stat V parts)" "keeps (cmd_statfs V)"
    unfolding cmd_ls_def cmd_cat_def cmd_stat_def cmd_statfs_def Let_def by (intro keeps_rules keeps_resolve)+
  then show ?thesis using assms by (auto simp: shell_command_def Let_def intro: keeps_rules)
qed

text \<open>A session keeps what its commands keep.\<close>

lemma run_command_keeps:
  assumes "keeps (shell_command V parts)" and "inv (sh_client s)"
  shows "inv (sh_client (snd (run_command V parts s))) \<and> seen (sh_client (snd (run_command V parts s))) = seen (sh_client s)"
  using keeps_snd [OF assms]
  by (auto simp: run_command_def emit_def modify_def split: prod.splits outcome.splits)

lemma repl_loop_keeps:
  assumes "\<And>l. Line l \<in> set is \<Longrightarrow> keeps (shell_command V (splitn 3 0x20 (trim l)))" and "inv (sh_client s)"
  shows "inv (sh_client (snd (repl_loop V is s))) \<and> seen (sh_client (snd (repl_loop V is s))) = seen (sh_client s)"
  using assms
proof (induction "is" arbitrary: s)
  case Nil
  then show ?case by (simp add: emit_def modify_def)
next
  case (Cons i "is")
  let ?s = "s\<lparr>sh_output := sh_output s @ [Stdout (lit ''rucksfs> '')]\<rparr>"
  note IH = Cons.IH [OF Cons.prems(1)]
  show ?case
  proof (cases i)
    case (Line l)
    let ?parts = "splitn 3 0x20 (trim l)"
    have k: "keeps (shell_command V ?parts)" using Cons.prems(1) Line by simp
    have c: "inv (sh_client (snd (run_command V ?parts ?s))) \<and> seen (sh_client (snd (run_command V ?parts ?s))) = seen (sh_client s)"
      using run_command_keeps [OF k, of ?s] Cons.prems(2) by simp
    then have "inv (sh_client (snd (bind (run_command V ?parts) (\<lambda>_. repl_loop V is) ?s))) \<and>
        seen (sh_client (snd (bind (run_command V ?parts) (\<lambda>_. repl_loop V is) ?s))) = seen (sh_client s)"
      using IH by (auto simp: bind_def split: prod.splits outcome.splits)
    moreover have "inv (sh_client (snd (repl_loop V is ?s))) \<and> seen (sh_client (snd (repl_loop V is ?s))) = seen (sh_client s)"
      using IH [of ?s] Cons.prems(2) by simp
    ultimately show ?thesis using Cons.prems(2) Line
      by (simp add: bind_emit Let_def) (simp add: emit_def modify_def ret_def)
  qed (use Cons.prems in \<open>simp add: bind_def emit_def modify_def\<close>)
qed

end

section \<open>The embedded client can be read\<close>

record sight =
  si_fs :: afs
  si_content :: "inode \<Rightarrow> nat \<Rightarrow> u8"
  si_cap :: nat
  si_good :: "inode \<Rightarrow> bool"

definition sight_of :: "('db \<Rightarrow> view) \<Rightarrow> (('db, 'txn, 'c) server \<times> rawdisk) vfs \<Rightarrow> sight" where
  "sight_of view v =
     \<lparr>si_fs = abs_fs (view (kv_db (fst (vc_env v)))), si_content = disk_content (snd (vc_env v)),
      si_cap = disk_cap (snd (vc_env v)), si_good = disk_good (snd (vc_env v))\<rparr>"

definition sight_names :: "sight \<Rightarrow> inode \<Rightarrow> str \<Rightarrow> inode option" where
  "sight_names x p n = map_option fst (af_names (si_fs x) p n)"

text \<open>Inode records carry their own number.\<close>

definition numbered :: "afs \<Rightarrow> bool" where
  "numbered A \<longleftrightarrow> (\<forall>i iv. af_attrs A i = Some iv \<longrightarrow> iv_inode iv = i)"

text \<open>A client as \<open>build_client\<close> makes it, in a state that satisfies the server's invariant, with room for \<open>n\<close>
  more inode numbers and deltas.\<close>

definition ready ::
  "nat \<Rightarrow> ('db, 'txn) rocks \<Rightarrow> 'c lru \<Rightarrow> ('db \<Rightarrow> view) \<Rightarrow> ('c \<Rightarrow> inode \<Rightarrow> InodeValue option)
   \<Rightarrow> (('db, 'txn, 'c) server \<times> rawdisk) vfs \<Rightarrow> bool" where
  "ready n R L view entries v \<longleftrightarrow>
     vc_metadata v = beside_data (MetadataServer R L) \<and>
     (\<forall>i. resolve_data v i = beside_meta (DataServer RawDiskDataStore)) \<and>
     server_inv view (fst (vc_env v)) \<and> room n (fst (vc_env v)) \<and> coherent entries view (fst (vc_env v)) \<and>
     numbered (abs_fs (view (kv_db (fst (vc_env v)))))"

lemma embedded_reads:
  assumes "ready k R L view entries v"
  shows "vo_lookup EmbeddedClient p n v =
      (case lookup R L p n (fst (vc_env v)) of (r, s) \<Rightarrow> (r, v\<lparr>vc_env := (s, snd (vc_env v))\<rparr>))"
    and "vo_readdir EmbeddedClient i v =
      (case readdir R L i (fst (vc_env v)) of (r, s) \<Rightarrow> (r, v\<lparr>vc_env := (s, snd (vc_env v))\<rparr>))"
    and "vo_getattr EmbeddedClient i v =
      (case getattr R L i (fst (vc_env v)) of (r, s) \<Rightarrow> (r, v\<lparr>vc_env := (s, snd (vc_env v))\<rparr>))"
    and "vo_statfs EmbeddedClient i v =
      (case statfs i (fst (vc_env v)) of (r, s) \<Rightarrow> (r, v\<lparr>vc_env := (s, snd (vc_env v))\<rparr>))"
    and "vo_read EmbeddedClient i off sz v =
      (case read_at i off sz (snd (vc_env v)) of (r, d) \<Rightarrow> (r, v\<lparr>vc_env := (fst (vc_env v), d)\<rparr>))"
  using assms unfolding ready_def
  by (simp_all add: EmbeddedClient_def VfsCore_def via_meta_def call_def beside_data_def MetadataServer_def on_meta_def
      vfs_read_def via_data_def beside_meta_def on_data_def DataServer_def RawDiskDataStore_def split: prod.split)

lemma resolve_data_env [simp]: "resolve_data (v\<lparr>vc_env := e\<rparr>) i = resolve_data v i"
  by (simp add: resolve_data_def split: option.split)

lemma ready_env:
  assumes "ready k R L view entries v" and "server_inv view s" and "room k s" and "coherent entries view s"
    and "abs_fs (view (kv_db s)) = abs_fs (view (kv_db (fst (vc_env v))))"
  shows "ready k R L view entries (v\<lparr>vc_env := (s, d)\<rparr>)"
  using assms by (simp add: ready_def)

lemma ready_reads:
  assumes "ready k R L view entries v" and "reads_as entries view P (fst (vc_env v)) r s"
  shows "ready k R L view entries (v\<lparr>vc_env := (s, snd (vc_env v))\<rparr>) \<and>
    sight_of view (v\<lparr>vc_env := (s, snd (vc_env v))\<rparr>) = sight_of view v \<and> P r"
proof -
  have "reads view (fst (vc_env v)) s" "coherent entries view s" "P r"
    using assms by (auto simp: reads_as_def ready_def)
  moreover from this have "view (kv_db s) = view (kv_db (fst (vc_env v)))" by (auto simp: reads_def)
  moreover have "room k s" using assms by (auto simp: reads_as_def reads_def ready_def room_def)
  ultimately show ?thesis
    using assms(1) server_inv_reads [of view "fst (vc_env v)" s]
    by (auto simp: sight_of_def ready_def intro!: ready_env)
qed

lemma read_at_keeps:
  "read_at i off n d = (r, d') \<Longrightarrow> disk_content d' = disk_content d \<and> max_file_size d' = max_file_size d \<and> rd_io d' = rd_io d"
  by (auto simp: read_at_def bind_def gets_def lift_def ret_def file_read_at_def Let_def
      split: outcome.splits prod.splits if_splits io_event.splits)

lemma reading_client_embedded:
  assumes R: "rocksdb R view pend" and L: "lru_cache L entries cap"
  shows "reading_client EmbeddedClient (ready k R L view entries) (sight_of view) sight_names"
proof
  fix v :: "(('a, 'b, 'c) server \<times> rawdisk) vfs"
  assume rd: "ready k R L view entries v"
  let ?s = "fst (vc_env v)"
  {
    fix p n r v'
    assume run: "vo_lookup EmbeddedClient p n v = (r, v')"
    then obtain s where l: "lookup R L p n ?s = (r, s)" "v' = v\<lparr>vc_env := (s, snd (vc_env v))\<rparr>"
      by (auto simp: embedded_reads [OF rd] split: prod.splits)
    from ready_reads [OF rd wpD [OF rocksdb.wp_lookup [OF R L] l(1)]] rd
    show "ready k R L view entries v' \<and> sight_of view v' = sight_of view v \<and>
        (\<forall>a. r = Ok a \<longrightarrow> sight_names (sight_of view v) p n = Some (fa_inode a)) \<and> (\<forall>q. r \<noteq> Panic q)"
      unfolding l(2) by (auto simp: lookup_answer_def sight_names_def sight_of_def abs_fs_def ready_def numbered_def
          to_attr_def split: outcome.splits)
  next
    fix i r v'
    assume "vo_readdir EmbeddedClient i v = (r, v')"
    then obtain s where l: "readdir R L i ?s = (r, s)" "v' = v\<lparr>vc_env := (s, snd (vc_env v))\<rparr>"
      by (auto simp: embedded_reads [OF rd] split: prod.splits)
    from ready_reads [OF rd wpD [OF rocksdb.wp_readdir [OF R L] l(1)]]
    show "ready k R L view entries v' \<and> sight_of view v' = sight_of view v" unfolding l(2) by simp
  next
    fix i r v'
    assume "vo_getattr EmbeddedClient i v = (r, v')"
    then obtain s where l: "getattr R L i ?s = (r, s)" "v' = v\<lparr>vc_env := (s, snd (vc_env v))\<rparr>"
      by (auto simp: embedded_reads [OF rd] split: prod.splits)
    from ready_reads [OF rd wpD [OF rocksdb.wp_getattr [OF R L] l(1)]]
    show "ready k R L view entries v' \<and> sight_of view v' = sight_of view v" unfolding l(2) by simp
  next
    fix i r v'
    assume "vo_statfs EmbeddedClient i v = (r, v')"
    then have "v' = v" by (simp add: embedded_reads [OF rd] statfs_def ret_def)
    then show "ready k R L view entries v' \<and> sight_of view v' = sight_of view v" using rd by simp
  next
    fix i off sz r v'
    assume "vo_read EmbeddedClient i off sz v = (r, v')"
    then obtain d where l: "read_at i off sz (snd (vc_env v)) = (r, d)" "v' = v\<lparr>vc_env := (?s, d)\<rparr>"
      by (auto simp: embedded_reads [OF rd] split: prod.splits)
    from read_at_keeps [OF l(1)] rd show "ready k R L view entries v' \<and> sight_of view v' = sight_of view v"
      unfolding l(2) using disk_good_cong [of d "snd (vc_env v)"]
      by (auto simp: sight_of_def ready_def intro!: ready_env)
  }
qed

interpretation sample_client: reading_client EmbeddedClient "ready k mem_rocks list_lru mem_view list_entries"
  "sight_of mem_view" sight_names for k
  by (rule reading_client_embedded [OF mem.rocksdb_axioms list_lru.lru_cache_axioms])

section \<open>Properties\<close>

text \<open>
  Paths: resolving a path through the embedded client changes nothing and never panics; when it
  succeeds, the inode is where the walk along the directory entries from the root leads, component by
  component, however many slashes separate them. The resolved parent of a path is where the walk along
  all but the last component leads. Only a path with a component can fail.
\<close>

theorem shell_paths:
  assumes "rocksdb R view pend" and "lru_cache L entries cap" and "ready n R L view entries v"
    and "shell_resolve_path EmbeddedClient path v = (r, v')" and "resolve_parent EmbeddedClient path v = (q, v'')"
  shows "ready n R L view entries v' \<and> sight_of view v' = sight_of view v \<and>
    (case r of
       Ok (_, _, i) \<Rightarrow> walk (sight_names (sight_of view v)) ROOT_INODE (components (trim path)) = Some i
     | Err _ \<Rightarrow> components (trim path) \<noteq> []
     | Panic _ \<Rightarrow> False) \<and>
    (\<forall>p x. q = Ok (p, x) \<longrightarrow> components (trim path) \<noteq> [] \<and> x = last (components (trim path)) \<and>
       walk (sight_names (sight_of view v)) ROOT_INODE (butlast (components (trim path))) = Some p)"
proof -
  note c = reading_client_embedded [OF assms(1,2), of n]
  have "Err m = r \<Longrightarrow> components (trim path) \<noteq> []" for m
    using assms(4) by (auto simp: shell_resolve_path_def ret_def Let_def split: if_splits)
  then show ?thesis
    using reading_client.keepsD [OF c reading_client.keeps_resolve [OF c] assms(3,4)]
      reading_client.resolve_walks [OF c assms(3,4)] reading_client.parent_walks [OF c assms(3)] assms(5)
    by (auto split: outcome.split)
qed

text \<open>
  Reading is harmless: a whole session of the shell in which every line is \<^verbatim>\<open>ls\<close>, \<^verbatim>\<open>cat\<close>, \<^verbatim>\<open>stat\<close>, \<^verbatim>\<open>statfs\<close>,
  \<^verbatim>\<open>help\<close>, \<^verbatim>\<open>exit\<close> or an unknown command, with any arguments and whatever it prints, leaves every name,
  attribute, link target and byte of the file system as it was, and the client ready for more.
\<close>

theorem shell_reads_only:
  assumes "rocksdb R view pend" and "lru_cache L entries cap" and "ready n R L view entries (sh_client s)"
    and "\<And>l. Line l \<in> set is \<Longrightarrow>
      splitn 3 0x20 (trim l) ! 0 \<notin> set (map lit [''mkdir'', ''touch'', ''write'', ''rm'', ''rmdir'', ''mv''])"
    and "run_repl EmbeddedClient is s = (r, s')"
  shows "ready n R L view entries (sh_client s') \<and> sight_of view (sh_client s') = sight_of view (sh_client s)"
proof -
  note c = reading_client_embedded [OF assms(1,2), of n]
  obtain s1 where s1: "repl_loop EmbeddedClient is s1 = (r, s')" "sh_client s1 = sh_client s"
    using assms(5) by (auto simp: run_repl_def bind_def emit_def modify_def)
  show ?thesis
    using reading_client.repl_loop_keeps [OF c reading_client.keeps_commands [OF c assms(4)], of "is" s1] assms(3) s1 by simp
qed

section \<open>Building the client\<close>

lemma rawdisk_open_Ok: "(\<exists>d. rawdisk_open opened io mfs = Ok d) \<longleftrightarrow> mfs \<noteq> 0 \<and> (\<exists>f. opened = Inr f)"
  by (auto simp: rawdisk_open_def split: sum.splits)

text \<open>Opening the delta store on an empty database leaves the counters empty.\<close>

lemma fresh_counters:
  assumes "rocksdb R view pend" and "view db = (\<lambda>_ _. None)"
  shows "\<exists>kv1. delta_store_new R (stores_new idle db) = (Ok (), kv1) \<and> view (kv_db kv1) = (\<lambda>_ _. None) \<and> kv_seqs kv1 = (\<lambda>_. None)"
proof -
  obtain r kv1 where rec: "delta_store_new R (stores_new idle db) = (r, kv1)" by fastforce
  have "wp (delta_store_new R) (\<lambda>r s. r = Ok () \<and> view (kv_db s) = (\<lambda>_ _. None) \<and> kv_seqs s = (\<lambda>_. None)) (stores_new idle db)"
    unfolding delta_store_new_def wp_bind wp_modify andthen.simps wp_ignore
    by (rule rocksdb.wp_recover_seqs [OF assms(1)]) (auto simp: assms(2) stores_new_def fun_eq_iff split: option.splits)
  from wpD [OF this rec] rec show ?thesis by simp
qed

text \<open>
  What construction amounts to on an empty database: the delta counters start empty, and the outcome
  depends on the directory and the data file only.
\<close>

lemma build_client_run:
  assumes "rocksdb R view pend" and "open_rocks_db (ho_open_db H) (path_join dir (lit ''metadata.db'')) = Ok db"
    and "view db = (\<lambda>_ _. None)"
  obtains kv1 s where "view (kv_db kv1) = (\<lambda>_ _. None)" and "kv_seqs kv1 = (\<lambda>_. None)"
    and "server_new R L \<lparr>server_id = lit ''default''\<rparr> uid gid clock kv1 = Ok s"
    and "build_client R L H idle io dir mfs uid gid clock clock' =
      then_do (expect ''failed to create data directory'' (ho_create_dir_all H dir)) (\<lambda>_.
      then_do (expect_fs ''failed to open RawDisk data store'' (rawdisk_open (ho_open_file H (path_join dir (lit ''data.raw''))) io mfs))
        (\<lambda>d. Ok (embedded_new (beside_data (MetadataServer R L)) (beside_meta (DataServer RawDiskDataStore)) (s, d) clock')))"
proof -
  from fresh_counters [OF assms(1,3)] obtain kv1 where rec: "delta_store_new R (stores_new idle db) = (Ok (), kv1)"
    and kv1: "view (kv_db kv1) = (\<lambda>_ _. None)" "kv_seqs kv1 = (\<lambda>_. None)" by blast
  obtain c where "cache_new L DEFAULT_CACHE_CAPACITY = Ok c"
    by (simp add: cache_new_def DEFAULT_CACHE_CAPACITY_def)
  with rocksdb.fresh_starts [OF assms(1) kv1(1)]
  obtain s where s: "server_new R L \<lparr>server_id = lit ''default''\<rparr> uid gid clock kv1 = Ok s" unfolding server_new_def by blast
  show thesis by (rule that [OF kv1 s]) (simp add: build_client_def Let_def expect_fs_def assms(2) rec s)
qed

text \<open>
  C21. The client that is built on an empty database: construction succeeds exactly when the data
  directory can be made, the data file can be opened and the capacity per file is not 0 (otherwise the
  program panics). If the root directory could be stored, the client is ready: the server's invariant
  holds, its cache is coherent, and there are no names yet.
\<close>

theorem build_client_ready:
  assumes "rocksdb R view pend" and "lru_cache L entries cap"
    and "open_rocks_db (ho_open_db H) (path_join dir (lit ''metadata.db'')) = Ok db" and "view db = (\<lambda>_ _. None)" and "n < 2 ^ 63"
    and "build_client R L H idle io dir mfs uid gid clock clock' = r"
  shows "((\<exists>v. r = Ok v) \<longleftrightarrow> ho_create_dir_all H dir = Inr () \<and>
      (\<exists>f. ho_open_file H (path_join dir (lit ''data.raw'')) = Inr f) \<and> mfs \<noteq> 0) \<and> (\<forall>e. r \<noteq> Err e) \<and>
    (\<forall>v. r = Ok v \<and> stored (view (kv_db (fst (vc_env v)))) ROOT_INODE \<noteq> None \<longrightarrow>
       ready n R L view entries v \<and> sight_names (sight_of view v) = (\<lambda>_ _. None))"
proof -
  from build_client_run [OF assms(1,3,4)] obtain kv1 s where kv1: "view (kv_db kv1) = (\<lambda>_ _. None)" "kv_seqs kv1 = (\<lambda>_. None)"
    and s: "server_new R L \<lparr>server_id = lit ''default''\<rparr> uid gid clock kv1 = Ok s"
    and run: "build_client R L H idle io dir mfs uid gid clock clock' =
      then_do (expect ''failed to create data directory'' (ho_create_dir_all H dir)) (\<lambda>_.
      then_do (expect_fs ''failed to open RawDisk data store'' (rawdisk_open (ho_open_file H (path_join dir (lit ''data.raw''))) io mfs))
        (\<lambda>d. Ok (embedded_new (beside_data (MetadataServer R L)) (beside_meta (DataServer RawDiskDataStore)) (s, d) clock')))"
    by blast
  let ?v = "\<lambda>d. embedded_new (beside_data (MetadataServer R L)) (beside_meta (DataServer RawDiskDataStore)) (s, d) clock'"
  let ?file = "ho_open_file H (path_join dir (lit ''data.raw''))"
  note r = run [unfolded assms(6)]
  have ok: "r = Ok v \<longleftrightarrow> ho_create_dir_all H dir = Inr () \<and> (\<exists>d. rawdisk_open ?file io mfs = Ok d \<and> v = ?v d)" for v
    unfolding r expect_def expect_fs_def by (auto split: sum.splits outcome.splits)
  have "ready n R L view entries (?v d) \<and> sight_names (sight_of view (?v d)) = (\<lambda>_ _. None)"
    if "stored (view (kv_db s)) ROOT_INODE \<noteq> None" for d
  proof -
    note new = s [unfolded server_new_def]
    from rocksdb.fresh_state [OF assms(1) new kv1(1)] that obtain iv where iv: "iv_version iv = FORMAT_VERSION"
      "iv_inode iv = ROOT_INODE"
      "view (kv_db s) = upd CF_INODES (encode_inode_key ROOT_INODE) (Some (serialize iv)) (\<lambda>_ _. None)"
      and c: "cache_new L DEFAULT_CACHE_CAPACITY = Ok (cw_cache s)" by auto
    have "coherent entries view s"
      using lru_cache.lookup_new [OF assms(2) c] by (simp add: coherent_def)
    moreover have "effective (view (kv_db s)) = [ROOT_INODE \<mapsto> iv]" "dirent (view (kv_db s)) = (\<lambda>_ _. None)"
      unfolding iv(3) using iv(1)
      by (auto simp: fun_eq_iff effective_def stored_def dirent_def pending_def scan_def decode_deltas_def map_filter_def)
    ultimately show ?thesis
      using rocksdb.fresh_inv [OF assms(1) new kv1(1) that] rocksdb.fresh_room [OF assms(1) new kv1(1,2) assms(5)] iv(2)
      by (auto simp: ready_def embedded_new_def vfs_new_def resolve_data_def numbered_def abs_fs_def sight_names_def
          sight_of_def fun_eq_iff split: if_splits)
  qed
  moreover have "\<forall>e. r \<noteq> Err e"
    unfolding r expect_def expect_fs_def by (auto split: sum.splits outcome.splits)
  ultimately show ?thesis using rawdisk_open_Ok [of ?file io mfs] unfolding ok
    by (auto simp: embedded_new_def vfs_new_def)
qed

section \<open>Writing and showing a file\<close>

lemma to_string_lossy_append: "utf8_valid t \<Longrightarrow> to_string_lossy (t @ r) = t @ to_string_lossy r"
proof (induction t rule: to_string_lossy.induct)
  case (2 b0 bs)
  have n: "utf8_head_error (b0 # bs) = None" using "2.prems" by (auto simp: utf8_valid_def split: option.splits)
  then obtain w where w: "utf8_width b0 = Some w" using head_ok_width by blast
  note h = utf8_head_extend [OF n w]
  have "utf8_valid (drop (w - 1) bs)" using utf8_valid_Cons [OF n w] "2.prems" by simp
  then have IH: "to_string_lossy (drop (w - 1) bs @ r) = drop (w - 1) bs @ to_string_lossy r"
    using "2.IH"(1) [OF n w] by simp
  have "take (w - 1) bs @ drop (w - 1) bs @ r = bs @ r" by (simp flip: append_assoc)
  with h [of "drop (w - 1) bs @ r"] have "utf8_head_error (b0 # bs @ r) = None" by metis
  moreover have "take w (b0 # bs @ r) = b0 # take (w - 1) bs" using h by (cases w) auto
  moreover have "w - 1 \<le> length bs" using h by blast
  then have "drop (w - 1) (bs @ r) = drop (w - 1) bs @ r" by simp
  ultimately have "to_string_lossy (b0 # bs @ r) = (b0 # take (w - 1) bs) @ drop (w - 1) bs @ to_string_lossy r"
    using w IH by (simp del: utf8_head_error.simps drop_append)
  also have "\<dots> = (b0 # bs) @ to_string_lossy r" by (simp flip: append_assoc)
  finally show ?case by simp
qed simp

lemma trim_end_matches_append: "t \<noteq> [] \<Longrightarrow> last t \<noteq> c \<Longrightarrow> \<exists>r'. trim_end_matches c (t @ r) = t @ r'"
  by (cases t rule: rev_cases) (auto simp: trim_end_matches_def dropWhile_append)

lemma window_overwrite_prefix:
  assumes "length bs \<le> m"
  shows "\<exists>r. window (overwrite f 0 bs) 0 m = bs @ r"
proof -
  have "window (overwrite f 0 bs) 0 m = bs @ map (\<lambda>k. overwrite f 0 bs k) [length bs..<m]"
    using assms by (intro nth_equalityI) (auto simp: window_def overwrite_def nth_append)
  then show ?thesis by blast
qed

text \<open>A write through the embedded client, on a disk that works.\<close>

lemma embedded_write_ok:
  assumes rd: "ready n R L view entries v" and good: "si_good (sight_of view v) i"
    and fits: "length bs \<le> si_cap (sight_of view v)" "length bs < 2 ^ 32" "bs \<noteq> []"
    and run: "vo_write EmbeddedClient i 0 bs flags v = (Ok m, v1)"
  shows "m = of_nat (length bs) \<and> vc_metadata v1 = vc_metadata v \<and> resolve_data v1 = resolve_data v \<and>
    report_write R L i (of_nat (length bs)) (vc_clock v (vc_ticks v)) (fst (vc_env v)) = (Ok (), fst (vc_env v1)) \<and>
    si_content (sight_of view v1) i = overwrite (si_content (sight_of view v) i) 0 bs \<and>
    si_cap (sight_of view v1) = si_cap (sight_of view v) \<and> si_good (sight_of view v1) = si_good (sight_of view v)"
proof -
  let ?d = "snd (vc_env v)" and ?s = "fst (vc_env v)"
  have g: "disk_good ?d i" "length bs \<le> disk_cap ?d" using good fits by (simp_all add: sight_of_def)
  then have pos: "unat (0 :: u64) < disk_cap ?d" using fits(3) by (cases bs) auto
  obtain d1 where w: "write_at i 0 bs ?d = (Ok (of_nat (length bs)), d1)"
    and c: "disk_content d1 = (disk_content ?d)(i := overwrite (disk_content ?d i) 0 bs)"
      "disk_cap d1 = disk_cap ?d" "disk_good d1 = disk_good ?d"
    using raw.write_law [OF g(1) pos refl, of bs] g(2) by auto
  have uc: "ucast (of_nat (length bs) :: u32) = (of_nat (length bs) :: u64)"
    using fits(2) by (simp add: unsigned_of_nat take_bit_nat_eq_self)
  obtain rep s1 where rep: "report_write R L i (of_nat (length bs)) (vc_clock v (vc_ticks v)) ?s = (rep, s1)" by fastforce
  have "rep = Ok ()" and "m = of_nat (length bs)" and "v1 = v\<lparr>vc_env := (s1, d1), vc_ticks := Suc (vc_ticks v),
      vc_written_inodes := insert i (vc_written_inodes v)\<rparr>"
    using rd run w rep uc
    by (auto simp: ready_def EmbeddedClient_def VfsCore_def vfs_write_def bind_def via_data_def call_def vfs_now_secs_def
        via_meta_def modify_def ret_def beside_meta_def beside_data_def on_data_def on_meta_def DataServer_def
        RawDiskDataStore_def MetadataServer_def Let_def split: outcome.splits)
  then show ?thesis using rep c by (auto simp: sight_of_def resolve_data_def fun_eq_iff split: option.split)
qed

text \<open>Reporting a write to a regular file keeps the client readable and every name.\<close>

lemma room_0: "room 0 s"
  unfolding room_def by (simp only: add_0_right unat_u64_less) simp

lemma embedded_write_ready:
  assumes R: "rocksdb R view pend" and L: "lru_cache L entries cap" and rd: "ready 12 R L view entries v"
    and reg: "af_attrs (si_fs (sight_of view v)) i = Some iv" "\<not> is_dir (iv_mode iv)"
    and env: "vc_metadata v1 = vc_metadata v" "resolve_data v1 = resolve_data v"
    and rep: "report_write R L i sz mt (fst (vc_env v)) = (Ok (), fst (vc_env v1))"
  shows "ready 0 R L view entries v1 \<and> sight_names (sight_of view v1) = sight_names (sight_of view v)"
proof -
  let ?s = "fst (vc_env v)" and ?s1 = "fst (vc_env v1)"
  have r: "server_inv view ?s" "room 12 ?s" "coherent entries view ?s" "numbered (abs_fs (view (kv_db ?s)))"
    using rd by (simp_all add: ready_def)
  obtain b where b: "stored (view (kv_db ?s)) i = Some b" "\<not> is_dir (iv_mode b)"
    using reg by (auto simp: sight_of_def abs_fs_def effective_def split: option.splits)
  then have "pending (view (kv_db ?s)) i = []"
    using r(1) by (force simp: server_inv_def contents_ok_def dir_at_def)
  with wpD [OF rocksdb.wp_report_write [OF R L r(1,2)] rep] r(3)
  have inv1: "server_inv view ?s1" "coherent entries view ?s1"
    and spec: "spec_report_write i sz mt (abs_fs (view (kv_db ?s))) () (abs_fs (view (kv_db ?s1)))"
    by (auto simp: implements_def keeps_coherent_def)
  from spec r(4) have "numbered (abs_fs (view (kv_db ?s1)))" "af_names (abs_fs (view (kv_db ?s1))) = af_names (abs_fs (view (kv_db ?s)))"
    by (fastforce simp: spec_report_write_def spec_update_def numbered_def split: if_splits)+
  with inv1 env rd show ?thesis
    by (auto simp: ready_def sight_names_def sight_of_def fun_eq_iff room_0)
qed

text \<open>Reading a file from its start shows what was written there last.\<close>

lemma embedded_cat:
  assumes rd: "ready n R L view entries v" and good: "si_good (sight_of view v) i"
    and c: "si_content (sight_of view v) i = overwrite f 0 t" "length t \<le> unat sz" "length t \<le> si_cap (sight_of view v)" "t \<noteq> []"
    and run: "vo_read EmbeddedClient i 0 sz v = (Ok bs, v1)"
  shows "\<exists>z. bs = t @ z"
proof -
  let ?d = "snd (vc_env v)"
  have d: "disk_good ?d i" "disk_content ?d i = overwrite f 0 t" "length t \<le> disk_cap ?d"
    using good c by (simp_all add: sight_of_def)
  have "unat (0 :: u64) < disk_cap ?d" using d(3) c(4) by (cases t) auto
  from read_at_good [OF d(1) this, of sz] run embedded_reads(5) [OF rd, of i 0 sz]
  have "bs = window (overwrite f 0 t) 0 (min (unat sz) (disk_cap ?d))" by (simp add: d(2))
  then show ?thesis using window_overwrite_prefix [of t "min (unat sz) (disk_cap ?d)" f] c(2) d(3) by simp
qed

text \<open>What the two commands do once their path is resolved.\<close>

lemma resolved_Ok: "relabel l f v = (Ok a, v') \<longleftrightarrow> f v = (Ok a, v')"
  by (auto simp: relabel_def split: prod.splits outcome.splits)

lemma or_message_Ok: "or_message m f v = (Ok a, v') \<longleftrightarrow> f v = (Ok a, v')"
  by (auto simp: or_message_def split: prod.splits outcome.splits)

lemma bind_Ok: "bind f g v = (Ok b, v') \<longleftrightarrow> (\<exists>a v1. f v = (Ok a, v1) \<and> g a v1 = (Ok b, v'))"
  by (auto simp: bind_def split: prod.splits outcome.splits)

lemma cmd_write_Ok:
  assumes "cmd_write V [c, path, t] v = (Ok out, v1)"
  obtains p x i m v0 where "shell_resolve_path V path v = (Ok (p, x, i), v0)" "vo_write V i 0 t 0 v0 = (Ok m, v1)"
    "out = [lit ''  wrote '' @ show_int m @ lit '' bytes'']"
  using assms by (auto simp: cmd_write_def bind_Ok ok_or_def part_def ret_def resolved_Ok or_message_Ok split: prod.splits)

lemma cmd_cat_Ok:
  assumes "cmd_cat V [c, path] v = (Ok out, v1)"
  obtains p x i bs v0 where "shell_resolve_path V path v = (Ok (p, x, i), v0)" "vo_read V i 0 (1024 * 1024) v0 = (Ok bs, v1)"
    "trim_end_matches 0 (to_string_lossy bs) \<noteq> [] \<longrightarrow> out = [trim_end_matches 0 (to_string_lossy bs)]"
  using assms by (auto simp: cmd_cat_def bind_Ok ok_or_def part_def ret_def resolved_Ok or_message_Ok Let_def split: prod.splits)

text \<open>
  C20. Write, then show: when \<^verbatim>\<open>write\<close> of a text to a path that names a regular file on a working disk
  succeeds and \<^verbatim>\<open>cat\<close> of the same path succeeds after it, the length is reported and the text is what
  \<^verbatim>\<open>cat\<close> shows first. (What the file held behind it follows: \<^verbatim>\<open>write\<close> does not truncate.) The text is valid
  UTF-8, does not end in a zero byte and fits into the file and into what \<^verbatim>\<open>cat\<close> reads.
\<close>

theorem shell_write_cat:
  assumes "rocksdb R view pend" and "lru_cache L entries cap" and "ready 12 R L view entries v"
    and "walk (sight_names (sight_of view v)) ROOT_INODE (components (trim path)) = Some i"
    and "af_attrs (si_fs (sight_of view v)) i = Some iv" and "\<not> is_dir (iv_mode iv)" and "si_good (sight_of view v) i"
    and "t \<noteq> []" and "last t \<noteq> 0" and "utf8_valid t" and "length t \<le> si_cap (sight_of view v)" and "length t \<le> 1024 * 1024"
    and "cmd_write EmbeddedClient [c, path, t] v = (Ok out, v1)" and "cmd_cat EmbeddedClient [c', path] v1 = (Ok out', v2)"
  shows "out = [lit ''  wrote '' @ show_int (of_nat (length t) :: u32) @ lit '' bytes''] \<and> (\<exists>rest. out' = [t @ rest])"
proof -
  note c = reading_client_embedded [OF assms(1,2)]
  from assms(13) obtain p x j m v0 where w: "shell_resolve_path EmbeddedClient path v = (Ok (p, x, j), v0)"
    "vo_write EmbeddedClient j 0 t 0 v0 = (Ok m, v1)" "out = [lit ''  wrote '' @ show_int m @ lit '' bytes'']"
    by (rule cmd_write_Ok)
  have j: "j = i" using reading_client.resolve_walks [OF c assms(3) w(1)] assms(4) by simp
  have rd0: "ready 12 R L view entries v0" "sight_of view v0 = sight_of view v"
    using reading_client.keepsD [OF c reading_client.keeps_resolve [OF c] assms(3) w(1)] by auto
  have len: "length t < 2 ^ 32" using assms(12) by simp
  note o = embedded_write_ok [OF rd0(1) _ _ len assms(8) w(2), unfolded rd0(2) j, OF assms(7,11)]
  have rd1: "ready 0 R L view entries v1" "sight_names (sight_of view v1) = sight_names (sight_of view v)"
    using embedded_write_ready [OF assms(1,2) rd0(1), unfolded rd0(2), OF assms(5,6)] o by blast+
  from assms(14) obtain p' x' k bs v3 where r: "shell_resolve_path EmbeddedClient path v1 = (Ok (p', x', k), v3)"
    "vo_read EmbeddedClient k 0 (1024 * 1024) v3 = (Ok bs, v2)"
    "trim_end_matches 0 (to_string_lossy bs) \<noteq> [] \<longrightarrow> out' = [trim_end_matches 0 (to_string_lossy bs)]"
    by (rule cmd_cat_Ok)
  have k: "k = i" using reading_client.resolve_walks [OF c rd1(1) r(1)] assms(4) rd1(2) by simp
  have rd3: "ready 0 R L view entries v3" "sight_of view v3 = sight_of view v1"
    using reading_client.keepsD [OF c reading_client.keeps_resolve [OF c] rd1(1) r(1)] by auto
  obtain z where bs: "bs = t @ z"
    using embedded_cat [OF rd3(1) _ _ _ _ _ r(2), unfolded rd3(2) k] o assms(7,8,11,12) by auto
  obtain rest where "trim_end_matches 0 (to_string_lossy bs) = t @ rest"
    using trim_end_matches_append [OF assms(8,9)] to_string_lossy_append [OF assms(10)] bs by metis
  then show ?thesis using r(3) w(3) o assms(8) by auto
qed

section \<open>A session on the sample server\<close>

abbreviation sample_embedded :: "((mem_db, mem_txn, lru_list) server \<times> rawdisk) vfs" where
  "sample_embedded \<equiv> embedded_state mem_rocks list_lru (sample_server, sample_disk 64) (\<lambda>_. 200)"

lemma sample_env: "vc_env sample_embedded = (sample_server, sample_disk 64)" "vc_clock sample_embedded = (\<lambda>_. 200)"
  by (simp_all add: embedded_new_def vfs_new_def)

lemma sample_attrs: "af_attrs (abs_fs (mem_view (kv_db sample_server))) =
  [1 \<mapsto> sample_inode 1 0x41FF 3 0, 2 \<mapsto> sample_inode 2 0x81A4 1 5, 3 \<mapsto> sample_inode 3 0x41ED 2 0]"
  unfolding sample_server_view
  by (auto simp: abs_fs_def effective_def sample_stored sample_pending decode_deltas_def map_filter_def fun_eq_iff split: option.split)

lemma sample_ready: "ready 12 mem_rocks list_lru mem_view list_entries sample_embedded"
proof -
  have "numbered (abs_fs (mem_view (kv_db sample_server)))"
    unfolding numbered_def sample_attrs by (auto simp: sample_inode_def split: if_splits)
  then show ?thesis using sample_server_inv sample_room sample_coherent
    by (simp add: ready_def embedded_new_def vfs_new_def resolve_data_def)
qed

lemma resolve_one:
  assumes "ready n R L view entries v" and "components (trim path) = [c]"
    and "lookup R L ROOT_INODE c (fst (vc_env v)) = (Ok a, s)"
  shows "shell_resolve_path EmbeddedClient path v = (Ok (ROOT_INODE, c, fa_inode a), v\<lparr>vc_env := (s, snd (vc_env v))\<rparr>)"
proof -
  have "trim path \<noteq> [slash]" using assms(2) by (auto simp: components_def strip_prefix_def)
  then show ?thesis using assms
    by (simp add: shell_resolve_path_def bind_def or_message_def ret_def embedded_reads [OF assms(1)] Let_def)
qed

lemma sample_path: "components (trim (lit ''/a'')) = [[0x61]]"
  by code_simp

lemma sample_disk_content: "disk_content (sample_disk m) i k = 0"
  by (simp add: disk_content_def file_byte_def sample_disk_def)

text \<open>The file is found, also after a report of a write.\<close>

lemma sample_lookup:
  obtains a s where "lookup mem_rocks list_lru ROOT_INODE [0x61] sample_server = (Ok a, s)" "fa_inode a = 2"
proof -
  have "map_outcome fa_inode (fst (lookup mem_rocks list_lru ROOT_INODE [0x61] sample_server)) = Ok 2" by code_simp
  then show thesis using that by (cases "lookup mem_rocks list_lru ROOT_INODE [0x61] sample_server"; cases "fst (lookup mem_rocks list_lru ROOT_INODE [0x61] sample_server)") auto
qed

theorem shell_paths_witness:
  "\<exists>v'. shell_resolve_path EmbeddedClient (lit ''/a'') sample_embedded = (Ok (1, [0x61], 2), v') \<and>
     walk (sight_names (sight_of mem_view sample_embedded)) 1 [[0x61]] = Some 2"
proof -
  obtain a s where l: "lookup mem_rocks list_lru ROOT_INODE [0x61] sample_server = (Ok a, s)" "fa_inode a = 2"
    by (rule sample_lookup)
  then obtain v' where run: "shell_resolve_path EmbeddedClient (lit ''/a'') sample_embedded = (Ok (ROOT_INODE, [0x61], 2), v')"
    using resolve_one [OF sample_ready sample_path, of a s] by (simp add: sample_env)
  from shell_paths [OF mem.rocksdb_axioms list_lru.lru_cache_axioms sample_ready run surjective_pairing]
  have "walk (sight_names (sight_of mem_view sample_embedded)) 1 [[0x61]] = Some 2"
    unfolding sample_path by (simp add: ROOT_INODE_def)
  then show ?thesis using run by (auto simp: ROOT_INODE_def)
qed

theorem shell_reads_only_witness:
  "\<exists>s'. run_repl EmbeddedClient [Line (lit ''cat /a'' @ [0x0A]), Line (lit ''exit'')]
       \<lparr>sh_client = sample_embedded, sh_output = []\<rparr> = (Ok (), s') \<and>
     drop 2 (sh_output s') = [println (lit ''  (empty file)''), Stdout (lit ''rucksfs> ''), println (lit ''Goodbye!'')] \<and>
     sight_of mem_view (sh_client s') = sight_of mem_view sample_embedded"
proof -
  let ?s = "\<lparr>sh_client = sample_embedded, sh_output = []\<rparr>"
  obtain a s where l: "lookup mem_rocks list_lru ROOT_INODE [0x61] sample_server = (Ok a, s)" "fa_inode a = 2"
    by (rule sample_lookup)
  let ?v0 = "sample_embedded\<lparr>vc_env := (s, sample_disk 64)\<rparr>"
  have run: "shell_resolve_path EmbeddedClient (lit ''/a'') sample_embedded = (Ok (ROOT_INODE, [0x61], 2), ?v0)"
    using resolve_one [OF sample_ready sample_path, of a s] l by (simp add: sample_env)
  from sample_client.keepsD [OF sample_client.keeps_resolve sample_ready this]
  have rd: "ready 12 mem_rocks list_lru mem_view list_entries ?v0" by blast
  have "disk_good (sample_disk 64) 2" by (rule sample_disk_good) simp
  from read_at_good [OF this, of 0 "1024 * 1024"]
  have "read_at 2 0 (1024 * 1024) (sample_disk 64) = (Ok (replicate 64 0), tick_io (sample_disk 64))"
    by (simp add: window_def sample_disk_content map_replicate_trivial)
  then have read: "vo_read EmbeddedClient 2 0 (1024 * 1024) ?v0 = (Ok (replicate 64 0), ?v0\<lparr>vc_env := (s, tick_io (sample_disk 64))\<rparr>)"
    by (simp add: embedded_reads [OF rd])
  have lossy: "trim_end_matches 0 (to_string_lossy (replicate 64 0)) = []" by code_simp
  have cat: "lit ''cat'' \<noteq> lit ''help''" "lit ''cat'' \<noteq> lit ''ls''" "lit ''cat'' \<noteq> lit ''mkdir''" "lit ''cat'' \<noteq> lit ''touch''"
    "lit ''cat'' \<noteq> lit ''write''" "lit ''cat'' \<notin> set (map lit [''mkdir'', ''touch'', ''write'', ''rm'', ''rmdir'', ''mv''])"
    by code_simp+
  have "shell_command EmbeddedClient [lit ''cat'', lit ''/a''] sample_embedded =
      (Ok [lit ''  (empty file)''], ?v0\<lparr>vc_env := (s, tick_io (sample_disk 64))\<rparr>)"
    using run read lossy cat(1-5)
    by (simp add: shell_command_def cmd_cat_def bind_def ok_or_def part_def ret_def relabel_def or_message_def Let_def)
  then have cmd: "run_command EmbeddedClient [lit ''cat'', lit ''/a''] (?s\<lparr>sh_output := x\<rparr>) =
      (Ok (), ?s\<lparr>sh_client := ?v0\<lparr>vc_env := (s, tick_io (sample_disk 64))\<rparr>, sh_output := x @ [println (lit ''  (empty file)'')]\<rparr>)" for x
    by (simp add: run_command_def emit_def modify_def)
  have lines: "trim (lit ''cat /a'' @ [0x0A]) = lit ''cat /a''" "splitn 3 0x20 (lit ''cat /a'') = [lit ''cat'', lit ''/a'']"
    "trim (lit ''exit'') = lit ''exit''" "splitn 3 0x20 (lit ''exit'') = [lit ''exit'']" "lit ''cat /a'' \<noteq> []" "lit ''exit'' \<noteq> []"
    "lit ''cat'' \<noteq> lit ''exit''" "lit ''cat'' \<noteq> lit ''quit''"
    "lit ''exit'' \<notin> set (map lit [''mkdir'', ''touch'', ''write'', ''rm'', ''rmdir'', ''mv''])"
    by code_simp+
  let ?is = "[Line (lit ''cat /a'' @ [0x0A]), Line (lit ''exit'')]"
  obtain s' where r: "run_repl EmbeddedClient ?is ?s = (Ok (), s')"
    "drop 2 (sh_output s') = [println (lit ''  (empty file)''), Stdout (lit ''rucksfs> ''), println (lit ''Goodbye!'')]"
    using cmd lines(1-8) by (simp add: run_repl_def bind_emit) (simp add: bind_def emit_def modify_def)
  have reading: "splitn 3 0x20 (trim l) ! 0 \<notin> set (map lit [''mkdir'', ''touch'', ''write'', ''rm'', ''rmdir'', ''mv''])"
    if "Line l \<in> set ?is" for l using that cat(6) lines by auto
  have "ready 12 mem_rocks list_lru mem_view list_entries (sh_client ?s)" using sample_ready by simp
  from shell_reads_only [OF mem.rocksdb_axioms list_lru.lru_cache_axioms this reading r(1)] r
  have "sight_of mem_view (sh_client s') = sight_of mem_view sample_embedded" by simp
  with r show ?thesis by blast
qed

theorem shell_write_cat_witness:
  "\<exists>out v1 out' v2 rest. cmd_write EmbeddedClient [[], lit ''/a'', [0x68, 0x69]] sample_embedded = (Ok out, v1) \<and>
     cmd_cat EmbeddedClient [[], lit ''/a''] v1 = (Ok out', v2) \<and> out' = [[0x68, 0x69] @ rest]"
proof -
  let ?t = "[0x68, 0x69] :: str"
  obtain a s where l: "lookup mem_rocks list_lru ROOT_INODE [0x61] sample_server = (Ok a, s)" "fa_inode a = 2"
    by (rule sample_lookup)
  let ?v0 = "sample_embedded\<lparr>vc_env := (s, sample_disk 64)\<rparr>"
  have run: "shell_resolve_path EmbeddedClient (lit ''/a'') sample_embedded = (Ok (ROOT_INODE, [0x61], 2), ?v0)"
    using resolve_one [OF sample_ready sample_path, of a s] l by (simp add: sample_env)
  have rd0: "ready 12 mem_rocks list_lru mem_view list_entries ?v0" and se0: "sight_of mem_view ?v0 = sight_of mem_view sample_embedded"
    using sample_client.keepsD [OF sample_client.keeps_resolve sample_ready run] by blast+
  have st: "?v0 = embedded_state mem_rocks list_lru (s, sample_disk 64) (\<lambda>_. 200)" by (simp add: embedded_new_def vfs_new_def)
  have good: "disk_good (sample_disk 64) 2" by (rule sample_disk_good) simp
  have s: "s = snd (lookup mem_rocks list_lru ROOT_INODE [0x61] sample_server)" using l by simp
  have "fst (report_write mem_rocks list_lru 2 2 200 s) = Ok ()" unfolding s by code_simp
  with good obtain v1 where w: "vo_write EmbeddedClient 2 0 ?t 0 ?v0 = (Ok 2, v1)"
    "fst (vc_env v1) = snd (report_write mem_rocks list_lru 2 2 200 s)"
    using embedded_vfs_write [of "(s, sample_disk 64)" 2 0 ?t 0 mem_rocks list_lru "\<lambda>_. 200"]
    unfolding st by (auto simp: EmbeddedClient_def VfsCore_def)
  have sight: "si_good (sight_of mem_view ?v0) 2" "si_cap (sight_of mem_view ?v0) = 64"
    "af_attrs (si_fs (sight_of mem_view ?v0)) 2 = Some (sample_inode 2 0x81A4 1 5)"
    using good se0 by (simp_all add: sight_of_def sample_env sample_attrs)
  have reg: "\<not> is_dir (iv_mode (sample_inode 2 0x81A4 1 5))" by code_simp
  note o = embedded_write_ok [OF rd0 sight(1) _ _ _ w(1), unfolded sight(2), simplified]
  have rd1: "ready 0 mem_rocks list_lru mem_view list_entries v1"
    by (rule conjunct1 [OF embedded_write_ready [OF mem.rocksdb_axioms list_lru.lru_cache_axioms rd0 sight(3) reg]])
      (use o in \<open>auto\<close>)
  have "map_outcome fa_inode (fst (lookup mem_rocks list_lru ROOT_INODE [0x61] (fst (vc_env v1)))) = Ok 2"
    unfolding w(2) s by code_simp
  then obtain b s2 where l2: "lookup mem_rocks list_lru ROOT_INODE [0x61] (fst (vc_env v1)) = (Ok b, s2)" "fa_inode b = 2"
    by (cases "lookup mem_rocks list_lru ROOT_INODE [0x61] (fst (vc_env v1))";
        cases "fst (lookup mem_rocks list_lru ROOT_INODE [0x61] (fst (vc_env v1)))") auto
  note run2 = resolve_one [OF rd1 sample_path l2(1), unfolded l2(2)]
  have rd2: "ready 0 mem_rocks list_lru mem_view list_entries (v1\<lparr>vc_env := (s2, snd (vc_env v1))\<rparr>)"
    using sample_client.keepsD [OF sample_client.keeps_resolve rd1 run2] by blast
  have "disk_good (snd (vc_env v1)) 2" "disk_cap (snd (vc_env v1)) = 64" using o sight by (simp_all add: sight_of_def)
  from read_at_good [OF this(1), of 0 "1024 * 1024"] this(2)
  obtain bs d where "read_at 2 0 (1024 * 1024) (snd (vc_env v1)) = (Ok bs, d)" by simp
  then have read: "\<exists>v2. vo_read EmbeddedClient 2 0 (1024 * 1024) (v1\<lparr>vc_env := (s2, snd (vc_env v1))\<rparr>) = (Ok bs, v2)"
    by (simp add: embedded_reads [OF rd2])
  obtain out where wr: "cmd_write EmbeddedClient [[], lit ''/a'', ?t] sample_embedded = (Ok out, v1)"
    using run w(1) by (simp add: cmd_write_def bind_def ok_or_def part_def ret_def relabel_def or_message_def)
  obtain out' v2 where ca: "cmd_cat EmbeddedClient [[], lit ''/a''] v1 = (Ok out', v2)"
    using run2 read by (auto simp: cmd_cat_def bind_def ok_or_def part_def ret_def relabel_def or_message_def Let_def)
  have walk: "walk (sight_names (sight_of mem_view sample_embedded)) ROOT_INODE (components (trim (lit ''/a''))) = Some 2"
    using sample_client.resolve_walks [OF sample_ready run] by blast
  have valid: "utf8_valid ?t" by code_simp
  from shell_write_cat [OF mem.rocksdb_axioms list_lru.lru_cache_axioms sample_ready walk
      sight(3) [unfolded se0] reg sight(1) [unfolded se0] _ _ valid _ _ wr ca] sight(2) [unfolded se0]
  show ?thesis using wr ca by auto
qed

text \<open>A client built on an empty in-memory database.\<close>

definition sample_host :: "mem_db host" where
  "sample_host = \<lparr>ho_create_dir_all = (\<lambda>_. Inr ()), ho_open_db = (\<lambda>_ _ _. Inr \<lparr>mem_kv = [], mem_faults = []\<rparr>),
     ho_open_file = (\<lambda>_. Inr (0, \<lambda>_. 0)), ho_exists = (\<lambda>_. False), ho_home = None\<rparr>"

definition built :: "((mem_db, mem_txn, lru_list) server \<times> rawdisk) vfs FsResult" where
  "built = build_client mem_rocks list_lru sample_host [] (\<lambda>_. Full) (lit ''/data'') 64 0 0 (\<lambda>n. of_nat (100 + n)) (\<lambda>_. 200)"

lemma sample_host_files: "ho_create_dir_all sample_host path = Inr ()" "ho_open_file sample_host path = Inr (0, \<lambda>_. 0)"
  by (simp_all add: sample_host_def)

lemma expect_fs_ok: "expect_fs q (Ok a) = Ok a"
  by (simp add: expect_fs_def)

lemma sample_opens: "open_rocks_db (ho_open_db sample_host) path = Ok (kv_db empty_kv)"
  by (simp add: open_rocks_db_def sample_host_def empty_kv_def)

definition built_server :: "(mem_db, mem_txn, lru_list) server" where
  "built_server = started\<lparr>cw_cache := replicate 16 (625, []), sv_default_loc := \<lparr>server_id = lit ''default''\<rparr>\<rparr>"

lemma built_state:
  assumes "built = Ok v"
  shows "fst (vc_env v) = built_server"
proof -
  have kv: "delta_store_new mem_rocks empty_kv = (Ok (), empty_kv)"
    by (simp add: delta_store_new_def recover_seqs_def empty_kv_def need_cf_def iter_db_def lift_def modify_def ignore_def
        bind_def ret_def mem_rocks_def mem_scan_def)
  have c: "cache_new list_lru DEFAULT_CACHE_CAPACITY = Ok (replicate 16 (625, []))"
    by (simp add: cache_new_def DEFAULT_CACHE_CAPACITY_def NUM_SHARDS_def list_lru_def map_replicate_const)
  have stores: "stores_new [] (kv_db empty_kv) = empty_kv" by (simp add: stores_new_def empty_kv_def)
  have built: "then_do (expect_fs ''failed to open RawDisk data store'' (rawdisk_open (Inr (0, \<lambda>_. 0)) (\<lambda>_. Full) 64)) (\<lambda>disk.
      then_do (server_new mem_rocks list_lru \<lparr>server_id = lit ''default''\<rparr> 0 0 (\<lambda>n. of_nat (100 + n)) empty_kv) (\<lambda>server.
      Ok (embedded_new (beside_data (MetadataServer mem_rocks list_lru)) (beside_meta (DataServer RawDiskDataStore)) (server, disk)
        (\<lambda>_. 200)))) = Ok v"
    using assms by (simp add: built_def build_client_def Let_def sample_opens expect_def sample_host_files expect_fs_ok stores kv)
  then show ?thesis using c
    by (auto simp: expect_fs_def rawdisk_open_def server_new_def with_config_def built_server_def
        embedded_new_def vfs_new_def started_def empty_kv_def alloc_load_def init_root_def meta_get_def meta_put_def
        need_cf_def call_db_def match_op_def now_secs_def ignore_def mem_rocks_def mem_view_def mem_set_def bind_def
        ret_def Let_def ROOT_INODE_def S_IFDIR_def)
qed

lemma built_ok: "\<exists>v. built = Ok v"
proof -
  from build_client_run [OF mem.rocksdb_axioms sample_opens empty_kv_simps(1)]
  obtain s where run: "build_client mem_rocks list_lru sample_host [] (\<lambda>_. Full) (lit ''/data'') 64 0 0 (\<lambda>n. of_nat (100 + n)) (\<lambda>_. 200) =
      then_do (expect ''failed to create data directory'' (ho_create_dir_all sample_host (lit ''/data''))) (\<lambda>_.
      then_do (expect_fs ''failed to open RawDisk data store''
          (rawdisk_open (ho_open_file sample_host (path_join (lit ''/data'') (lit ''data.raw''))) (\<lambda>_. Full) 64))
        (\<lambda>d. Ok (embedded_new (beside_data (MetadataServer mem_rocks list_lru)) (beside_meta (DataServer RawDiskDataStore)) (s, d) (\<lambda>_. 200))))"
    by metis
  show ?thesis unfolding built_def run by (simp add: sample_host_files expect_def expect_fs_def rawdisk_open_def)
qed

lemma built_root:
  assumes "built = Ok v"
  shows "stored (mem_view (kv_db (fst (vc_env v)))) ROOT_INODE \<noteq> None"
  using started_root unfolding built_state [OF assms]
  by (auto simp: built_server_def dir_at_def ROOT_INODE_def split: option.splits)

theorem build_client_ready_witness:
  "\<exists>v. built = Ok v \<and> ready 12 mem_rocks list_lru mem_view list_entries v"
proof -
  from build_client_ready [OF mem.rocksdb_axioms list_lru.lru_cache_axioms sample_opens empty_kv_simps(1) _ built_def [symmetric], of 12]
  show ?thesis using built_root by (auto simp: sample_host_def)
qed

end
