(* ===== verification/Fuse_System.thy ===== *)
theory Fuse_System
  imports Demo Server_Budget
begin

unbundle bit_operations_syntax

text \<open>
  The mounted file system as one system: the kernel's calls, the FUSE handlers, the router, the
  metadata server and the data server on its disk, wired as the embedded client wires them.
  \<open>serve_call\<close> runs the handler of one call and drops its reply; a background task that a release has left
  is an event of its own, so that it can run at any later moment.

  Each call is shown to be a short, fixed sequence of requests to the metadata server
  (\<open>client_requests\<close>) and to change no file data but that of the inode it names. With the bounds on what
  requests spend, the reachable states of the mounted file system are reachable states of the server.
\<close>

section \<open>Calls\<close>

datatype kcall =
    KInit
  | KLookup u64 bytes
  | KGetattr u64
  | KSetattr u64 SetAttr
  | KMkdir FuseRequest u64 bytes u32 u32
  | KCreate FuseRequest u64 bytes u32 u32
  | KMknod FuseRequest u64 bytes u32
  | KUnlink u64 bytes
  | KRmdir u64 bytes
  | KRename u64 bytes u64 bytes
  | KOpen u64 u32
  | KRead u64 u64 u32
  | KWrite u64 u64 bytes u32
  | KRelease u64
  | KSpawned u64
  | KFlush u64
  | KFsync u64 bool
  | KReaddir u64
  | KOpendir u64
  | KReleasedir u64
  | KReaddirplus u64 u64
  | KAccess u64 u32
  | KStatfs u64
  | KFallocate u64 u64 u64 u32
  | KLink u64 u64 bytes
  | KSymlink FuseRequest u64 bytes bytes
  | KReadlink u64

definition without_reply :: "('v, 'a) fuse_op \<Rightarrow> ('v, unit) fuse_op" where
  "without_reply f = bind f (\<lambda>_. ret ())"

fun serve_call :: "'v VfsOps \<Rightarrow> kcall \<Rightarrow> ('v, unit) fuse_op" where
  "serve_call V KInit = without_reply fuse_init"
| "serve_call V (KLookup p n) = without_reply (fuse_lookup V p n)"
| "serve_call V (KGetattr i) = without_reply (fuse_getattr V i)"
| "serve_call V (KSetattr i a) = without_reply (fuse_setattr V i a)"
| "serve_call V (KMkdir req p n mode umask) = without_reply (fuse_mkdir V req p n mode umask)"
| "serve_call V (KCreate req p n mode flags) = without_reply (fuse_create V req p n mode flags)"
| "serve_call V (KMknod req p n mode) = without_reply (fuse_mknod V req p n mode)"
| "serve_call V (KUnlink p n) = without_reply (fuse_unlink V p n)"
| "serve_call V (KRmdir p n) = without_reply (fuse_rmdir V p n)"
| "serve_call V (KRename p n p' n') = without_reply (fuse_rename V p n p' n')"
| "serve_call V (KOpen i flags) = without_reply (fuse_open V i flags)"
| "serve_call V (KRead i off sz) = without_reply (fuse_read V i off sz)"
| "serve_call V (KWrite i off bs flags) = without_reply (fuse_write V i off bs flags)"
| "serve_call V (KRelease i) = without_reply (fuse_release i)"
| "serve_call V (KSpawned i) = modify (run_spawned V i)"
| "serve_call V (KFlush i) = without_reply (fuse_flush V i)"
| "serve_call V (KFsync i datasync) = without_reply (fuse_fsync V i datasync)"
| "serve_call V (KReaddir p) = without_reply (fuse_readdir p)"
| "serve_call V (KOpendir i) = without_reply (fuse_opendir i)"
| "serve_call V (KReleasedir i) = without_reply (fuse_releasedir i)"
| "serve_call V (KReaddirplus p off) = without_reply (fuse_readdirplus V p off)"
| "serve_call V (KAccess i access_bits) = without_reply (fuse_access V i access_bits)"
| "serve_call V (KStatfs i) = without_reply (fuse_statfs V i)"
| "serve_call V (KFallocate i off len mode) = without_reply (fuse_fallocate V i off len mode)"
| "serve_call V (KLink i p n) = without_reply (fuse_link V i p n)"
| "serve_call V (KSymlink req p n target) = without_reply (fuse_symlink V req p n target)"
| "serve_call V (KReadlink i) = without_reply (fuse_readlink V i)"

section \<open>The requests behind a call\<close>

fun client_requests :: "kcall \<Rightarrow> request list set" where
  "client_requests (KLookup p n) = {[Lookup p (to_string_lossy n)]}"
| "client_requests (KGetattr i) = {[Getattr i]}"
| "client_requests (KSetattr i a) = {[Setattr i (setattr_request a)]}"
| "client_requests (KMkdir req p n mode umask) =
     {[Mkdir p (to_string_lossy n) (mode AND NOT umask AND 0xFFF) (fq_uid req) (fq_gid req)]}"
| "client_requests (KCreate req p n mode flags) =
     (let new = Create p (to_string_lossy n) (mode AND 0xFFF) (fq_uid req) (fq_gid req)
      in insert [new] (range (\<lambda>i. [new, Open i flags])))"
| "client_requests (KMknod req p n mode) =
     {[], [Create p (to_string_lossy n) (mode AND 0xFFF) (fq_uid req) (fq_gid req)]}"
| "client_requests (KUnlink p n) = {[Unlink p (to_string_lossy n)]}"
| "client_requests (KRmdir p n) = {[Rmdir p (to_string_lossy n)]}"
| "client_requests (KRename p n p' n') = {[Rename p (to_string_lossy n) p' (to_string_lossy n')]}"
| "client_requests (KOpen i flags) = {[Open i flags]}"
| "client_requests (KWrite i off bs flags) = insert [] (\<Union>e t. {[ReportWrite i e t]})"
| "client_requests (KSpawned i) = {[], [Release i]}"
| "client_requests (KReaddirplus p off) = {[Readdir p]}"
| "client_requests (KAccess i access_bits) = {[Getattr i]}"
| "client_requests (KStatfs i) = {[Statfs i]}"
| "client_requests (KFallocate i off len mode) = insert [] (insert [Getattr i] (range (\<lambda>a. [Getattr i, Setattr i a])))"
| "client_requests (KLink i p n) = {[Link p (to_string_lossy n) i]}"
| "client_requests (KSymlink req p n target) =
     {[Symlink p (to_string_lossy n) (to_string_lossy target) (fq_uid req) (fq_gid req)]}"
| "client_requests (KReadlink i) = {[Readlink i]}"
| "client_requests _ = {[]}"

text \<open>The inodes whose bytes a call may change.\<close>

fun data_targets :: "kcall \<Rightarrow> inode set" where
  "data_targets (KWrite i off bs flags) = {i}"
| "data_targets (KSetattr i a) = {i}"
| "data_targets (KFallocate i off len mode) = {i}"
| "data_targets _ = {}"

section \<open>What an operation of the client does to the services\<close>

definition wired ::
  "('db, 'txn) rocks \<Rightarrow> 'c lru \<Rightarrow> (('db, 'txn, 'c) server \<times> rawdisk) vfs \<Rightarrow> bool" where
  "wired R L v \<longleftrightarrow> vc_metadata v = beside_data (MetadataServer R L) \<and>
     vc_default_data v = beside_meta (DataServer RawDiskDataStore) \<and> vc_data_servers v = Map.empty"

lemma wired_resolve: "wired R L v \<Longrightarrow> resolve_data v i = beside_meta (DataServer RawDiskDataStore)"
  by (simp add: wired_def resolve_data_def split: option.split)

text \<open>Bytes outside \<open>T\<close> stay, provided the regions of \<open>T\<close> lie within the addresses a file can have.\<close>

definition keeps_data :: "inode set \<Rightarrow> rawdisk \<Rightarrow> rawdisk \<Rightarrow> bool" where
  "keeps_data T d d' \<longleftrightarrow> ((\<forall>i\<in>T. Suc (unat i) * disk_cap d \<le> 2 ^ 63) \<longrightarrow>
     max_file_size d' = max_file_size d \<and> (\<forall>j. j \<notin> T \<longrightarrow> disk_content d' j = disk_content d j))"

lemma keeps_data_refl [simp]: "keeps_data T d d"
  by (simp add: keeps_data_def)

lemma keeps_data_trans: "keeps_data T d d' \<Longrightarrow> keeps_data T d' d'' \<Longrightarrow> keeps_data T d d''"
  by (auto simp: keeps_data_def)

lemma keeps_data_mono: "keeps_data T d d' \<Longrightarrow> T \<subseteq> T' \<Longrightarrow> keeps_data T' d d'"
  by (auto simp: keeps_data_def)

text \<open>
  \<open>acts R L cl Q T f\<close>: seen through \<open>cl\<close> (the client inside a larger state), \<open>f\<close> sends one of the
  sequences of \<open>Q\<close> to the metadata server and changes the data of inodes of \<open>T\<close> only.
\<close>

definition acts ::
  "('db, 'txn) rocks \<Rightarrow> 'c lru \<Rightarrow> ('s \<Rightarrow> (('db, 'txn, 'c) server \<times> rawdisk) vfs) \<Rightarrow> request list set \<Rightarrow> inode set
   \<Rightarrow> ('s, 'e, 'a) op \<Rightarrow> bool" where
  "acts R L cl Q T f \<longleftrightarrow> (\<forall>s. wired R L (cl s) \<longrightarrow>
     wired R L (cl (snd (f s))) \<and>
     (\<exists>qs\<in>Q. fst (vc_env (cl (snd (f s)))) = handle_all R L qs (fst (vc_env (cl s)))) \<and>
     keeps_data T (snd (vc_env (cl s))) (snd (vc_env (cl (snd (f s))))))"

lemma actsI:
  assumes "\<And>s. wired R L (cl s) \<Longrightarrow> wired R L (cl (snd (f s))) \<and>
    (\<exists>qs\<in>Q. fst (vc_env (cl (snd (f s)))) = handle_all R L qs (fst (vc_env (cl s)))) \<and>
    keeps_data T (snd (vc_env (cl s))) (snd (vc_env (cl (snd (f s)))))"
  shows "acts R L cl Q T f"
  using assms by (auto simp: acts_def)

lemma acts_mono: "acts R L cl Q T f \<Longrightarrow> Q \<subseteq> Q' \<Longrightarrow> T \<subseteq> T' \<Longrightarrow> acts R L cl Q' T' f"
  unfolding acts_def by (meson keeps_data_mono subsetD)

lemma acts_idle:
  "(\<And>s. vc_env (cl (snd (f s))) = vc_env (cl s) \<and> wired R L (cl (snd (f s))) = wired R L (cl s)) \<Longrightarrow> acts R L cl {[]} {} f"
  by (simp add: acts_def)

lemma acts_bind:
  assumes "acts R L cl Q T f" and "\<And>a. acts R L cl Q' T (g a)"
  shows "acts R L cl (Q \<union> (\<Union>qs\<in>Q. \<Union>qs'\<in>Q'. {qs @ qs'})) T (bind f g)" (is "acts _ _ _ ?Q _ _")
proof (rule actsI)
  fix s
  assume w: "wired R L (cl s)"
  obtain r t where f: "f s = (r, t)" by fastforce
  from assms(1) w f obtain qs where qs: "wired R L (cl t)" "qs \<in> Q" "fst (vc_env (cl t)) = handle_all R L qs (fst (vc_env (cl s)))"
    "keeps_data T (snd (vc_env (cl s))) (snd (vc_env (cl t)))" unfolding acts_def by (metis snd_conv)
  show "wired R L (cl (snd (bind f g s))) \<and>
    (\<exists>qs\<in>?Q. fst (vc_env (cl (snd (bind f g s)))) = handle_all R L qs (fst (vc_env (cl s)))) \<and>
    keeps_data T (snd (vc_env (cl s))) (snd (vc_env (cl (snd (bind f g s)))))"
  proof (cases r)
    case (Ok a)
    with f have run: "bind f g s = g a t" by (simp add: bind_def)
    from assms(2) [of a] qs(1) obtain qs' where "wired R L (cl (snd (g a t)))" "qs' \<in> Q'"
      "fst (vc_env (cl (snd (g a t)))) = handle_all R L qs' (fst (vc_env (cl t)))"
      "keeps_data T (snd (vc_env (cl t))) (snd (vc_env (cl (snd (g a t)))))" unfolding acts_def by blast
    then show ?thesis unfolding run using qs
      by (intro conjI bexI [of _ "qs @ qs'"]) (auto simp: handle_all_append intro: keeps_data_trans)
  qed (use f qs in \<open>auto simp: bind_def\<close>)
qed

text \<open>Two parts, with the sequences and the inodes of the whole.\<close>

lemma acts_seq:
  assumes "acts R L cl Q1 T1 f" and "\<And>a. acts R L cl Q2 T2 (g a)" and "Q1 \<subseteq> Q" and "T1 \<subseteq> T" and "T2 \<subseteq> T"
    and "\<And>qs qs'. qs \<in> Q1 \<Longrightarrow> qs' \<in> Q2 \<Longrightarrow> qs @ qs' \<in> Q"
  shows "acts R L cl Q T (bind f g)"
  by (rule acts_mono [OF acts_bind [OF acts_mono [OF assms(1) order.refl assms(4)] acts_mono [OF assms(2) order.refl assms(5)]]])
    (use assms(3,6) in auto)

lemma acts_then_idle:
  assumes "acts R L cl Q T f" and "\<And>a s. vc_env (cl (snd (g a s))) = vc_env (cl s) \<and> wired R L (cl (snd (g a s))) = wired R L (cl s)"
  shows "acts R L cl Q T (bind f g)"
proof -
  have "acts R L cl {[]} {} (g a)" for a by (rule acts_idle) (rule assms(2))
  from acts_seq [OF assms(1) this, of Q T] show ?thesis by auto
qed

lemma acts_after_idle:
  assumes "\<And>s. vc_env (cl (snd (f s))) = vc_env (cl s) \<and> wired R L (cl (snd (f s))) = wired R L (cl s)"
    and "\<And>a. acts R L cl Q T (g a)" and "[] \<in> Q"
  shows "acts R L cl Q T (bind f g)"
proof -
  have "acts R L cl {[]} {} f" by (rule acts_idle) (rule assms(1))
  from acts_seq [OF this assms(2), of Q T] assms(3) show ?thesis by auto
qed

lemma wired_update [simp]: "wired R L (v\<lparr>vc_env := e\<rparr>) = wired R L v" "wired R L (v\<lparr>vc_handle_map := h\<rparr>) = wired R L v"
  "wired R L (v\<lparr>vc_written_inodes := w\<rparr>) = wired R L v" "wired R L (v\<lparr>vc_ticks := n\<rparr>) = wired R L v"
  by (simp_all add: wired_def)

lemma snd_forget [simp]: "snd (forget f s) = snd (f s)"
  by (simp add: forget_def bind_def ret_def split: prod.split outcome.split)

lemma acts_via_meta:
  assumes "f (beside_data (MetadataServer R L)) = on_meta g" and "\<And>s. snd (handle R L q s) = snd (g s)"
  shows "acts R L id {[q]} {} (via_meta f)"
proof (rule actsI)
  fix v
  assume "wired R L (id v)"
  then have "via_meta f v = call (on_meta g) v" using assms(1) by (simp add: via_meta_def wired_def)
  with \<open>wired R L (id v)\<close> show "wired R L (id (snd (via_meta f v))) \<and>
    (\<exists>qs\<in>{[q]}. fst (vc_env (id (snd (via_meta f v)))) = handle_all R L qs (fst (vc_env (id v)))) \<and>
    keeps_data {} (snd (vc_env (id v))) (snd (vc_env (id (snd (via_meta f v)))))"
    by (simp add: call_def on_meta_def assms(2) split: prod.split)
qed

lemma acts_via_data:
  assumes "f (beside_meta (DataServer RawDiskDataStore)) = on_data g" and "\<And>d. keeps_data T d (snd (g d))"
  shows "acts R L id {[]} T (via_data i f)"
proof (rule actsI)
  fix v
  assume "wired R L (id v)"
  then have "via_data i f v = call (on_data g) v" using assms(1) by (simp add: via_data_def wired_resolve)
  with \<open>wired R L (id v)\<close> show "wired R L (id (snd (via_data i f v))) \<and>
    (\<exists>qs\<in>{[]}. fst (vc_env (id (snd (via_data i f v)))) = handle_all R L qs (fst (vc_env (id v)))) \<and>
    keeps_data T (snd (vc_env (id v))) (snd (vc_env (id (snd (via_data i f v)))))"
    using assms(2) [of "snd (vc_env v)"] by (simp add: call_def on_data_def split: prod.split prod.split_asm)
qed

section \<open>The data server\<close>

lemma disk_content_same: "rd_data d' = rd_data d \<Longrightarrow> rd_len d' = rd_len d \<Longrightarrow> max_file_size d' = max_file_size d \<Longrightarrow>
    disk_content d' = disk_content d"
  by (simp add: disk_content_def file_byte_def fun_eq_iff)

lemma keeps_data_tick: "keeps_data T d (tick_io d)"
  by (auto simp: keeps_data_def tick_io_def intro!: fun_cong [OF disk_content_same])

lemma keeps_data_read: "keeps_data T d (snd (read_at i off sz d))"
  using keeps_data_tick
  by (auto simp: read_at_def bind_def gets_def lift_def Let_def ret_def file_read_at_def split: outcome.split io_event.split)

lemma keeps_data_flush: "keeps_data T d (snd (flush i d))"
  using keeps_data_tick by (auto simp: flush_def file_sync_data_def split: io_event.split)

lemma keeps_data_write: "keeps_data {i} d (snd (write_at i off bs d))"
  using wpD [OF wp_write_at surjective_pairing, of i off bs d] by (auto simp: keeps_data_def intro!: disk_content_other)

lemma keeps_data_truncate: "keeps_data {i} d (snd (truncate_op i sz d))"
  using wpD [OF wp_truncate_op surjective_pairing, of i d sz] by (auto simp: keeps_data_def intro!: disk_content_other)

lemma acts_data:
  "acts R L id {[]} {} (vfs_read i off sz)" "acts R L id {[]} {} (via_data i (\<lambda>ds. do_flush ds i))"
  "acts R L id {[]} {i} (via_data i (\<lambda>ds. do_write_data ds i off bs))" "acts R L id {[]} {i} (via_data i (\<lambda>ds. do_truncate ds i n))"
  unfolding vfs_read_def
  by (rule acts_via_data, simp add: beside_meta_def DataServer_def RawDiskDataStore_def,
      rule keeps_data_read keeps_data_flush keeps_data_write keeps_data_truncate)+

section \<open>The router\<close>

lemma acts_delete_purged:
  assumes "acts R L id Q T f"
  shows "acts R L id Q T (bind f (\<lambda>a. delete_purged (ps a)))"
proof (rule acts_mono [OF acts_bind [OF assms, of "{[]}"]])
  show "acts R L id {[]} T (delete_purged (ps a))" for a
  proof (rule actsI)
    fix v
    assume w: "wired R L (id v)"
    have "delete_purged (ps a) v = (Ok (), v)" by (rule delete_purged_embedded) (use wired_resolve [of R L v] w in simp)
    with w show "wired R L (id (snd (delete_purged (ps a) v))) \<and>
      (\<exists>qs\<in>{[]}. fst (vc_env (id (snd (delete_purged (ps a) v)))) = handle_all R L qs (fst (vc_env (id v)))) \<and>
      keeps_data T (snd (vc_env (id v))) (snd (vc_env (id (snd (delete_purged (ps a) v)))))" by simp
  qed
qed auto

lemma acts_meta_calls:
  "acts R L id {[Lookup p n]} {} (vo_lookup EmbeddedClient p n)" "acts R L id {[Getattr i]} {} (vo_getattr EmbeddedClient i)"
  "acts R L id {[Readdir i]} {} (vo_readdir EmbeddedClient i)" "acts R L id {[Create p n mode uid gid]} {} (vo_create EmbeddedClient p n mode uid gid)"
  "acts R L id {[Mkdir p n mode uid gid]} {} (vo_mkdir EmbeddedClient p n mode uid gid)" "acts R L id {[Rmdir p n]} {} (vo_rmdir EmbeddedClient p n)"
  "acts R L id {[Statfs i]} {} (vo_statfs EmbeddedClient i)" "acts R L id {[Link p n i]} {} (vo_link EmbeddedClient p n i)"
  "acts R L id {[Symlink p n target uid gid]} {} (vo_symlink EmbeddedClient p n target uid gid)"
  "acts R L id {[Readlink i]} {} (vo_readlink EmbeddedClient i)"
  "acts R L id {[Unlink p n]} {} (via_meta (\<lambda>m. mo_unlink m p n))" "acts R L id {[Rename p n p' n']} {} (via_meta (\<lambda>m. mo_rename m p n p' n'))"
  "acts R L id {[Setattr i req]} {} (via_meta (\<lambda>m. mo_setattr m i req))" "acts R L id {[Open i flags]} {} (via_meta (\<lambda>m. mo_open m i flags))"
  "acts R L id {[ReportWrite i e t]} {} (via_meta (\<lambda>m. mo_report_write m i e t))" "acts R L id {[Release i]} {} (via_meta (\<lambda>m. mo_release m i))"
  unfolding EmbeddedClient_def VfsCore_def
  by (simp_all, (rule acts_via_meta; simp add: beside_data_def MetadataServer_def)+)

lemma acts_calls:
  "acts R L id {[Unlink p n]} {} (vo_unlink EmbeddedClient p n)" "acts R L id {[Rename p n p' n']} {} (vo_rename EmbeddedClient p n p' n')"
  "acts R L id {[]} {} (vo_read EmbeddedClient i off sz)" "acts R L id {[]} {} (vo_fsync EmbeddedClient i datasync)"
  unfolding EmbeddedClient_def VfsCore_def
  by (simp_all add: vfs_unlink_def vfs_rename_def vfs_fsync_def acts_delete_purged acts_meta_calls acts_data)

lemma acts_open: "acts R L id {[Open i flags]} {} (vo_open EmbeddedClient i flags)"
  unfolding EmbeddedClient_def VfsCore_def
  by (simp add: vfs_open_def, rule acts_then_idle [OF acts_meta_calls(14)]) (simp add: bind_def modify_def ret_def)

lemma acts_release: "acts R L id {[Release i]} {} (vo_release EmbeddedClient i)"
  unfolding EmbeddedClient_def VfsCore_def
  by (simp add: vfs_release_def flip: bind_assoc, rule acts_then_idle [OF acts_delete_purged [OF acts_meta_calls(16)]])
    (simp add: modify_def)

lemma acts_setattr: "acts R L id {[Setattr i req]} {i} (vo_setattr EmbeddedClient i req)"
proof -
  have "acts R L id {[]} {i} (case sr_needs_truncate resp of Some sz \<Rightarrow> via_data i (\<lambda>ds. do_truncate ds i sz) | None \<Rightarrow> ret ())" for resp
    by (auto split: option.split intro: acts_data acts_mono [OF acts_idle] simp: ret_def)
  then show ?thesis unfolding EmbeddedClient_def VfsCore_def
    by (simp add: vfs_setattr_def, intro acts_seq [OF acts_meta_calls(13) acts_then_idle]) (auto simp: ret_def)
qed

lemma acts_flush: "acts R L id {[]} {} (vo_flush EmbeddedClient i)"
proof -
  have "acts R L id {[]} {} (if b then ret () else via_data i (\<lambda>ds. do_flush ds i))" for b
    by (auto intro: acts_data acts_idle simp: ret_def)
  then show ?thesis unfolding EmbeddedClient_def VfsCore_def
    by (simp add: vfs_flush_def, intro acts_after_idle) (auto simp: gets_def modify_def)
qed

lemma acts_write: "acts R L id (insert [] (\<Union>e t. {[ReportWrite i e t]})) {i} (vo_write EmbeddedClient i off bs flags)"
proof -
  let ?Q = "insert [] (\<Union>e t. {[ReportWrite i e t]})"
  have rep: "acts R L id {[ReportWrite i e t]} {} (bind (via_meta (\<lambda>m. mo_report_write m i e t)) (\<lambda>_.
      bind (modify (\<lambda>v. v\<lparr>vc_written_inodes := insert i (vc_written_inodes v)\<rparr>)) (\<lambda>_. ret written)))" for e t written
    by (rule acts_then_idle [OF acts_meta_calls(15)]) (simp add: bind_def modify_def ret_def)
  have rest: "acts R L id ?Q {} (bind vfs_now_secs (\<lambda>ts. bind (via_meta (\<lambda>m. mo_report_write m i e ts)) (\<lambda>_.
      bind (modify (\<lambda>v. v\<lparr>vc_written_inodes := insert i (vc_written_inodes v)\<rparr>)) (\<lambda>_. ret written))))" for e written
    by (rule acts_after_idle [OF _ acts_mono [OF rep]]) (auto simp: vfs_now_secs_def)
  show ?thesis unfolding EmbeddedClient_def VfsCore_def
    by (simp add: vfs_write_def Let_def, rule acts_seq [OF acts_data(3) rest]) auto
qed

lemma acts_create_and_open:
  "acts R L id (insert [Create p n mode uid gid] (range (\<lambda>i. [Create p n mode uid gid, Open i flags]))) {}
     (vo_create_and_open EmbeddedClient p n mode uid gid flags)"
proof -
  have "acts R L id (range (\<lambda>i. [Open i flags])) {} (bind (vo_open EmbeddedClient (fa_inode a) flags) (\<lambda>fh. ret (a, fh)))" for a
    by (rule acts_mono [OF acts_then_idle [OF acts_open]]) (auto simp: ret_def)
  then have "acts R L id (insert [Create p n mode uid gid] (range (\<lambda>i. [Create p n mode uid gid, Open i flags]))) {}
     (bind (vo_create EmbeddedClient p n mode uid gid) (\<lambda>a. bind (vo_open EmbeddedClient (fa_inode a) flags) (\<lambda>fh. ret (a, fh))))"
    by (intro acts_seq [OF acts_meta_calls(4)]) auto
  then show ?thesis by (simp add: EmbeddedClient_def default_vfs_create_and_open_def)
qed

section \<open>The handlers\<close>

lemma acts_on_client: "acts R L id Q T f \<Longrightarrow> acts R L fu_client Q T (on_client f)"
proof (rule actsI)
  fix s :: "(('a, 'b, 'c) server \<times> rawdisk) vfs fuse"
  assume f: "acts R L id Q T f" and w: "wired R L (fu_client s)"
  have "fu_client (snd (on_client f s)) = snd (f (fu_client s))"
    by (simp add: on_client_def split: prod.split outcome.split)
  with f w show "wired R L (fu_client (snd (on_client f s))) \<and>
      (\<exists>qs\<in>Q. fst (vc_env (fu_client (snd (on_client f s)))) = handle_all R L qs (fst (vc_env (fu_client s)))) \<and>
      keeps_data T (snd (vc_env (fu_client s))) (snd (vc_env (fu_client (snd (on_client f s)))))"
    by (simp add: acts_def)
qed

lemma snd_bind_ret [simp]: "snd (bind f (\<lambda>a. ret (h a)) t) = snd (f t)"
  by (simp add: bind_def ret_def split: prod.split outcome.split)

lemma snd_attr [simp]: "snd (to_fuse3_attr a s) = s"
  by (simp add: to_fuse3_attr_def Let_def bind_def lift_def secs_to_systime_def ret_def)

lemma snd_ret [simp]: "snd (ret b t) = t"
  by (simp add: ret_def)

lemma snd_throw [simp]: "snd (throw e t) = t"
  by (simp add: throw_def)

lemma replies_idle [simp]: "snd (entry_reply a t) = t" "snd (attr_reply a t) = t"
  by (simp_all add: entry_reply_def attr_reply_def)

lemma acts_without_reply: "acts R L fu_client Q T f \<Longrightarrow> acts R L fu_client Q T (without_reply f)"
  unfolding without_reply_def by (rule acts_then_idle) simp_all

lemma acts_reply: "acts R L id Q T f \<Longrightarrow> (\<And>a s. snd (g a s) = s) \<Longrightarrow> acts R L fu_client Q T (without_reply (bind (on_client f) g))"
  by (intro acts_without_reply acts_then_idle acts_on_client) simp_all

lemma acts_no_call: "(\<And>s. fu_client (snd (f s)) = fu_client s) \<Longrightarrow> acts R L fu_client {[]} {} (without_reply f)"
  by (intro acts_without_reply acts_idle) simp

lemma acts_fallocate:
  "acts R L fu_client (insert [] (insert [Getattr i] (range (\<lambda>a. [Getattr i, Setattr i a])))) {i} (without_reply (fuse_fallocate EmbeddedClient i off len mode))"
proof -
  let ?Q = "insert [] (insert [Getattr i] (range (\<lambda>a. [Getattr i, Setattr i a])))"
  have set: "acts R L fu_client (insert [] (range (\<lambda>a. [Setattr i a]))) {i}
      (if b then bind (on_client (vo_setattr EmbeddedClient i req)) (\<lambda>_. ret ()) else ret ())" for b req
  proof (cases b)
    case True
    have "acts R L fu_client {[Setattr i req]} {i} (bind (on_client (vo_setattr EmbeddedClient i req)) (\<lambda>_. ret ()))"
      by (rule acts_then_idle [OF acts_on_client [OF acts_setattr]]) simp
    then show ?thesis using True by (auto elim: acts_mono)
  next
    case False
    have "acts R L fu_client {[]} {} (ret () :: (_, unit) fuse_op)" by (rule acts_idle) simp
    then show ?thesis using False by (auto elim: acts_mono)
  qed
  have "acts R L fu_client ?Q {i} (bind (on_client (vo_getattr EmbeddedClient i)) (\<lambda>attr.
      if c attr then bind (on_client (vo_setattr EmbeddedClient i req)) (\<lambda>_. ret ()) else ret ()))" for c req
    by (rule acts_seq [OF acts_on_client [OF acts_meta_calls(2)] set]) auto
  then show ?thesis unfolding fuse_fallocate_def Let_def
    by (intro acts_without_reply) (auto intro!: acts_mono [OF acts_idle])
qed

lemma acts_spawned: "acts R L fu_client {[], [Release i]} {} (modify (run_spawned EmbeddedClient i))"
proof (rule actsI)
  fix s :: "(('a, 'b, 'c) server \<times> rawdisk) vfs fuse"
  assume w: "wired R L (fu_client s)"
  show "wired R L (fu_client (snd (modify (run_spawned EmbeddedClient i) s))) \<and>
      (\<exists>qs\<in>{[], [Release i]}. fst (vc_env (fu_client (snd (modify (run_spawned EmbeddedClient i) s)))) =
         handle_all R L qs (fst (vc_env (fu_client s)))) \<and>
      keeps_data {} (snd (vc_env (fu_client s))) (snd (vc_env (fu_client (snd (modify (run_spawned EmbeddedClient i) s)))))"
    using acts_release [of R L i] w by (auto simp: acts_def modify_def run_spawned_def)
qed

text \<open>Every call: the requests it makes, and the data it can touch.\<close>

lemma serve_call_acts: "acts R L fu_client (client_requests k) (data_targets k) (serve_call EmbeddedClient k)"
proof (cases k)
  case (KMknod req p n mode)
  then show ?thesis
    by (auto simp: fuse_mknod_def Let_def intro!: acts_mono [OF acts_no_call] acts_mono [OF acts_reply [OF acts_meta_calls(4)]])
next
  case (KCreate req p n mode flags)
  have "acts R L fu_client (client_requests k) {} (without_reply (bind (on_client (vo_create_and_open EmbeddedClient p (to_string_lossy n)
      (mode AND 0xFFF) (fq_uid req) (fq_gid req) flags)) g))" if "\<And>a s. snd (g a s) = s" for g :: "_ \<Rightarrow> (_, ReplyCreated) fuse_op"
    unfolding KCreate client_requests.simps Let_def by (rule acts_reply [OF acts_create_and_open that])
  then show ?thesis unfolding KCreate by (simp add: fuse_create_def Let_def case_prod_beta)
qed (auto simp: fuse_init_def fuse_lookup_def fuse_getattr_def fuse_setattr_def fuse_mkdir_def fuse_unlink_def fuse_rmdir_def
    fuse_rename_def fuse_open_def fuse_read_def fuse_write_def fuse_release_def fuse_flush_def fuse_fsync_def fuse_readdir_def
    fuse_opendir_def fuse_releasedir_def fuse_readdirplus_def fuse_access_def fuse_statfs_def fuse_link_def fuse_symlink_def
    fuse_readlink_def modify_def Let_def
    intro!: acts_fallocate acts_spawned acts_reply acts_without_reply [OF acts_on_client] acts_meta_calls acts_calls acts_open acts_setattr
      acts_flush acts_write intro: acts_no_call)

section \<open>The reachable states of a mounted file system\<close>

text \<open>
  What the kernel guarantees: it enters names into directories it has looked up and that still exist,
  and it links only inodes that have a name left and links to spare.
\<close>

fun kernel_ok :: "('db \<Rightarrow> view) \<Rightarrow> kcall \<Rightarrow> ('db, 'txn, 'c, 'z) server_scheme \<Rightarrow> bool" where
  "kernel_ok view (KMkdir req p n mode umask) s = dir_at (stored (view (kv_db s))) p"
| "kernel_ok view (KCreate req p n mode flags) s = dir_at (stored (view (kv_db s))) p"
| "kernel_ok view (KMknod req p n mode) s = dir_at (stored (view (kv_db s))) p"
| "kernel_ok view (KSymlink req p n target) s = dir_at (stored (view (kv_db s))) p"
| "kernel_ok view (KRename p n p' n') s = dir_at (stored (view (kv_db s))) p'"
| "kernel_ok view (KLink i p n) s = (i \<notin> sv_pending_deletes s \<and>
     (case stored (view (kv_db s)) i of None \<Rightarrow> True | Some iv \<Rightarrow> iv_nlink iv + 1 \<noteq> 0))"
| "kernel_ok view _ s = True"

text \<open>The state after \<open>n\<close> calls and background tasks, on a file system mounted over an empty database.\<close>

inductive mounted ::
  "('db, 'txn) rocks \<Rightarrow> 'c lru \<Rightarrow> ('db \<Rightarrow> view) \<Rightarrow> nat \<Rightarrow> (('db, 'txn, 'c) server \<times> rawdisk) vfs fuse \<Rightarrow> bool" for R L view where
  mount: "build_client R L H idle io dir mfs uid gid clock clock' = Ok v \<Longrightarrow>
     open_rocks_db (ho_open_db H) (path_join dir (lit ''metadata.db'')) = Ok db \<Longrightarrow> view db = (\<lambda>_ _. None) \<Longrightarrow>
     stored (view (kv_db (fst (vc_env v)))) ROOT_INODE \<noteq> None \<Longrightarrow> mounted R L view 0 (FuseClient_new v)"
| call: "mounted R L view n s \<Longrightarrow> kernel_ok view k (fst (vc_env (fu_client s))) \<Longrightarrow>
     serve_call EmbeddedClient k s = (r, s') \<Longrightarrow> mounted R L view (Suc n) s'"

lemma requests_short: "qs \<in> client_requests k \<Longrightarrow> length qs \<le> 2"
  by (cases k) (auto simp: Let_def)

lemma requests_admissible:
  fixes s :: "('db, 'txn, 'c) server"
  assumes "qs \<in> client_requests k" and "kernel_ok view k s"
  shows "(qs \<noteq> [] \<longrightarrow> admissible view (hd qs) s) \<and> (\<forall>q\<in>set (tl qs). \<forall>t :: ('db, 'txn, 'c) server. admissible view q t)"
  using assms by (cases k) (auto simp: Let_def)

lemma after_requests_free:
  fixes s :: "('db, 'txn, 'c) server"
  assumes "after_requests R L view n s" and "\<forall>q\<in>set qs. \<forall>t :: ('db, 'txn, 'c) server. admissible view q t"
  shows "after_requests R L view (n + length qs) (handle_all R L qs s)"
  using assms
proof (induction qs arbitrary: n s)
  case (Cons q qs)
  have "after_requests R L view (Suc n) (snd (handle R L q s))"
    by (rule after_requests.request [OF Cons.prems(1) _ prod.collapse [symmetric]]) (use Cons.prems(2) in simp)
  from Cons.IH [OF this] Cons.prems(2) show ?case by simp
qed simp

lemma after_requests_calls:
  assumes "after_requests R L view n s" and "qs \<in> client_requests k" and "kernel_ok view k s"
  shows "after_requests R L view (n + length qs) (handle_all R L qs s)"
proof (cases qs)
  case (Cons q rest)
  have "after_requests R L view (Suc n) (snd (handle R L q s))"
    by (rule after_requests.request [OF assms(1) _ prod.collapse [symmetric]]) (use requests_admissible [OF assms(2,3)] Cons in simp)
  from after_requests_free [OF this, of rest] requests_admissible [OF assms(2,3)] Cons show ?thesis by simp
qed (use assms(1) in simp)

lemma mounted_requests:
  assumes "rocksdb R view pend" and "mounted R L view n s"
  shows "wired R L (fu_client s) \<and> (\<exists>m \<le> 2 * n. after_requests R L view m (fst (vc_env (fu_client s))))"
  using assms(2)
proof (induction rule: mounted.induct)
  case (mount H idle io dir mfs uid gid clock clock' v db)
  from build_client_run [OF assms(1) mount(2,3)] obtain kv1 s where kv1: "view (kv_db kv1) = (\<lambda>_ _. None)" "kv_seqs kv1 = (\<lambda>_. None)"
    and s: "server_new R L \<lparr>server_id = lit ''default''\<rparr> uid gid clock kv1 = Ok s"
    and run: "build_client R L H idle io dir mfs uid gid clock clock' =
      then_do (expect ''failed to create data directory'' (ho_create_dir_all H dir)) (\<lambda>_.
      then_do (expect_fs ''failed to open RawDisk data store'' (rawdisk_open (ho_open_file H (path_join dir (lit ''data.raw''))) io mfs))
        (\<lambda>d. Ok (embedded_new (beside_data (MetadataServer R L)) (beside_meta (DataServer RawDiskDataStore)) (s, d) clock')))"
    by blast
  from run mount(1) obtain d where v: "v = embedded_new (beside_data (MetadataServer R L)) (beside_meta (DataServer RawDiskDataStore)) (s, d) clock'"
    by (auto simp: expect_def expect_fs_def split: sum.splits outcome.splits)
  have "after_requests R L view 0 s"
    by (rule after_requests.start [where view = view, OF s [unfolded server_new_def] kv1]) (use mount(4) v in \<open>simp add: embedded_new_def vfs_new_def\<close>)
  then show ?case using v by (auto simp: FuseClient_new_def wired_def embedded_new_def vfs_new_def)
next
  case (call n s k r s')
  then obtain m where m: "wired R L (fu_client s)" "m \<le> 2 * n" "after_requests R L view m (fst (vc_env (fu_client s)))" by blast
  from serve_call_acts [of R L k] m(1) call(3) obtain qs where qs: "wired R L (fu_client s')" "qs \<in> client_requests k"
    "fst (vc_env (fu_client s')) = handle_all R L qs (fst (vc_env (fu_client s)))" unfolding acts_def by (metis snd_conv)
  from after_requests_calls [OF m(3) qs(2) call(2)] requests_short [OF qs(2)] m(2) qs show ?case
    by (intro conjI exI [of _ "m + length qs"]) auto
qed

lemma mounted_reachable:
  assumes "rocksdb R view pend" and "mounted R L view n s" and "n \<le> 2 ^ 57"
  shows "reachable R L view (fst (vc_env (fu_client s)))"
proof -
  from mounted_requests [OF assms(1,2)] obtain j where j: "j \<le> 2 * n" "after_requests R L view j (fst (vc_env (fu_client s)))" by blast
  have "21 * j \<le> 42 * 2 ^ 57" using j(1) assms(3) by linarith
  also have "\<dots> < (2 :: nat) ^ 63" by simp
  finally show ?thesis by (rule rocksdb.after_requests_reachable [OF assms(1) j(2)])
qed

section \<open>Properties\<close>

text \<open>
  C3. A call of the kernel to the mounted file system is at most two requests to the metadata server, the
  ones \<open>client_requests\<close> lists for it (only \<^verbatim>\<open>create\<close> and \<^verbatim>\<open>fallocate\<close> make two, a release makes its
  request in the background), whatever the call returns; and it changes no byte of any file but the one it
  writes, truncates or extends, whatever the disk does.
\<close>

theorem mounted_call_effects:
  assumes "wired R L (fu_client s)" and "serve_call EmbeddedClient k s = (r, s')"
  shows "wired R L (fu_client s') \<and>
    (\<exists>qs\<in>client_requests k. length qs \<le> 2 \<and> fst (vc_env (fu_client s')) = handle_all R L qs (fst (vc_env (fu_client s)))) \<and>
    ((\<forall>i\<in>data_targets k. Suc (unat i) * disk_cap (snd (vc_env (fu_client s))) \<le> 2 ^ 63) \<longrightarrow>
       (\<forall>j. j \<notin> data_targets k \<longrightarrow>
          disk_content (snd (vc_env (fu_client s'))) j = disk_content (snd (vc_env (fu_client s))) j))"
  using serve_call_acts [of R L k] assms requests_short [of _ k] unfolding acts_def keeps_data_def by (metis snd_conv)


text \<open>A directory made through FUSE on the client built over an empty in-memory database.\<close>

definition new_dir :: kcall where
  "new_dir = KMkdir \<lparr>fq_uid = 7, fq_gid = 8\<rparr> 1 [0x64] 0x1FF 0x12"

lemma built_dir: "dir_at (stored (mem_view (kv_db built_server))) 1"
  using started_root by (simp add: built_server_def)

lemma new_dir_made:
  "dirent (mem_view (kv_db (snd (handle mem_rocks list_lru (Mkdir 1 [0x64] 0x1ED 7 8) built_server)))) 1 [0x64] = Some (2, 0x41ED)"
  by code_simp

lemma new_dir_requests: "client_requests new_dir = {[Mkdir 1 [0x64] 0x1ED 7 8]}" "data_targets new_dir = {}"
proof -
  have "to_string_lossy [0x64] = [0x64]" "(0x1FF AND NOT 0x12 AND 0xFFF :: u32) = 0x1ED" by code_simp+
  then show "client_requests new_dir = {[Mkdir 1 [0x64] 0x1ED 7 8]}" by (simp add: new_dir_def)
qed (simp add: new_dir_def)

lemma built_wired: "built = Ok v \<Longrightarrow> wired mem_rocks list_lru (fu_client (FuseClient_new v))"
  "built = Ok v \<Longrightarrow> mounted mem_rocks list_lru mem_view 0 (FuseClient_new v)"
proof -
  assume v: "built = Ok v"
  show m: "mounted mem_rocks list_lru mem_view 0 (FuseClient_new v)"
    by (rule mounted.mount [OF v [unfolded built_def] sample_opens empty_kv_simps(1) built_root [OF v]])
  then show "wired mem_rocks list_lru (fu_client (FuseClient_new v))" using mounted_requests [OF mem.rocksdb_axioms] by blast
qed

lemma new_dir_served:
  assumes "built = Ok v"
  shows "kernel_ok mem_view new_dir (fst (vc_env (fu_client (FuseClient_new v))))"
    and "dirent (mem_view (kv_db (fst (vc_env (fu_client (snd (serve_call EmbeddedClient new_dir (FuseClient_new v)))))))) 1 [0x64]
      = Some (2, 0x41ED)"
proof -
  show "kernel_ok mem_view new_dir (fst (vc_env (fu_client (FuseClient_new v))))"
    using built_dir built_state [OF assms] by (simp add: new_dir_def FuseClient_new_def)
  from serve_call_acts [of mem_rocks list_lru new_dir] built_wired(1) [OF assms]
  have "fst (vc_env (fu_client (snd (serve_call EmbeddedClient new_dir (FuseClient_new v))))) =
      handle_all mem_rocks list_lru [Mkdir 1 [0x64] 0x1ED 7 8] (fst (vc_env v))"
    unfolding acts_def new_dir_requests by (metis FuseClient_new_def fuse.select_convs(1) singletonD)
  then show "dirent (mem_view (kv_db (fst (vc_env (fu_client (snd (serve_call EmbeddedClient new_dir (FuseClient_new v)))))))) 1 [0x64]
      = Some (2, 0x41ED)"
    using new_dir_made built_state [OF assms] by simp
qed

theorem mounted_call_effects_witness:
  "\<exists>v r s'. built = Ok v \<and> serve_call EmbeddedClient new_dir (FuseClient_new v) = (r, s') \<and>
     dirent (mem_view (kv_db (fst (vc_env (fu_client s'))))) 1 [0x64] = Some (2, 0x41ED) \<and>
     disk_content (snd (vc_env (fu_client s'))) = disk_content (snd (vc_env v))"
proof -
  obtain v where v: "built = Ok v" using built_ok by blast
  obtain r s' where run: "serve_call EmbeddedClient new_dir (FuseClient_new v) = (r, s')" by fastforce
  from mounted_call_effects [OF built_wired(1) [OF v] run] show ?thesis
    using v run new_dir_made built_state [OF v] by (auto simp: new_dir_requests FuseClient_new_def fun_eq_iff)
qed


end
