(* ===== verification/Programs.thy ===== *)
theory Programs
  imports Fuse_System
begin

text \<open>
  The executables of \<^verbatim>\<open>src/demo/src\<close> and the mounting of \<^verbatim>\<open>src/client/src/fuse.rs\<close>: how the components are
  put together from a command line. The command-line parser, the operating system (\<open>host\<close>), the FUSE
  session and the gRPC transport are parameters. The Linux build is modelled; on other systems mounting is not
  implemented. In the outcome of a program, \<open>Err c\<close> is the end of the process with exit code \<open>c\<close>; what a
  program prints is modelled where it returns normally.

  The contract \<open>fuse_session\<close> is what the programs rely on of the FUSE library: until the session ends it
  only calls the handlers, on requests the kernel may make.
\<close>

section \<open>Mounting\<close>

record MountOptions =
  mt_fs_name :: str
  mt_force_readdir_plus :: bool
  mt_allow_other :: bool
  mt_default_permissions :: bool

text \<open>
  A FUSE session: mounting the handlers at a path, waiting for the interrupt while the session serves, and
  unmounting.
\<close>

record 'v session =
  se_mount_with_unprivileged :: "MountOptions \<Rightarrow> str \<Rightarrow> 'v fuse \<Rightarrow> (string + unit) \<times> 'v fuse"
  se_ctrl_c :: "'v fuse \<Rightarrow> (string + unit) \<times> 'v fuse"
  se_unmount :: "'v fuse \<Rightarrow> (string + unit) \<times> 'v fuse"

definition mount_fuse :: "'v session \<Rightarrow> str \<Rightarrow> 'v \<Rightarrow> unit FsResult \<times> 'v fuse" where
  "mount_fuse S mountpoint client =
     (let fs = FuseClient_new client;
          mount_options = \<lparr>mt_fs_name = lit ''rucksfs'', mt_force_readdir_plus = True, mt_allow_other = True,
            mt_default_permissions = True\<rparr> in
      bind (lib_call (\<lambda>e. Io (''FUSE mount failed: '' @ e)) (se_mount_with_unprivileged S mount_options mountpoint)) (\<lambda>_.
      bind (lib_call (\<lambda>e. Io (''signal handler failed: '' @ e)) (se_ctrl_c S)) (\<lambda>_.
      lib_call (\<lambda>e. Io (''unmount failed: '' @ e)) (se_unmount S))) fs)"

section \<open>The stand-alone program\<close>

record Cli =
  cli_interactive :: bool
  cli_mount :: "str option"
  cli_data_dir :: "str option"
  cli_fsck :: bool
  cli_max_file_size :: u64

definition resolve_data_dir :: "'db host \<Rightarrow> Cli \<Rightarrow> (int, str) outcome" where
  "resolve_data_dir H cli =
     (case cli_data_dir cli of
        Some dir \<Rightarrow> Ok dir
      | None \<Rightarrow> (case ho_home H of
                  None \<Rightarrow> Err 1
                | Some home \<Rightarrow> Ok (path_join home (lit ''.rucksfs''))))"

text \<open>The characters of the banners, and \<^verbatim>\<open>Path::display\<close>.\<close>

definition box :: "u8 \<Rightarrow> str" where
  "box k = [0xE2, 0x95, k]"

definition banner :: "string \<Rightarrow> chunk list" where
  "banner title =
     [println (box 0x94 @ concat (replicate 54 (box 0x90)) @ box 0x97),
      println (box 0x91 @ lit ''         RucksFS '' @ [0xE2, 0x80, 0x94] @ lit '' '' @ lit title @ box 0x91),
      println (box 0x9A @ concat (replicate 54 (box 0x90)) @ box 0x9D),
      println []]"

definition arrow :: str where
  "arrow = [0xE2, 0x96, 0xB6]"

definition storage_line :: "str \<Rightarrow> chunk" where
  "storage_line data_dir = println (arrow @ lit '' Using persistent storage at: '' @ to_string_lossy data_dir)"

text \<open>
  The environment of a run: the libraries, the operating system, the schedule of the disk, the caller's
  identity and the readings of the clocks.
\<close>

record ('db, 'txn, 'c) setting =
  st_rocks :: "('db, 'txn) rocks"
  st_lru :: "'c lru"
  st_host :: "'db host"
  st_idle :: 'txn
  st_io :: "nat \<Rightarrow> io_event"
  st_uid :: u32
  st_gid :: u32
  st_server_clock :: "nat \<Rightarrow> u64"
  st_client_clock :: "nat \<Rightarrow> u64"

section \<open>The fsck mode\<close>

fun kind_text :: "FsckIssueKind \<Rightarrow> string" where
  "kind_text OrphanInode = ''OrphanInode''"
| "kind_text NlinkMismatch = ''NlinkMismatch''"
| "kind_text CounterInconsistency = ''CounterInconsistency''"

definition print_summary :: "FsckReport \<Rightarrow> chunk list" where
  "print_summary r =
     println (lit ''fsck: scanned '' @ lit (show_nat (fr_total_inodes r)) @ lit '' inodes, '' @
       lit (show_nat (fr_total_dir_entries r)) @ lit '' directory entries'') #
     (if is_clean r then [println (lit ''fsck: filesystem is clean'')]
      else println (lit ''fsck: found '' @ lit (show_nat (length (fr_issues r))) @ lit '' issues:'') #
        map (\<lambda>issue. println (lit ''  inode '' @ show_int (fi_inode issue) @ lit '': '' @ lit (kind_text (fi_kind issue)) @
          lit '' '' @ [0xE2, 0x80, 0x94] @ lit '' '' @ lit (fi_detail issue))) (fr_issues r))"

definition run_fsck_mode ::
  "('db, 'txn, 'c) setting \<Rightarrow> (inode set \<Rightarrow> inode list) \<Rightarrow> Cli \<Rightarrow> (int, unit) outcome \<times> chunk list" where
  "run_fsck_mode E ord cli =
     (let title = [println (lit ''RucksFS '' @ [0xE2, 0x80, 0x94] @ lit '' Filesystem Consistency Check''), println []] in
      case resolve_data_dir (st_host E) cli of
        Err c \<Rightarrow> (Err c, title @ [eprintln (lit ''Error: HOME environment variable is not set. Use --data-dir to specify the data directory.'')])
      | Panic q \<Rightarrow> (Panic q, title)
      | Ok data_dir \<Rightarrow>
          let db_path = path_join data_dir (lit ''metadata.db'') in
          if \<not> ho_exists (st_host E) db_path then
            (Err 1, title @ [eprintln (lit ''Error: metadata database not found at '' @ to_string_lossy db_path)])
          else case expect_fs ''failed to open RocksDB'' (open_rocks_db (ho_open_db (st_host E)) db_path) of
            Panic q \<Rightarrow> (Panic q, title)
          | Err e \<Rightarrow> (Err e, title)
          | Ok db \<Rightarrow>
              (case fst (check (st_rocks E) ord (stores_new (st_idle E) db)) of
                 Ok report \<Rightarrow> ((if is_clean report then Ok () else Err 1), title @ print_summary report)
               | Err e \<Rightarrow> (Err 2, title @ [eprintln (lit ''fsck error: '' @ lit (error_text e))])
               | Panic q \<Rightarrow> (Panic q, title)))"

section \<open>The other modes\<close>

definition client_of ::
  "('db, 'txn, 'c) setting \<Rightarrow> str \<Rightarrow> u64 \<Rightarrow> (int, (('db, 'txn, 'c) server \<times> rawdisk) vfs) outcome" where
  "client_of E data_dir mfs =
     expect_fs ''internal error: entered unreachable code''
       (build_client (st_rocks E) (st_lru E) (st_host E) (st_idle E) (st_io E) data_dir mfs (st_uid E) (st_gid E)
          (st_server_clock E) (st_client_clock E))"

definition run_interactive_mode ::
  "('db, 'txn, 'c) setting \<Rightarrow> Cli \<Rightarrow> input list \<Rightarrow> (int, (('db, 'txn, 'c) server \<times> rawdisk) vfs shell) outcome" where
  "run_interactive_mode E cli inputs =
     then_do (resolve_data_dir (st_host E) cli) (\<lambda>data_dir.
     then_do (client_of E data_dir (cli_max_file_size cli)) (\<lambda>client.
     case run_repl EmbeddedClient inputs
            \<lparr>sh_client = client, sh_output = banner ''Interactive REPL                  '' @ [storage_line data_dir]\<rparr> of
       (Panic q, s) \<Rightarrow> Panic q
     | (_, s) \<Rightarrow> Ok s))"

text \<open>\<^verbatim>\<open>run_mount_mode\<close> of the Linux build: the state of the handlers when the session has ended.\<close>

definition run_mount_mode ::
  "('db, 'txn, 'c) setting \<Rightarrow> (('db, 'txn, 'c) server \<times> rawdisk) vfs session \<Rightarrow> Cli
   \<Rightarrow> (int, (('db, 'txn, 'c) server \<times> rawdisk) vfs fuse) outcome" where
  "run_mount_mode E S cli =
     (let mountpoint = (case cli_mount cli of Some m \<Rightarrow> m | None \<Rightarrow> lit ''/tmp/rucksfs'') in
      case ho_create_dir_all (st_host E) mountpoint of
        Inl e \<Rightarrow> Err 1
      | Inr _ \<Rightarrow>
          then_do (resolve_data_dir (st_host E) cli) (\<lambda>data_dir.
          then_do (client_of E data_dir (cli_max_file_size cli)) (\<lambda>client.
          case mount_fuse S mountpoint client of
            (Ok _, s) \<Rightarrow> Ok s
          | (Err e, s) \<Rightarrow> Err 1
          | (Panic q, s) \<Rightarrow> Panic q)))"

section \<open>The scripted walk-through\<close>

text \<open>
  \<^verbatim>\<open>{:?}\<close> on a string: the escapes of \<^verbatim>\<open>char::escape_debug\<close>. Which characters above U+007F are shown as they
  are is a table of the Unicode standard, the parameter \<open>plain\<close>.
\<close>

fun hex_digits :: "nat \<Rightarrow> nat \<Rightarrow> string" where
  "hex_digits 0 n = ''''"
| "hex_digits (Suc fuel) n =
     (let d = (\<lambda>k. if k < 10 then char_of (48 + k) else char_of (87 + k)) in
      if n < 16 then [d n] else hex_digits fuel (n div 16) @ [d (n mod 16)])"

definition char_code :: "str \<Rightarrow> nat" where
  "char_code w = (case w of
     [] \<Rightarrow> 0
   | b0 # bs \<Rightarrow> fold (\<lambda>b n. n * 64 + unat b mod 64) bs
       (if bs = [] then unat b0 else unat b0 mod 2 ^ (6 - length bs)))"

definition escape_debug :: "(nat \<Rightarrow> bool) \<Rightarrow> str \<Rightarrow> str" where
  "escape_debug plain w =
     (if w = [0x00] then lit [CHR 0x5C, CHR 0x30]
      else if w = [0x09] then lit [CHR 0x5C, CHR 0x74]
      else if w = [0x0D] then lit [CHR 0x5C, CHR 0x72]
      else if w = [0x0A] then lit [CHR 0x5C, CHR 0x6E]
      else if w = [0x22] \<or> w = [0x5C] then 0x5C # w
      else if (case w of [b] \<Rightarrow> 0x20 \<le> b \<and> b \<le> 0x7E | _ \<Rightarrow> plain (char_code w)) then w
      else lit ([CHR 0x5C] @ ''u{'' @ hex_digits 6 (char_code w) @ ''}''))"

function escape_all :: "(nat \<Rightarrow> bool) \<Rightarrow> str \<Rightarrow> str" where
  "escape_all plain [] = []"
| "escape_all plain (b0 # bs) =
     (case utf8_width b0 of
        None \<Rightarrow> []
      | Some w \<Rightarrow> escape_debug plain (take w (b0 # bs)) @ escape_all plain (drop (w - 1) bs))"
  by pat_completeness auto
termination
  by (relation "measure (length \<circ> snd)") auto

definition debug_str :: "(nat \<Rightarrow> bool) \<Rightarrow> str \<Rightarrow> str" where
  "debug_str plain s = [0x22] @ escape_all plain s @ [0x22]"

definition check_mark :: str where
  "check_mark = lit ''   '' @ [0xE2, 0x9C, 0x93] @ lit '' ''"

definition cross_mark :: str where
  "cross_mark = lit ''   '' @ [0xE2, 0x9C, 0x97] @ lit '' ''"

definition right_arrow :: str where
  "right_arrow = lit '' '' @ [0xE2, 0x86, 0x92] @ lit '' ''"

definition print_step :: "nat \<Rightarrow> str \<Rightarrow> ('v shell, unit, unit) op" where
  "print_step n desc =
     (let bar = [0xE2, 0x94, 0x80]; digits = lit (show_nat n) in
      emit [println (bar @ bar @ lit '' Step '' @ replicate (2 - length digits) 0x20 @ digits @ lit '': '' @ desc @ lit '' '' @ bar @ bar)])"

text \<open>A call whose outcome is matched on; a panic ends the program.\<close>

definition ask :: "('v, 'a) fs_op \<Rightarrow> ('v shell, unit, 'a FsResult) op" where
  "ask f s = (case f (sh_client s) of
     (Panic q, v) \<Rightarrow> (Panic q, s\<lparr>sh_client := v\<rparr>)
   | (r, v) \<Rightarrow> (Ok r, s\<lparr>sh_client := v\<rparr>))"

definition report :: "('v, 'a) fs_op \<Rightarrow> ('a \<Rightarrow> str list) \<Rightarrow> ('v shell, unit, unit) op" where
  "report f shown =
     bind (ask f) (\<lambda>r. case r of
       Ok a \<Rightarrow> emit (map println (shown a))
     | Err e \<Rightarrow> emit [println (cross_mark @ lit (error_text e))]
     | Panic q \<Rightarrow> ret ())"

text \<open>Steps 3 to 10, once the directory and the file are there.\<close>

definition auto_demo_rest :: "(nat \<Rightarrow> bool) \<Rightarrow> 'v VfsOps \<Rightarrow> inode \<Rightarrow> inode \<Rightarrow> ('v shell, unit, unit) op" where
  "auto_demo_rest plain V mydir_inode file_inode =
     bind (print_step 3 (lit ''write '' @ [0x22] @ lit ''Hello, RucksFS!'' @ [0x22] @ right_arrow @ lit ''/mydir/hello.txt'')) (\<lambda>_.
     bind (report (vo_write V file_inode 0 (lit ''Hello, RucksFS!'' @ [0x0A]) 0)
             (\<lambda>n. [check_mark @ lit ''Wrote '' @ show_int n @ lit '' bytes''])) (\<lambda>_.
     bind (print_step 4 (lit ''read /mydir/hello.txt'')) (\<lambda>_.
     bind (report (vo_read V file_inode 0 4096) (\<lambda>data.
             let trimmed = trim_end_matches 0 (to_string_lossy data) in
             [check_mark @ lit ''Read '' @ lit (show_nat (length data)) @ lit '' bytes: '' @ debug_str plain trimmed])) (\<lambda>_.
     bind (print_step 5 (lit ''readdir /mydir'')) (\<lambda>_.
     bind (report (vo_readdir V mydir_inode) (\<lambda>entries.
             (check_mark @ lit (show_nat (length entries)) @ lit '' entries:'') #
             map (\<lambda>entry. lit ''     - '' @ de_name entry @ lit '' (inode='' @ show_int (de_inode entry) @ lit '')'') entries)) (\<lambda>_.
     bind (print_step 6 (lit ''rename /mydir/hello.txt'' @ right_arrow @ lit ''/mydir/greeting.txt'')) (\<lambda>_.
     bind (report (vo_rename V mydir_inode (lit ''hello.txt'') mydir_inode (lit ''greeting.txt''))
             (\<lambda>_. [check_mark @ lit ''Renamed successfully''])) (\<lambda>_.
     bind (print_step 7 (lit ''getattr /mydir/greeting.txt'')) (\<lambda>_.
     bind (report (vo_lookup V mydir_inode (lit ''greeting.txt'')) (\<lambda>attr.
             [check_mark @ lit ''inode='' @ show_int (fa_inode attr) @ lit '', size='' @ show_int (fa_size attr) @
              lit '', mode='' @ show_octal (fa_mode attr) @ lit '', nlink='' @ show_int (fa_nlink attr)])) (\<lambda>_.
     bind (print_step 8 (lit ''unlink /mydir/greeting.txt'')) (\<lambda>_.
     bind (report (vo_unlink V mydir_inode (lit ''greeting.txt'')) (\<lambda>_. [check_mark @ lit ''Unlinked successfully''])) (\<lambda>_.
     bind (print_step 9 (lit ''rmdir /mydir'')) (\<lambda>_.
     bind (report (vo_rmdir V ROOT_INODE (lit ''mydir'')) (\<lambda>_. [check_mark @ lit ''Removed directory''])) (\<lambda>_.
     bind (print_step 10 (lit ''statfs /'')) (\<lambda>_.
     report (vo_statfs V ROOT_INODE) (\<lambda>st.
       [check_mark @ lit ''blocks='' @ show_int (sf_blocks st) @ lit '', bfree='' @ show_int (sf_bfree st) @ lit '', files='' @
        show_int (sf_files st) @ lit '', bsize='' @ show_int (sf_bsize st)]))))))))))))))))"

definition run_auto_demo :: "(nat \<Rightarrow> bool) \<Rightarrow> 'v VfsOps \<Rightarrow> ('v shell, unit, unit) op" where
  "run_auto_demo plain V =
     bind (emit [println []]) (\<lambda>_.
     bind (print_step 1 (lit ''mkdir /mydir'')) (\<lambda>_.
     bind (report (vo_mkdir V ROOT_INODE (lit ''mydir'') 0x1ED 0 0) (\<lambda>attr.
             [check_mark @ lit ''Created directory inode='' @ show_int (fa_inode attr) @ lit '', mode='' @ show_octal (fa_mode attr)])) (\<lambda>_.
     bind (print_step 2 (lit ''create /mydir/hello.txt'')) (\<lambda>_.
     bind (ask (vo_lookup V ROOT_INODE (lit ''mydir''))) (\<lambda>r.
     case r of
       Err e \<Rightarrow> emit [println (cross_mark @ lit ''lookup /mydir failed: '' @ lit (error_text e))]
     | Panic q \<Rightarrow> ret ()
     | Ok dir \<Rightarrow>
         bind (ask (vo_create V (fa_inode dir) (lit ''hello.txt'') 0x1A4 0 0)) (\<lambda>r.
         case r of
           Err e \<Rightarrow> emit [println (cross_mark @ lit (error_text e))]
         | Panic q \<Rightarrow> ret ()
         | Ok attr \<Rightarrow>
             bind (emit [println (check_mark @ lit ''Created file inode='' @ show_int (fa_inode attr) @ lit '', mode='' @
                     show_octal (fa_mode attr))]) (\<lambda>_.
             auto_demo_rest plain V (fa_inode dir) (fa_inode attr))))))))"

definition run_auto_demo_mode ::
  "(nat \<Rightarrow> bool) \<Rightarrow> ('db, 'txn, 'c) setting \<Rightarrow> Cli \<Rightarrow> (int, (('db, 'txn, 'c) server \<times> rawdisk) vfs shell) outcome" where
  "run_auto_demo_mode plain E cli =
     then_do (resolve_data_dir (st_host E) cli) (\<lambda>data_dir.
     then_do (client_of E data_dir (cli_max_file_size cli)) (\<lambda>client.
     case bind (run_auto_demo plain EmbeddedClient) (\<lambda>_.
            emit [println [], println ([0xE2, 0x9C, 0x94] @ lit '' Demo completed successfully!'')])
            \<lparr>sh_client = client, sh_output = banner ''Automatic Demo                    '' @ [storage_line data_dir]\<rparr> of
       (Panic q, s) \<Rightarrow> Panic q
     | (_, s) \<Rightarrow> Ok s))"

text \<open>\<^verbatim>\<open>main\<close>: the state of the client at the end, where there is one.\<close>

definition main_program ::
  "(nat \<Rightarrow> bool) \<Rightarrow> (inode set \<Rightarrow> inode list) \<Rightarrow> ('db, 'txn, 'c) setting \<Rightarrow> (('db, 'txn, 'c) server \<times> rawdisk) vfs session
   \<Rightarrow> input list \<Rightarrow> Cli \<Rightarrow> (int, (('db, 'txn, 'c) server \<times> rawdisk) vfs option) outcome" where
  "main_program plain ord E S inputs cli =
     (if cli_fsck cli then
        map_res (\<lambda>_. None) (fst (run_fsck_mode E ord cli))
      else if cli_mount cli \<noteq> None then map_res (\<lambda>s. Some (fu_client s)) (run_mount_mode E S cli)
      else if cli_interactive cli then map_res (\<lambda>s. Some (sh_client s)) (run_interactive_mode E cli inputs)
      else map_res (\<lambda>s. Some (sh_client s)) (run_auto_demo_mode plain E cli))"

section \<open>The daemons and the remote client\<close>

text \<open>An error that leaves \<^verbatim>\<open>main\<close> ends the process with code 1.\<close>

definition or_exit :: "string + 'a \<Rightarrow> (int, 'a) outcome" where
  "or_exit r = (case r of Inl e \<Rightarrow> Err 1 | Inr a \<Rightarrow> Ok a)"

definition or_exit_fs :: "'a FsResult \<Rightarrow> (int, 'a) outcome" where
  "or_exit_fs r = (case r of Ok a \<Rightarrow> Ok a | Err e \<Rightarrow> Err 1 | Panic q \<Rightarrow> Panic q)"

record MetaserverCli =
  mv_listen :: str
  mv_data_dir :: str
  mv_default_data_server :: str

text \<open>The transport gets an address, the service and its state, serves, and returns the state it leaves.\<close>

definition metaserver_main ::
  "('db, 'txn, 'c) setting \<Rightarrow> (str \<Rightarrow> string + 'addr)
   \<Rightarrow> ('addr \<Rightarrow> ('db, 'txn, 'c) server MetadataService \<Rightarrow> ('db, 'txn, 'c) server \<Rightarrow> (string + unit) \<times> ('db, 'txn, 'c) server)
   \<Rightarrow> MetaserverCli \<Rightarrow> (int, ('db, 'txn, 'c) server) outcome" where
  "metaserver_main E parse listen_on cli =
     (let db_path = path_join (mv_data_dir cli) (lit ''metadata.db'') in
      then_do (or_exit (ho_create_dir_all (st_host E) (mv_data_dir cli))) (\<lambda>_.
      then_do (or_exit_fs (open_rocks_db (ho_open_db (st_host E)) db_path)) (\<lambda>db.
      case delta_store_new (st_rocks E) (stores_new (st_idle E) db) of (r, kv) \<Rightarrow>
      then_do (or_exit_fs r) (\<lambda>_.
      then_do (or_exit_fs (server_new (st_rocks E) (st_lru E) \<lparr>server_id = mv_default_data_server cli\<rparr> (st_uid E) (st_gid E)
                 (st_server_clock E) kv)) (\<lambda>server.
      let rpc_server = MetadataRpcServer (MetadataServer (st_rocks E) (st_lru E)) in
      then_do (or_exit (parse (mv_listen cli))) (\<lambda>addr.
      case listen_on addr rpc_server server of (r, s) \<Rightarrow> map_res (\<lambda>_. s) (or_exit r)))))))"

record DataserverCli =
  dv_listen :: str
  dv_data_dir :: str
  dv_max_file_size :: u64

definition dataserver_main ::
  "('db, 'txn, 'c) setting \<Rightarrow> (str \<Rightarrow> string + 'addr)
   \<Rightarrow> ('addr \<Rightarrow> rawdisk DataService \<Rightarrow> rawdisk \<Rightarrow> (string + unit) \<times> rawdisk) \<Rightarrow> DataserverCli \<Rightarrow> (int, rawdisk) outcome" where
  "dataserver_main E parse listen_on cli =
     (let data_path = path_join (dv_data_dir cli) (lit ''data.raw'') in
      then_do (or_exit (ho_create_dir_all (st_host E) (dv_data_dir cli))) (\<lambda>_.
      then_do (or_exit_fs (rawdisk_open (ho_open_file (st_host E) data_path) (st_io E) (dv_max_file_size cli))) (\<lambda>data_store.
      let rpc_server = DataRpcServer (DataServer RawDiskDataStore) in
      then_do (or_exit (parse (dv_listen cli))) (\<lambda>addr.
      case listen_on addr rpc_server data_store of (r, d) \<Rightarrow> map_res (\<lambda>_. d) (or_exit r)))))"

record ClientCli =
  cc_mount :: str
  cc_meta_addr :: str
  cc_data_addr :: str

text \<open>
  The remote client: \<open>meta_conn\<close> and \<open>data_conn\<close> are the calls of \<open>connect\<close> and \<open>data_connect\<close> with the transport
  and the environment filled in, \<open>disk\<close> is the state behind the data connection.
\<close>

definition client_main ::
  "'db host \<Rightarrow> (str \<Rightarrow> ('n, 's rpc_client) fs_op) \<Rightarrow> (str \<Rightarrow> ('n, 'd DataOps) fs_op) \<Rightarrow> 'd \<Rightarrow> (nat \<Rightarrow> u64)
   \<Rightarrow> ('s rpc_client \<times> 'd) vfs session \<Rightarrow> ClientCli \<Rightarrow> 'n \<Rightarrow> (int, ('s rpc_client \<times> 'd) vfs fuse) outcome" where
  "client_main H meta_conn data_conn disk clock S cli net =
     (case meta_conn (cc_meta_addr cli) net of (m, net1) \<Rightarrow>
      then_do (or_exit_fs m) (\<lambda>meta_client.
      case data_conn (cc_data_addr cli) net1 of (d, net2) \<Rightarrow>
      then_do (or_exit_fs d) (\<lambda>data_client.
      let vfs = vfs_new (beside_data MetadataRpcClient) (beside_meta data_client) (meta_client, disk) clock in
      then_do (or_exit (ho_create_dir_all H (cc_mount cli))) (\<lambda>_.
      case mount_fuse S (cc_mount cli) vfs of (r, s) \<Rightarrow> map_res (\<lambda>_. s) (or_exit_fs r)))))"

section \<open>What the programs rely on of a session\<close>

text \<open>A stretch of \<open>n\<close> calls and background tasks, each one the kernel may make.\<close>

inductive session_run ::
  "('db, 'txn) rocks \<Rightarrow> 'c lru \<Rightarrow> ('db \<Rightarrow> view) \<Rightarrow> nat \<Rightarrow> (('db, 'txn, 'c) server \<times> rawdisk) vfs fuse
   \<Rightarrow> (('db, 'txn, 'c) server \<times> rawdisk) vfs fuse \<Rightarrow> bool" for R L view where
  none: "session_run R L view 0 s s"
| one: "session_run R L view n s t \<Longrightarrow> kernel_ok view k (fst (vc_env (fu_client t))) \<Longrightarrow>
     serve_call EmbeddedClient k t = (r, t') \<Longrightarrow> session_run R L view (Suc n) s t'"

lemma session_run_trans: "session_run R L view m t u \<Longrightarrow> session_run R L view n s t \<Longrightarrow> session_run R L view (n + m) s u"
  by (induction rule: session_run.induct) (auto intro: session_run.one)

lemma mounted_run: "session_run R L view m s t \<Longrightarrow> mounted R L view n s \<Longrightarrow> mounted R L view (n + m) t"
  by (induction rule: session_run.induct) (auto intro: mounted.call)

locale fuse_session =
  fixes R :: "('db, 'txn) rocks" and L :: "'c lru" and view :: "'db \<Rightarrow> view" and limit :: nat
    and S :: "(('db, 'txn, 'c) server \<times> rawdisk) vfs session"
  assumes mount_law: "se_mount_with_unprivileged S opts path s = (r, t) \<Longrightarrow> \<exists>n \<le> limit. session_run R L view n s t"
    and ctrl_c_law: "se_ctrl_c S s = (r, t) \<Longrightarrow> \<exists>n \<le> limit. session_run R L view n s t"
    and unmount_law: "se_unmount S s = (r, t) \<Longrightarrow> \<exists>n \<le> limit. session_run R L view n s t"
begin

lemma run_more: "\<exists>n \<le> a. session_run R L view n s t \<Longrightarrow> \<exists>m \<le> b. session_run R L view m t u \<Longrightarrow>
    \<exists>n \<le> a + b. session_run R L view n s u"
  by (meson add_mono session_run_trans)

lemma lib_call_run:
  assumes "lib_call err f s = (r, t)" and "\<And>r s t. f s = (r, t) \<Longrightarrow> \<exists>n \<le> limit. session_run R L view n s t"
  shows "\<exists>n \<le> limit. session_run R L view n s t"
proof -
  obtain q u where f: "f s = (q, u)" by fastforce
  then have "u = t" using assms(1) by (auto simp: lib_call_def split: sum.splits)
  with assms(2) [OF f] show ?thesis by simp
qed

lemma bind_run:
  assumes "bind f g s = (r, t)" and "\<And>r s t. f s = (r, t) \<Longrightarrow> \<exists>n \<le> a. session_run R L view n s t"
    and "\<And>x r s t. g x s = (r, t) \<Longrightarrow> \<exists>n \<le> b. session_run R L view n s t"
  shows "\<exists>n \<le> a + b. session_run R L view n s t"
proof -
  obtain q u where f: "f s = (q, u)" by fastforce
  note first = assms(2) [OF f]
  show ?thesis
  proof (cases q)
    case (Ok x)
    then have "g x u = (r, t)" using assms(1) f by (simp add: bind_def)
    from run_more [OF first assms(3) [OF this]] show ?thesis .
  qed (use first assms(1) f in \<open>auto simp: bind_def intro: trans_le_add1\<close>)
qed

text \<open>However mounting, waiting and unmounting end, the handlers have only been called.\<close>

lemma mount_fuse_run:
  assumes "mount_fuse S mountpoint v = (r, t)"
  shows "\<exists>n \<le> limit + (limit + limit). session_run R L view n (FuseClient_new v) t"
  by (rule bind_run [OF assms [unfolded mount_fuse_def Let_def]])
    (assumption | erule lib_call_run bind_run | rule mount_law ctrl_c_law unmount_law)+

end

text \<open>A session that serves a given list of calls while it waits, leaving out those the kernel would not make.\<close>

fun play :: "('db \<Rightarrow> view) \<Rightarrow> kcall list \<Rightarrow> (('db, 'txn, 'c) server \<times> rawdisk) vfs fuse \<Rightarrow> (('db, 'txn, 'c) server \<times> rawdisk) vfs fuse" where
  "play view [] s = s"
| "play view (k # ks) s =
     play view ks (if kernel_ok view k (fst (vc_env (fu_client s))) then snd (serve_call EmbeddedClient k s) else s)"

definition scripted :: "('db \<Rightarrow> view) \<Rightarrow> kcall list \<Rightarrow> (('db, 'txn, 'c) server \<times> rawdisk) vfs session" where
  "scripted view ks = \<lparr>se_mount_with_unprivileged = (\<lambda>opts path s. (Inr (), s)), se_ctrl_c = (\<lambda>s. (Inr (), play view ks s)),
     se_unmount = (\<lambda>s. (Inr (), s))\<rparr>"

lemma play_run: "\<exists>n \<le> length ks. session_run R L view n s (play view ks s)"
proof (induction ks arbitrary: s)
  case Nil
  show ?case by (auto intro: session_run.none)
next
  case (Cons k ks)
  let ?t = "if kernel_ok view k (fst (vc_env (fu_client s))) then snd (serve_call EmbeddedClient k s) else s"
  have "\<exists>m \<le> 1. session_run R L view m s ?t"
  proof (cases "kernel_ok view k (fst (vc_env (fu_client s)))")
    case True
    then have "session_run R L view (Suc 0) s ?t"
      using session_run.one [OF session_run.none True prod.collapse [symmetric]] by simp
    then show ?thesis by auto
  qed (auto intro: session_run.none)
  then obtain m where m: "m \<le> 1" "session_run R L view m s ?t" by blast
  from Cons.IH [of ?t] obtain n where n: "n \<le> length ks" "session_run R L view n ?t (play view ks ?t)" by blast
  from session_run_trans [OF n(2) m(2)] m(1) n(1) show ?case by (intro exI [of _ "m + n"]) simp
qed

interpretation scripted: fuse_session R L view "length ks" "scripted view ks" for R L view ks
  by unfold_locales (use play_run session_run.none in \<open>fastforce simp: scripted_def\<close>)+

section \<open>The mount program\<close>

text \<open>
  The program in mount mode, on an empty database: when it returns, the file system was mounted and
  has served its calls, and every directory entry is sound.
\<close>

lemma mount_mode_mounted:
  assumes "fuse_session (st_rocks E) (st_lru E) view limit S" and "run_mount_mode E S cli = Ok s"
    and "resolve_data_dir (st_host E) cli = Ok dir"
    and "open_rocks_db (ho_open_db (st_host E)) (path_join dir (lit ''metadata.db'')) = Ok db" and "view db = (\<lambda>_ _. None)"
    and "\<And>v. client_of E dir (cli_max_file_size cli) = Ok v \<Longrightarrow> stored (view (kv_db (fst (vc_env v)))) ROOT_INODE \<noteq> None"
  shows "\<exists>n \<le> 3 * limit. mounted (st_rocks E) (st_lru E) view n s"
proof -
  from assms(2,3) obtain v mountpoint where v: "client_of E dir (cli_max_file_size cli) = Ok v" "mount_fuse S mountpoint v = (Ok (), s)"
    by (cases "client_of E dir (cli_max_file_size cli)")
      (auto simp: run_mount_mode_def Let_def split: sum.splits prod.splits outcome.splits)
  have "mounted (st_rocks E) (st_lru E) view 0 (FuseClient_new v)"
    by (rule mounted.mount [OF _ assms(4,5) assms(6) [OF v(1)]]) 
      (use v(1) in \<open>auto simp: client_of_def expect_fs_def split: outcome.splits\<close>)
  with fuse_session.mount_fuse_run [OF assms(1) v(2)] mounted_run show ?thesis by (fastforce simp: numeral_3_eq_3)
qed

section \<open>The metadata daemon\<close>

lemma metaserver_fresh:
  assumes "rocksdb (st_rocks E) view pend" and "ho_create_dir_all (st_host E) (mv_data_dir cli) = Inr ()"
    and "open_rocks_db (ho_open_db (st_host E)) (path_join (mv_data_dir cli) (lit ''metadata.db'')) = Ok db" and "view db = (\<lambda>_ _. None)"
    and "parse (mv_listen cli) = Inr addr"
  shows "\<exists>s. metaserver_main E parse listen_on cli =
      (case listen_on addr (MetadataRpcServer (MetadataServer (st_rocks E) (st_lru E))) s of (r, s) \<Rightarrow> map_res (\<lambda>_. s) (or_exit r)) \<and>
    (stored (view (kv_db s)) ROOT_INODE \<noteq> None \<longrightarrow> after_requests (st_rocks E) (st_lru E) view 0 s)"
proof -
  from fresh_counters [OF assms(1,4)] obtain kv1 where kv1: "delta_store_new (st_rocks E) (stores_new (st_idle E) db) = (Ok (), kv1)"
    "view (kv_db kv1) = (\<lambda>_ _. None)" "kv_seqs kv1 = (\<lambda>_. None)" by blast
  obtain c where "cache_new (st_lru E) DEFAULT_CACHE_CAPACITY = Ok c"
    by (simp add: cache_new_def DEFAULT_CACHE_CAPACITY_def)
  with rocksdb.fresh_starts [OF assms(1) kv1(2)] obtain s where
    s: "server_new (st_rocks E) (st_lru E) \<lparr>server_id = mv_default_data_server cli\<rparr> (st_uid E) (st_gid E) (st_server_clock E) kv1 = Ok s"
    unfolding server_new_def by blast
  have "after_requests (st_rocks E) (st_lru E) view 0 s" if "stored (view (kv_db s)) ROOT_INODE \<noteq> None"
    by (rule after_requests.start [where view = view, OF s [unfolded server_new_def] kv1(2,3) that])
  then show ?thesis using assms(2,3,5) kv1(1) s
    by (intro exI [of _ s]) (simp add: metaserver_main_def Let_def or_exit_def or_exit_fs_def)
qed

section \<open>The program as a whole\<close>


text \<open>The program mounts the in-memory database, makes a directory and unmounts.\<close>

definition sample_setting :: "(mem_db, mem_txn, lru_list) setting" where
  "sample_setting = \<lparr>st_rocks = mem_rocks, st_lru = list_lru, st_host = sample_host, st_idle = [], st_io = (\<lambda>_. Full), st_uid = 0,
     st_gid = 0, st_server_clock = (\<lambda>n. of_nat (100 + n)), st_client_clock = (\<lambda>_. 200)\<rparr>"

definition sample_cli :: Cli where
  "sample_cli = \<lparr>cli_interactive = False, cli_mount = Some (lit ''/mnt''), cli_data_dir = Some (lit ''/data''), cli_fsck = False,
     cli_max_file_size = 64\<rparr>"

lemma sample_client: "client_of sample_setting (lit ''/data'') (cli_max_file_size sample_cli) = expect_fs ''internal error: entered unreachable code'' built"
  by (simp add: client_of_def sample_setting_def sample_cli_def built_def)

lemma sample_dir: "resolve_data_dir (st_host sample_setting) sample_cli = Ok (lit ''/data'')"
  by (simp add: resolve_data_dir_def sample_cli_def)

lemma sample_main:
  assumes "built = Ok v"
  shows "main_program plain ord sample_setting (scripted mem_view [new_dir]) inputs sample_cli =
    Ok (Some (fu_client (play mem_view [new_dir] (FuseClient_new v))))"
proof -
  have "ho_create_dir_all (st_host sample_setting) (lit ''/mnt'') = Inr ()" "cli_mount sample_cli = Some (lit ''/mnt'')"
    "\<not> cli_fsck sample_cli" by (simp_all add: sample_setting_def sample_cli_def sample_host_files)
  then show ?thesis
    by (simp add: main_program_def run_mount_mode_def Let_def sample_dir sample_client assms expect_fs_def mount_fuse_def lib_call_def
        bind_def scripted_def del: play.simps)
qed


end
