(* ===== verification/Ablation.thy ===== *)
theory Ablation
  imports Server_Inv
begin

text \<open>
  The build with the feature \<^verbatim>\<open>no_delta\<close> (\<^verbatim>\<open>src/server/src/lib.rs\<close>), which differs in one function: the parent's
  attributes are read under a lock, changed and written back instead of being recorded as deltas. Everything
  else of the development is about the normal build. Here the two variants are compared inside a
  transaction of their own.
\<close>

section \<open>The other variant\<close>

definition batch_parent_deltas_no_delta ::
  "('db, 'txn) rocks \<Rightarrow> inode \<Rightarrow> DeltaOp list \<Rightarrow> (('db, 'txn, 'z) kv_scheme, unit) fs_op" where
  "batch_parent_deltas_no_delta R parent deltas =
     (let key = encode_inode_key parent in
      match_op (get_for_update_inode R key) (\<lambda>r.
      case r of
        Ok (Some b) \<Rightarrow>
          (case deserialize b of
             Ok iv \<Rightarrow> push R (PutInode key (serialize (fold_deltas iv deltas)))
           | _ \<Rightarrow> ret ())
      | _ \<Rightarrow> ret ()))"

definition in_transaction :: "('db, 'txn) rocks \<Rightarrow> (('db, 'txn, 'z) kv_scheme, unit) fs_op \<Rightarrow> (('db, 'txn, 'z) kv_scheme, unit) fs_op" where
  "in_transaction R f = bind (begin_write R) (\<lambda>_. bind f (\<lambda>_. commit R))"

text \<open>Whether the locked read inside the transaction succeeds.\<close>

definition lock_granted :: "('db, 'txn) rocks \<Rightarrow> inode \<Rightarrow> ('db, 'txn, 'z) kv_scheme \<Rightarrow> bool" where
  "lock_granted R i s \<longleftrightarrow> (case fst (bind (begin_write R) (\<lambda>_. get_for_update_inode R (encode_inode_key i)) s) of Ok _ \<Rightarrow> True | _ \<Rightarrow> False)"

section \<open>What each variant leaves behind\<close>

context rocksdb
begin

lemma deltas_committed:
  assumes "in_transaction R (batch_parent_deltas R p ds) s = (Ok (), s')"
  shows "view (kv_db s') = apply_writes (delta_writes p (seq_of s p) (map serialize_delta ds)) (view (kv_db s))"
proof -
  have "wp (in_transaction R (batch_parent_deltas R p ds)) (\<lambda>r s'. r = Ok () \<longrightarrow>
      view (kv_db s') = apply_writes (delta_writes p (seq_of s p) (map serialize_delta ds)) (view (kv_db s))) s"
    unfolding in_transaction_def
    by (auto simp: wp_simps intro!: wp_begin_write wp_batch_parent_deltas wp_commit)
  from wpD [OF this assms] show ?thesis by simp
qed

lemma read_modify_write_committed:
  assumes "in_transaction R (batch_parent_deltas_no_delta R p ds) s = (Ok (), s')"
  shows "view (kv_db s') = (case stored (view (kv_db s)) p of
      Some iv \<Rightarrow> if lock_granted R p s then upd CF_INODES (encode_inode_key p) (Some (serialize (fold_deltas iv ds))) (view (kv_db s))
                 else view (kv_db s)
    | None \<Rightarrow> view (kv_db s))"
proof -
  obtain t d where b: "begin_write R s = (Ok (), s\<lparr>kv_db := d, kv_txn := t\<rparr>)" "view d = view (kv_db s)" "pend t = no_writes"
    by (cases "rk_begin R (kv_db s)") (auto simp: begin_write_def dest!: begin_spec)
  let ?s = "s\<lparr>kv_db := d, kv_txn := t\<rparr>"
  obtain r u where g: "get_for_update_inode R (encode_inode_key p) ?s = (r, u)" by fastforce
  have "wp (get_for_update_inode R (encode_inode_key p)) (\<lambda>r u. view (kv_db u) = view (kv_db s) \<and> pend (kv_txn u) = no_writes \<and>
      (\<forall>q. r \<noteq> Panic q) \<and> (\<forall>x. r = Ok x \<longrightarrow> x = view (kv_db s) CF_INODES (encode_inode_key p))) ?s"
    by (rule wp_get_for_update_inode) (simp_all add: b)
  note u = wpD [OF this g]
  have granted: "lock_granted R p s \<longleftrightarrow> (\<exists>x. r = Ok x)"
    using g by (simp add: lock_granted_def bind_def b(1) split: outcome.splits)
  show ?thesis
  proof (cases "\<exists>iv. stored (view (kv_db s)) p = Some iv \<and> lock_granted R p s")
    case True
    then obtain iv raw where iv: "stored (view (kv_db s)) p = Some iv" "r = Ok (Some raw)" "deserialize raw = Ok iv"
      using u granted by (auto simp: stored_Some)
    have "wp (bind (push R (PutInode (encode_inode_key p) (serialize (fold_deltas iv ds)))) (\<lambda>_. commit R)) (\<lambda>r s'. r = Ok () \<longrightarrow>
        view (kv_db s') = upd CF_INODES (encode_inode_key p) (Some (serialize (fold_deltas iv ds))) (view (kv_db s))) u"
      using u by (auto simp: wp_simps intro!: wp_push wp_commit)
    from wpD [OF this] assms iv True show ?thesis
      by (simp add: in_transaction_def batch_parent_deltas_no_delta_def Let_def bind_def b(1) match_op_def g)
  next
    case False
    have "wp (commit R) (\<lambda>r s'. view (kv_db s') = view (kv_db s)) u"
      using u by (auto intro!: wp_commit)
    from wpD [OF this] assms False u granted show ?thesis
      by (auto simp: in_transaction_def batch_parent_deltas_no_delta_def Let_def bind_def b(1) match_op_def g ret_def stored_def
          split: outcome.splits option.splits)
  qed
qed

end

section \<open>The variants agree\<close>

text \<open>
  C23. Both builds give a directory the same attributes: on a database without pending deltas of the directory,
  a committed transaction of the \<^verbatim>\<open>no_delta\<close> build leaves every inode with the attributes that readers see after the
  same transaction of the normal build, if the locked read of the directory succeeds. If it does not, the
  \<^verbatim>\<open>no_delta\<close> build commits without the change, and nothing is stored.
\<close>

theorem ablation_agrees:
  assumes "rocksdb R view pend" and "in_transaction R (batch_parent_deltas R p ds) s = (Ok (), s1)"
    and "in_transaction R (batch_parent_deltas_no_delta R p ds) s = (Ok (), s2)" and "pending (view (kv_db s)) p = []"
    and "delta_inv (view (kv_db s)) (seq_of s)" and "unat (seq_of s p) + length ds < 2 ^ 64"
  shows "if lock_granted R p s
    then effective (view (kv_db s2)) = effective (view (kv_db s1)) \<and> pending (view (kv_db s2)) = pending (view (kv_db s))
    else view (kv_db s2) = view (kv_db s)"
proof -
  let ?V = "view (kv_db s)"
  note one = rocksdb.deltas_committed [OF assms(1,2)] and two = rocksdb.read_modify_write_committed [OF assms(1,3)]
  have p: "pending (view (kv_db s1)) j = (if j = p then map serialize_delta ds else pending ?V j)" for j
    unfolding one using pending_delta_writes [OF rocksdb.finite_view [OF assms(1)] assms(5), of p "map serialize_delta ds"] assms(4,6) by simp
  have "effective (view (kv_db s2)) j = effective (view (kv_db s1)) j \<and> pending (view (kv_db s2)) = pending ?V"
    if "lock_granted R p s" for j
  proof (cases "stored ?V p")
    case None
    with two show ?thesis by (simp add: effective_def p) (simp add: one)
  next
    case (Some iv)
    then have "view (kv_db s2) = upd CF_INODES (encode_inode_key p) (Some (serialize (fold_deltas iv ds))) ?V"
      using two that by simp
    with Some stored_version [OF Some] assms(4) show ?thesis by (simp add: effective_def p) (simp add: one)
  qed
  with two show ?thesis by (auto split: option.splits)
qed

definition one_dir :: "(mem_db, mem_txn) kv" where
  "one_dir = \<lparr>kv_db = \<lparr>mem_kv = [((CF_INODES, encode_inode_key 1), serialize \<lparr>iv_version = 1, iv_inode = 1, iv_size = 0,
       iv_mode = 0x41ED, iv_nlink = 2, iv_uid = 0, iv_gid = 0, iv_atime = 5, iv_mtime = 5, iv_ctime = 5\<rparr>)], mem_faults = []\<rparr>,
     kv_txn = [], kv_seqs = (\<lambda>_. None)\<rparr>"

theorem ablation_agrees_witness:
  "\<exists>s1 s2. in_transaction mem_rocks (batch_parent_deltas mem_rocks 1 [IncrementNlink 1, SetMtime 9]) one_dir = (Ok (), s1) \<and>
     in_transaction mem_rocks (batch_parent_deltas_no_delta mem_rocks 1 [IncrementNlink 1, SetMtime 9]) one_dir = (Ok (), s2) \<and>
     effective (mem_view (kv_db s2)) = effective (mem_view (kv_db s1)) \<and>
     map_option iv_nlink (stored (mem_view (kv_db s2)) 1) = Some 3"
proof -
  let ?ds = "[IncrementNlink 1, SetMtime 9]"
  have "fst (in_transaction mem_rocks (batch_parent_deltas mem_rocks 1 ?ds) one_dir) = Ok ()"
    "fst (in_transaction mem_rocks (batch_parent_deltas_no_delta mem_rocks 1 ?ds) one_dir) = Ok ()"
    "lock_granted mem_rocks 1 one_dir"
    "map_option iv_nlink (stored (mem_view (kv_db (snd (in_transaction mem_rocks (batch_parent_deltas_no_delta mem_rocks 1 ?ds) one_dir)))) 1) = Some 3"
    by code_simp+
  note runs = run_result [OF this(1)] run_result [OF this(2)] this(3,4)
  have empty: "mem_view (kv_db one_dir) CF_DELTA_ENTRIES = (\<lambda>_. None)" by (simp add: fun_eq_iff one_dir_def mem_view_def)
  have clean: "pending (mem_view (kv_db one_dir)) 1 = []" by (simp add: pending_def scan_def empty)
  have inv: "delta_inv (mem_view (kv_db one_dir)) (seq_of one_dir)" by (simp add: delta_inv_def empty)
  have "unat (seq_of one_dir 1) + length ?ds < 2 ^ 64" by (simp add: one_dir_def seq_at_def)
  from ablation_agrees [OF mem.rocksdb_axioms runs(1,2) clean inv this] runs show ?thesis by auto
qed

end
