(* ===== verification/Spec2Isabelle.thy ===== *)
theory Spec2Isabelle
  imports Server_Props Fsck Tls Programs Ablation
begin

text \<open>
  Verification of rucksfs, a user-space POSIX file system whose metadata lives in RocksDB and whose
  file data lives in one flat file. The Rust sources are under \<^verbatim>\<open>src/\<close>.

  \<^bold>\<open>The program.\<close> A FUSE front end (\<^verbatim>\<open>client/src/fuse.rs\<close>) turns kernel requests into calls of the
  trait \<^verbatim>\<open>VfsOps\<close>. The router \<^verbatim>\<open>VfsCore\<close> (\<^verbatim>\<open>client/src/vfs_core.rs\<close>) implements that trait over a
  \<^verbatim>\<open>MetadataOps\<close> and one or several \<^verbatim>\<open>DataOps\<close> objects: it sends names and attributes to the metadata
  server, bytes to the data server, reports writes back to the metadata server and purges the data of
  deleted inodes. In one process these objects are the metadata server (\<^verbatim>\<open>server/src\<close>) and the data
  server (\<^verbatim>\<open>dataserver/src\<close>) themselves (\<^verbatim>\<open>EmbeddedClient\<close>); in a distributed deployment they are gRPC
  clients (\<^verbatim>\<open>rpc/src\<close>) of servers elsewhere. The metadata server keeps inodes, directory entries and
  pending attribute changes (deltas) in RocksDB column families (\<^verbatim>\<open>storage/src\<close>), folds deltas on
  reading, caches the folded values and compacts them; its operations are transactions that are
  repeated on conflicts. The data server stores bytes at \<open>inode * max_file_size + offset\<close>.

  \<^bold>\<open>The theories\<close>, from the bottom up:
  \<^item> \<open>Prelude\<close>: words, byte strings, big-endian encodings, UTF-8 validation, outcomes (a value, an error
    or a panic), the state-and-outcome monad in which every stateful operation is written, and its
    weakest-precondition calculus (\<open>wp_rules\<close>, \<open>wp_simps\<close>).
  \<^item> \<open>Core_Types\<close> (\<^verbatim>\<open>core/src/lib.rs\<close>), \<open>Encoding\<close> (\<^verbatim>\<open>storage/src/encoding.rs\<close>), \<open>Delta\<close>
    (\<^verbatim>\<open>server/src/delta.rs\<close>): data, binary layouts and the fold of deltas; round trips, exactness of the
    codecs, byte order of keys, isolation of prefix scans, independence of the fold from the order.
  \<^item> \<open>RocksDB\<close>: the third-party database as a record of operations and the locale \<open>rocksdb\<close> of their
    documented behaviour, interpreted by an in-memory instance. \<open>Rocks_Stores\<close>
    (\<^verbatim>\<open>storage/src/rocks.rs\<close>, \<^verbatim>\<open>storage/src/lib.rs\<close>): the four stores and the write batch on top of it;
    exact listings, atomic batches, ordered and fresh delta keys. \<open>Rocks_Open\<close>: the options of the column
    families and opening, with RocksDB's own opening as a parameter; the prefix extractors fit the keys.
  \<^item> \<open>Allocator\<close> (\<^verbatim>\<open>storage/src/allocator.rs\<close>), \<open>Cache\<close> (\<^verbatim>\<open>server/src/cache.rs\<close>, over the locale
    \<open>lru_cache\<close> for the \<^verbatim>\<open>lru\<close> crate), \<open>Compaction\<close> (\<^verbatim>\<open>server/src/compaction.rs\<close>): distinct numbers, the
    cache as a partial map, compaction invisible to readers.
  \<^item> \<open>Server\<close> and \<open>Server_Ops\<close> (\<^verbatim>\<open>server/src/lib.rs\<close>): state, helpers, the retry loop and every
    operation of \<^verbatim>\<open>MetadataOps\<close>; the closure an operation hands to \<^verbatim>\<open>execute_with_retry\<close> is the
    definition with the suffix \<open>_txn\<close>. \<open>Server_Rules\<close>, \<open>Server_Specs\<close> and \<open>Server_Rename\<close> give each
    closure a contract as an explicit list of writes; \<open>Namespace\<close> reads names, inodes and deltas out
    of the stored contents and states the invariant; \<open>Server_Inv\<close>, \<open>Server_Correct\<close>,
    \<open>Server_Rename_Correct\<close> and \<open>Server_Steps\<close> prove that each operation implements an abstract file
    system (\<open>abs_fs\<close>: names, attributes, link targets) and keeps the invariant; \<open>Server_Reach\<close> is the
    server as a transition system with its reachable states; \<open>Server_Budget\<close> bounds what a request uses up of
    the counters, so that the reachable states are those after any sequence of requests up to a length;
    \<open>Server_Props\<close> holds the properties. \<open>Ablation\<close> compares the build with the feature \<^verbatim>\<open>no_delta\<close>, which differs
    in one function.
  \<^item> \<open>Raw_Disk\<close> (\<^verbatim>\<open>storage/src/rawdisk.rs\<close>, \<^verbatim>\<open>dataserver/src/lib.rs\<close>): the flat file under a schedule of
    short and failing system calls, the contract \<open>data_store\<close> and its interpretations.
  \<^item> \<open>Vfs\<close> (\<^verbatim>\<open>client/src/vfs_core.rs\<close>, \<^verbatim>\<open>client/src/embedded.rs\<close>): the router over the contract
    \<open>vfs_backend\<close>, interpreted by the embedded composition.
  \<^item> \<open>Rpc_Types\<close>, \<open>Rpc_Metadata\<close>, \<open>Rpc_Data\<close> (\<^verbatim>\<open>rpc/src\<close>, \<^verbatim>\<open>rpc/proto\<close>): messages, servers, clients, error
    tables, the connection pool, the token check; a client stands for the backend behind its server,
    and the distributed composition interprets the same contracts as the embedded one. \<open>Tls\<close>: loading of
    TLS settings, with file access and the TLS libraries as parameters.
  \<^item> \<open>Fuse\<close> (\<^verbatim>\<open>client/src/fuse.rs\<close>): every handler over any \<^verbatim>\<open>VfsOps\<close>.
  \<^item> \<open>Demo\<close> (\<^verbatim>\<open>demo/src/main.rs\<close>): path resolution, the interactive shell and the construction of the embedded
    client; resolved paths are walks along the names, reading commands are harmless, a text written
    from the shell is shown again, and a newly built client satisfies the invariants used above.
  \<^item> \<open>Fuse_System\<close>: the mounted file system as a whole, the FUSE handlers over the embedded client over the
    servers. Each kernel call is traced to the metadata requests and the bytes it touches, and the states
    a mounted file system can be in are reachable states of the server.
  \<^item> \<open>Programs\<close> (\<^verbatim>\<open>demo/src/main.rs\<close>, \<^verbatim>\<open>demo/src/bin\<close>, \<^verbatim>\<open>mount_fuse\<close>): every mode of the stand-alone program,
    the two daemons and the remote client from their parsed command lines, over the contract \<open>fuse_session\<close>
    of the FUSE library; the mounted program keeps its names sound up to the unmount.
  \<^item> \<open>Fsck\<close> (\<^verbatim>\<open>server/src/fsck.rs\<close>): the offline checker and what its report means.

  \<^bold>\<open>Bounds.\<close> Machine integers are words and wrap as in a release build. The properties of single operations
  assume room before the 64-bit inode and delta counters wrap: 12 allocations and deltas per request,
  21 for \<^verbatim>\<open>rename\<close>, which covers every attempt of one request (an operation is tried at most 3 times, each
  attempt uses at most one inode number and a few deltas). For a server started on an empty database
  \<open>Server_Budget\<close> proves that there is room for \<open>2\<^sup>5\<^sup>8\<close> requests, which is \<open>2\<^sup>5\<^sup>7\<close> kernel calls. \<open>truncate\<close> writes zeros in chunks and is
  given the number of chunks as fuel, which is shown to suffice. The compaction loop, which runs until it is stopped, follows a finite
  schedule of what the other threads do between its rounds; number formatting has as much fuel as digits
  can be needed. No other loop needs a bound.

  \<^bold>\<open>Concurrency.\<close> Requests to the server run one after the other; what other requests can do to one of
  them shows as failing commits, conflicts and retries, which the database contract leaves open at
  every call. The compaction theorem also covers deltas that arrive between its scan and its commit.
  Releases of the FUSE front end run in the background, in any order.

  \<^bold>\<open>Not modelled.\<close> The parsing of command lines, the gRPC transport, the FUSE library, RocksDB, the LRU map and
  the TLS libraries are third-party code and appear as parameters with contracts. The benchmark
  (\<^verbatim>\<open>demo/src/bin/bench.rs\<close>) only measures: wall-clock latencies and floating-point statistics over generated
  requests, which the properties of the metadata server cover. Left out too are the builds for other systems
  than Linux (mounting reports that it is not implemented), the placeholder programs \<^verbatim>\<open>client/src/main.rs\<close> and
  \<^verbatim>\<open>server/src/main.rs\<close>, the messages of the programs that end with an exit code or serve (the fsck mode apart), log
  output, tests, scripts and documents.
\<close>

end
